(* ===== verification/Prelude.thy ===== *)
theory Prelude
  imports Main "HOL-Library.Word"
begin

text \<open>
  Shared vocabulary of the development.

  \<^item> Unsigned 64-bit values (\<^verbatim>\<open>uint64_t\<close>, \<^verbatim>\<open>size_t\<close>) are natural numbers
    with the wrap-around written out: \<open>u64_add\<close>, \<open>u64_sub\<close>, \<open>u64_inc\<close> and
    \<open>u64_dec\<close> compute modulo \<open>2 ^ 64\<close>. The lemmas \<open>u64_add_word\<close> and
    \<open>u64_sub_word\<close> tie them to the machine words of the library.
  \<^item> Collections of rules: \<open>u64_simps\<close> removes the wrap-around where a bound is known,
    \<open>exec_simps\<close> evaluates the combinators of the theory Results, \<open>keeps_intros\<close>
    walks through a handler when a property of its state is preserved.
  \<^item> Facts on lists that several components use.
\<close>

named_theorems u64_simps \<open>wrap-around removed under a bound\<close>
named_theorems exec_simps \<open>evaluation of the state and panic combinators\<close>
named_theorems keeps_intros \<open>preservation of a relation between the states before and after\<close>

section \<open>Unsigned 64-bit arithmetic\<close>

definition u64_max :: nat where
  "u64_max = 2 ^ 64 - 1"

definition u64_add :: "nat \<Rightarrow> nat \<Rightarrow> nat" where
  "u64_add a b = (a + b) mod 2 ^ 64"

definition u64_sub :: "nat \<Rightarrow> nat \<Rightarrow> nat" where
  "u64_sub a b = (a + (2 ^ 64 - b mod 2 ^ 64)) mod 2 ^ 64"

definition u64_inc :: "nat \<Rightarrow> nat" where
  "u64_inc a = u64_add a 1"

definition u64_dec :: "nat \<Rightarrow> nat" where
  "u64_dec a = u64_sub a 1"

lemma u64_add_exact [u64_simps]: "a + b \<le> u64_max \<Longrightarrow> u64_add a b = a + b"
  by (simp add: u64_add_def u64_max_def)

lemma u64_inc_exact [u64_simps]: "a < u64_max \<Longrightarrow> u64_inc a = Suc a"
  by (simp add: u64_inc_def u64_add_def u64_max_def)

lemma u64_sub_exact [u64_simps]:
  assumes "b \<le> a" and "a \<le> u64_max"
  shows "u64_sub a b = a - b"
proof -
  have b: "b mod 2 ^ 64 = b" using assms by (simp add: u64_max_def)
  have "a + (2 ^ 64 - b) = (a - b) + 2 ^ 64"
    using assms by (simp add: u64_max_def)
  then have "u64_sub a b = (a - b) mod 2 ^ 64"
    by (simp only: u64_sub_def b mod_add_self2)
  then show ?thesis using assms by (simp add: u64_max_def)
qed

lemma u64_dec_exact [u64_simps]: "0 < a \<Longrightarrow> a \<le> u64_max \<Longrightarrow> u64_dec a = a - 1"
  by (simp add: u64_dec_def u64_sub_exact)

lemma u64_inc_wraps: "u64_inc u64_max = 0"
  by (simp add: u64_inc_def u64_add_def u64_max_def)

lemma u64_dec_wraps: "u64_dec 0 = u64_max"
  by (simp add: u64_dec_def u64_sub_def u64_max_def)

lemma u64_inc_le: "u64_inc a \<le> Suc a"
  by (simp add: u64_inc_def u64_add_def)

lemma u64_inc_limit: "u64_max \<le> a \<Longrightarrow> u64_inc a \<le> a"
  using mod_less_divisor [of "2 ^ 64" "a + 1"] by (simp add: u64_inc_def u64_add_def u64_max_def)

text \<open>Evaluation with the literals written out.\<close>

lemma u64_max_code [code]: "u64_max = 18446744073709551615"
  by (simp add: u64_max_def)

lemma u64_add_code [code]:
  "u64_add a b = (let c = a + b in if c \<le> 18446744073709551615 then c else c mod 18446744073709551616)"
  by (simp add: u64_add_def Let_def)

lemma u64_sub_code [code]:
  "u64_sub a b = (if b \<le> a \<and> a \<le> 18446744073709551615 then a - b
     else (a + (18446744073709551616 - b mod 18446744073709551616)) mod 18446744073709551616)"
  using u64_sub_exact [of b a] by (simp add: u64_sub_def u64_max_def)

lemma u64_add_word: "u64_add (unat (a :: 64 word)) (unat b) = unat (a + b)"
  by (simp add: u64_add_def unat_word_ariths)

lemma u64_sub_word: "u64_sub (unat (a :: 64 word)) (unat b) = unat (a - b)"
proof (cases "b \<le> a")
  case True
  moreover have "unat a \<le> u64_max"
    using unsigned_less [of a, where ?'a = nat] by (simp add: u64_max_def)
  ultimately show ?thesis
    by (simp add: u64_sub_exact unat_sub word_le_nat_alt)
next
  case False
  then have lt: "unat a < unat b" by (simp add: word_le_nat_alt)
  have b: "unat b < 2 ^ 64"
    using unsigned_less [of b, where ?'a = nat] by simp
  have "u64_sub (unat a) (unat b) = unat a + (2 ^ 64 - unat b)"
    using lt b by (simp add: u64_sub_def)
  also have "\<dots> = unat (a - b)"
    using lt b by (simp add: unat_sub_if_size word_size)
  finally show ?thesis .
qed

text \<open>The operations commute with the reading of a number as a 64-bit word.\<close>

lemma word_mod_u64: "(of_nat (x mod 18446744073709551616) :: 64 word) = of_nat x"
  by (rule word_unat_eq_iff [THEN iffD2]) (simp add: unat_of_nat)

lemma word_u64_add: "(of_nat (u64_add a b) :: 64 word) = of_nat a + of_nat b"
  by (simp add: u64_add_def word_mod_u64)

lemma word_u64_sub: "(of_nat (u64_sub a b) :: 64 word) = of_nat a - of_nat b"
proof -
  have le: "b mod 2 ^ 64 \<le> (2 ^ 64 :: nat)" by (meson mod_le_divisor zero_less_numeral zero_less_power)
  have "(of_nat (2 ^ 64 - b mod 2 ^ 64) :: 64 word) = - of_nat b"
    unfolding of_nat_diff [OF le] by (simp add: word_mod_u64)
  then show ?thesis
    by (simp add: u64_sub_def word_mod_u64)
qed

lemma word_u64_inject: "a \<le> u64_max \<Longrightarrow> b \<le> u64_max \<Longrightarrow> (of_nat a :: 64 word) = of_nat b \<longleftrightarrow> a = b"
  by (simp add: word_unat_eq_iff unat_of_nat u64_max_def)

lemma u64_le: "u64_add a b \<le> u64_max" "u64_sub a b \<le> u64_max" "u64_inc a \<le> u64_max" "u64_dec a \<le> u64_max"
  by (simp_all add: u64_add_def u64_sub_def u64_inc_def u64_dec_def u64_max_def less_Suc_eq_le [symmetric])

section \<open>Lists\<close>

lemma nth_eq_take_last: "i < length xs \<Longrightarrow> xs ! i = last (take (Suc i) xs)"
  by (simp add: take_Suc_conv_app_nth)

lemma map_of_keys_eq:
  assumes "distinct (map fst xs)"
  shows "map (\<lambda>p. (fst p, the (map_of xs (fst p)))) xs = xs"
  by (rule map_idI) (use assms in \<open>auto simp: map_of_is_SomeI\<close>)

lemma map_of_keys_inject:
  assumes keys: "map fst xs = map fst ys" and dist: "distinct (map fst ys)"
    and eq: "\<And>k. map_of xs k = map_of ys k"
  shows "xs = ys"
proof -
  have "xs = map (\<lambda>p. (fst p, the (map_of ys (fst p)))) xs"
    using map_of_keys_eq [of xs] keys dist eq by simp
  also have "\<dots> = map (\<lambda>k. (k, the (map_of ys k))) (map fst xs)"
    by simp
  also have "\<dots> = map (\<lambda>p. (fst p, the (map_of ys (fst p)))) ys"
    unfolding keys by simp
  also have "\<dots> = ys"
    using dist by (rule map_of_keys_eq)
  finally show ?thesis .
qed

lemma map_of_filter_keys:
  "map_of (filter (\<lambda>p. P (fst p)) xs) k = (if P k then map_of xs k else None)"
  by (induction xs) auto

lemma all_less_Suc_nth_Cons:
  "(\<forall>j < length (x # xs). P j ((x # xs) ! j)) \<longleftrightarrow> P 0 x \<and> (\<forall>j < length xs. P (Suc j) (xs ! j))"
  by (auto simp: less_Suc_eq_0_disj)

end
