(* ===== verification/Results.thy ===== *)
theory Results
  imports Prelude
begin

text \<open>
  Results and aborts (\<^verbatim>\<open>src/util/result.h\<close>, \<^verbatim>\<open>src/util/condition_check.h\<close>).

  \<open>Result\<close> is the value-or-error type of the repository, with its monadic operations. A
  failed \<^verbatim>\<open>VERIFY\<close> prints a message and calls \<^verbatim>\<open>std::abort\<close>; C++ leaves an
  access outside a vector or a map range undefined. Both end the handler that runs them and
  are values of the type \<open>panic\<close>.

  A handler of a node is a function of type \<open>('s, 'a) exec\<close>: it returns its result or the
  panic that ended it, and the state as it was at that moment, since what a handler wrote to its
  databases before it aborted is what the node finds there after a restart. The predicate
  \<open>keeps R m\<close> says that the states before and after \<open>m\<close> are related by \<open>R\<close>, whether
  \<open>m\<close> returns or panics.
\<close>

section \<open>Result\<close>

datatype ('t, 'e) Result = Ok 't | Err 'e

fun HasValue :: "('t, 'e) Result \<Rightarrow> bool" where
  "HasValue (Ok _) = True"
| "HasValue (Err _) = False"

definition HasError :: "('t, 'e) Result \<Rightarrow> bool" where
  "HasError r = (\<not> HasValue r)"

datatype panic = VerifyFailed string | UndefinedBehaviour string

definition VERIFY :: "bool \<Rightarrow> string \<Rightarrow> (unit, panic) Result" where
  "VERIFY c msg = (if c then Ok () else Err (VerifyFailed msg))"

definition ExpectOk :: "('e \<Rightarrow> string) \<Rightarrow> ('t, 'e) Result \<Rightarrow> (unit, panic) Result" where
  "ExpectOk message r =
     (case r of
        Ok _ \<Rightarrow> VERIFY True ''''
      | Err e \<Rightarrow> VERIFY False (''Result does not hold value: '' @ message e))"

definition ExpectFail :: "('t, 'e) Result \<Rightarrow> (unit, panic) Result" where
  "ExpectFail r = VERIFY (HasError r) ''Result does not hold error''"

fun AndThen :: "('t, 'e) Result \<Rightarrow> ('t \<Rightarrow> ('u, 'e) Result) \<Rightarrow> ('u, 'e) Result" where
  "AndThen (Err e) func = Err e"
| "AndThen (Ok v) func = func v"

fun OrElse :: "('t, 'e) Result \<Rightarrow> ('e \<Rightarrow> ('t, 'f) Result) \<Rightarrow> ('t, 'f) Result" where
  "OrElse (Err e) func = func e"
| "OrElse (Ok v) func = Ok v"

fun Transform :: "('t, 'e) Result \<Rightarrow> ('t \<Rightarrow> 'u) \<Rightarrow> ('u, 'e) Result" where
  "Transform (Err e) transform = Err e"
| "Transform (Ok v) transform = Ok (transform v)"

fun TransformError :: "('t, 'e) Result \<Rightarrow> ('e \<Rightarrow> 'f) \<Rightarrow> ('t, 'f) Result" where
  "TransformError (Err e) transform = Err (transform e)"
| "TransformError (Ok v) transform = Ok v"

definition GetValue :: "('e \<Rightarrow> string) \<Rightarrow> ('t, 'e) Result \<Rightarrow> ('t, panic) Result" where
  "GetValue message r =
     AndThen (ExpectOk message r)
       (\<lambda>_. case r of Ok v \<Rightarrow> Ok v | Err _ \<Rightarrow> Err (UndefinedBehaviour ''std::get''))"

definition GetError :: "('t, 'e) Result \<Rightarrow> ('e, panic) Result" where
  "GetError r =
     AndThen (ExpectFail r)
       (\<lambda>_. case r of Err e \<Rightarrow> Ok e | Ok _ \<Rightarrow> Err (UndefinedBehaviour ''std::get''))"

section \<open>Handlers: a state, a result, a panic\<close>

type_synonym ('s, 'a) exec = "'s \<Rightarrow> ('a, panic) Result \<times> 's"

definition ret :: "'a \<Rightarrow> ('s, 'a) exec" where
  "ret x s = (Ok x, s)"

definition bind :: "('s, 'a) exec \<Rightarrow> ('a \<Rightarrow> ('s, 'b) exec) \<Rightarrow> ('s, 'b) exec" where
  "bind m f s = (case m s of (Ok a, s') \<Rightarrow> f a s' | (Err e, s') \<Rightarrow> (Err e, s'))"

definition gets :: "('s \<Rightarrow> 'a) \<Rightarrow> ('s, 'a) exec" where
  "gets f s = (Ok (f s), s)"

definition modify :: "('s \<Rightarrow> 's) \<Rightarrow> ('s, unit) exec" where
  "modify f s = (Ok (), f s)"

definition lift :: "('a, panic) Result \<Rightarrow> ('s, 'a) exec" where
  "lift r s = (r, s)"

definition verify :: "bool \<Rightarrow> string \<Rightarrow> ('s, unit) exec" where
  "verify c msg = lift (VERIFY c msg)"

definition at :: "'a list \<Rightarrow> nat \<Rightarrow> ('s, 'a) exec" where
  "at xs i = (if i < length xs then ret (xs ! i) else lift (Err (UndefinedBehaviour ''vector index'')))"

primrec for_each :: "'x list \<Rightarrow> ('x \<Rightarrow> ('s, unit) exec) \<Rightarrow> ('s, unit) exec" where
  "for_each [] body = ret ()"
| "for_each (x # xs) body = bind (body x) (\<lambda>_. for_each xs body)"

primrec map_exec :: "'x list \<Rightarrow> ('x \<Rightarrow> ('s, 'b) exec) \<Rightarrow> ('s, 'b list) exec" where
  "map_exec [] body = ret []"
| "map_exec (x # xs) body = bind (body x) (\<lambda>y. bind (map_exec xs body) (\<lambda>ys. ret (y # ys)))"

text \<open>Assignment to an element of a vector held in the state.\<close>

definition set_at :: "('s \<Rightarrow> 'a list) \<Rightarrow> (('a list \<Rightarrow> 'a list) \<Rightarrow> 's \<Rightarrow> 's) \<Rightarrow> nat \<Rightarrow> 'a \<Rightarrow> ('s, unit) exec" where
  "set_at sel upd i x =
     bind (gets sel) (\<lambda>xs. if i < length xs then modify (upd (\<lambda>_. xs[i := x]))
       else lift (Err (UndefinedBehaviour ''vector index'')))"

definition keeps :: "('s \<Rightarrow> 's \<Rightarrow> bool) \<Rightarrow> ('s, 'a) exec \<Rightarrow> bool" where
  "keeps R m \<longleftrightarrow> (\<forall>s. R s (snd (m s)))"

section \<open>Laws\<close>

lemma HasError_simps [simp]: "HasError (Err e)" "\<not> HasError (Ok v)"
  by (simp_all add: HasError_def)

lemma VERIFY_simps [simp]:
  "VERIFY True msg = Ok ()" "VERIFY False msg = Err (VerifyFailed msg)"
  by (simp_all add: VERIFY_def)

lemma GetValue_Ok [simp]: "GetValue message (Ok v) = Ok v"
  by (simp add: GetValue_def ExpectOk_def)

lemma GetValue_Err [simp]:
  "GetValue message (Err e) = Err (VerifyFailed (''Result does not hold value: '' @ message e))"
  by (simp add: GetValue_def ExpectOk_def)

lemma ret_run [exec_simps]: "ret x s = (Ok x, s)"
  by (simp add: ret_def)

lemma gets_run [exec_simps]: "gets f s = (Ok (f s), s)"
  by (simp add: gets_def)

lemma modify_run [exec_simps]: "modify f s = (Ok (), f s)"
  by (simp add: modify_def)

lemma lift_run [exec_simps]: "lift r s = (r, s)"
  by (simp add: lift_def)

lemma bind_run [exec_simps]:
  "bind m f s = (case m s of (Ok a, s') \<Rightarrow> f a s' | (Err e, s') \<Rightarrow> (Err e, s'))"
  by (simp add: bind_def)

lemma verify_run [exec_simps]:
  "verify c msg s = (if c then (Ok (), s) else (Err (VerifyFailed msg), s))"
  by (simp add: verify_def lift_def)

lemma at_run [exec_simps]:
  "at xs i s = (if i < length xs then (Ok (xs ! i), s)
     else (Err (UndefinedBehaviour ''vector index''), s))"
  by (simp add: at_def ret_def lift_def)

lemma set_at_run [exec_simps]:
  "set_at sel upd i x s = (if i < length (sel s) then (Ok (), upd (\<lambda>_. (sel s)[i := x]) s)
     else (Err (UndefinedBehaviour ''vector index''), s))"
  by (simp add: set_at_def bind_run gets_run modify_run lift_run)

lemma map_exec_run:
  assumes "\<And>x. x \<in> set xs \<Longrightarrow> body x s = (Ok (f x), s)"
  shows "map_exec xs body s = (Ok (map f xs), s)"
  using assms by (induction xs) (simp_all add: ret_run bind_run)

lemma bind_OkD:
  assumes "bind m f s = (Ok b, s')"
  obtains a s1 where "m s = (Ok a, s1)" and "f a s1 = (Ok b, s')"
  using assms by (auto simp: bind_def split: prod.splits Result.splits)

lemma bind_Ok: "m s = (Ok a, s') \<Longrightarrow> bind m f s = f a s'"
  by (simp add: bind_def)

lemma bind_Err: "m s = (Err e, s') \<Longrightarrow> bind m f s = (Err e, s')"
  by (simp add: bind_def)

lemma bind_assoc: "bind (bind m f) g = bind m (\<lambda>x. bind (f x) g)"
  by (rule ext) (simp add: bind_def split: prod.splits Result.splits)

lemma bind_if: "bind (if b then m else m') f = (if b then bind m f else bind m' f)"
  by simp

lemma bind_ret: "bind (ret x) f = f x"
  by (simp add: fun_eq_iff bind_run ret_run)

lemma for_each_append:
  "for_each (xs @ ys) body = bind (for_each xs body) (\<lambda>_. for_each ys body)"
proof (induction xs)
  case Nil
  show ?case by (rule ext) (simp add: bind_def ret_def)
next
  case (Cons x xs)
  then show ?case by (simp add: bind_assoc)
qed

section \<open>Preservation\<close>

lemma keepsD: "keeps R m \<Longrightarrow> m s = (r, s') \<Longrightarrow> R s s'"
  by (metis keeps_def snd_conv)

lemma keeps_ret [keeps_intros]: "reflp R \<Longrightarrow> keeps R (ret x)"
  by (simp add: keeps_def ret_def reflpD)

lemma keeps_gets [keeps_intros]: "reflp R \<Longrightarrow> keeps R (gets f)"
  by (simp add: keeps_def gets_def reflpD)

lemma keeps_lift [keeps_intros]: "reflp R \<Longrightarrow> keeps R (lift r)"
  by (simp add: keeps_def lift_def reflpD)

lemma keeps_verify [keeps_intros]: "reflp R \<Longrightarrow> keeps R (verify c msg)"
  by (simp add: verify_def keeps_lift)

lemma keeps_at [keeps_intros]: "reflp R \<Longrightarrow> keeps R (at xs i)"
  by (simp add: at_def keeps_lift keeps_ret)

lemma keeps_modify: "(\<And>s. R s (f s)) \<Longrightarrow> keeps R (modify f)"
  by (simp add: keeps_def modify_def)

lemma keeps_bind [keeps_intros]:
  assumes "transp R" and "keeps R m" and "\<And>a. keeps R (f a)"
  shows "keeps R (bind m f)"
  unfolding keeps_def
proof
  fix s
  obtain r s1 where m: "m s = (r, s1)" by (cases "m s")
  show "R s (snd (bind m f s))"
  proof (cases r)
    case (Ok a)
    have "R s s1" by (rule keepsD [OF assms(2) m])
    moreover have "R s1 (snd (f a s1))" using assms(3) by (simp add: keeps_def)
    ultimately show ?thesis
      using assms(1) Ok m by (auto simp: bind_def dest: transpD)
  next
    case (Err e)
    then show ?thesis using keepsD [OF assms(2) m] m by (simp add: bind_def)
  qed
qed

lemma keeps_if [keeps_intros]:
  "(c \<Longrightarrow> keeps R m) \<Longrightarrow> (\<not> c \<Longrightarrow> keeps R m') \<Longrightarrow> keeps R (if c then m else m')"
  by simp

lemma keeps_option [keeps_intros]:
  "(x = None \<Longrightarrow> keeps R m) \<Longrightarrow> (\<And>a. x = Some a \<Longrightarrow> keeps R (f a)) \<Longrightarrow>
   keeps R (case x of None \<Rightarrow> m | Some a \<Rightarrow> f a)"
  by (cases x) simp_all

lemma keeps_for_each [keeps_intros]:
  assumes "reflp R" and "transp R" and "\<And>x. x \<in> set xs \<Longrightarrow> keeps R (body x)"
  shows "keeps R (for_each xs body)"
  using assms(3) by (induction xs) (auto intro!: keeps_ret keeps_bind assms(1,2))

end
