(* ===== verification/Databases.thy ===== *)
theory Databases
  imports Results
begin

text \<open>
  The database of the simulated runtime (\<^verbatim>\<open>src/runtime/database.h\<close>,
  \<^verbatim>\<open>src/runtime/simulator/database.h\<close> and \<^verbatim>\<open>database.cpp\<close>).

  A \<^verbatim>\<open>std::map\<close> with a comparator is an association list in the order of the comparator;
  \<open>lt a b\<close> is the comparator's \<^verbatim>\<open>Compare(a, b) < 0\<close>, and two keys are the same key
  when neither is less. The operations of \<^verbatim>\<open>Database\<close>, its write batches and its
  iterators are functions on that list; the key and value types are parameters, so that the same
  definitions serve the byte strings of the database and the typed view of the theory KV.

  \<^verbatim>\<open>StopFiberIfNecessary\<close>, which blocks a fiber of a paused or killed host, does not
  change the database and is part of the theory Simulator.

  The locale \<open>ordered_store\<close> states what a client may rely on: what a lookup returns after
  each operation, and that the order of the keys is kept. It is interpreted on the operations
  below at the end of the theory.
\<close>

section \<open>Errors\<close>

datatype DBErrorType = Internal | InvalidArgument | NotFound

record DBError =
  error_type :: DBErrorType
  status_message :: string

definition mk_DBError :: "DBErrorType \<Rightarrow> string \<Rightarrow> DBError" where
  "mk_DBError t message = \<lparr>error_type = t, status_message = message\<rparr>"

definition DBError_Message :: "DBError \<Rightarrow> string" where
  "DBError_Message e =
     (let result = (case error_type e of
          Internal \<Rightarrow> ''Internal''
        | NotFound \<Rightarrow> ''NotFound''
        | InvalidArgument \<Rightarrow> ''InvalidArgument'')
      in if status_message e \<noteq> '''' then result @ '': '' @ status_message e else result)"

section \<open>std::map with a comparator\<close>

type_synonym ('k, 'v) omap = "('k \<times> 'v) list"

fun om_assign :: "('k \<Rightarrow> 'k \<Rightarrow> bool) \<Rightarrow> 'k \<Rightarrow> 'v \<Rightarrow> ('k, 'v) omap \<Rightarrow> ('k, 'v) omap" where
  "om_assign lt k v [] = [(k, v)]"
| "om_assign lt k v ((a, b) # m) =
     (if lt a k then (a, b) # om_assign lt k v m
      else if lt k a then (k, v) # (a, b) # m
      else (a, v) # m)"

fun om_find :: "('k \<Rightarrow> 'k \<Rightarrow> bool) \<Rightarrow> 'k \<Rightarrow> ('k, 'v) omap \<Rightarrow> 'v option" where
  "om_find lt k [] = None"
| "om_find lt k ((a, b) # m) =
     (if lt a k then om_find lt k m else if lt k a then None else Some b)"

fun om_erase :: "('k \<Rightarrow> 'k \<Rightarrow> bool) \<Rightarrow> 'k \<Rightarrow> ('k, 'v) omap \<Rightarrow> ('k, 'v) omap" where
  "om_erase lt k [] = []"
| "om_erase lt k ((a, b) # m) =
     (if lt a k then (a, b) # om_erase lt k m else if lt k a then (a, b) # m else m)"

fun om_lower_bound :: "('k \<Rightarrow> 'k \<Rightarrow> bool) \<Rightarrow> 'k \<Rightarrow> ('k, 'v) omap \<Rightarrow> nat" where
  "om_lower_bound lt k [] = 0"
| "om_lower_bound lt k ((a, b) # m) = (if lt a k then Suc (om_lower_bound lt k m) else 0)"

section \<open>HostDatabase, Database\<close>

record ('k, 'v) HostDatabase =
  comparator_name :: string
  data :: "('k, 'v) omap"
  epoch :: nat

definition Database_Put ::
  "('k \<Rightarrow> 'k \<Rightarrow> bool) \<Rightarrow> 'k \<Rightarrow> 'v \<Rightarrow> ('k, 'v) omap \<Rightarrow> (unit, DBError) Result \<times> ('k, 'v) omap" where
  "Database_Put lt key val m = (Ok (), om_assign lt key val m)"

definition Database_Get ::
  "('k \<Rightarrow> 'k \<Rightarrow> bool) \<Rightarrow> 'k \<Rightarrow> ('k, 'v) omap \<Rightarrow> ('v, DBError) Result" where
  "Database_Get lt key m =
     (case om_find lt key m of
        None \<Rightarrow> Err (mk_DBError NotFound '''')
      | Some v \<Rightarrow> Ok v)"

definition Database_DeleteRange ::
  "('k \<Rightarrow> 'k \<Rightarrow> bool) \<Rightarrow> 'k \<Rightarrow> 'k \<Rightarrow> (('k, 'v) omap, (unit, DBError) Result) exec" where
  "Database_DeleteRange lt start_key end_key m =
     (let start_it = om_lower_bound lt start_key m in
      if start_it = length m then (Ok (Ok ()), m)
      else let end_it = om_lower_bound lt end_key m in
        if end_it < start_it then (Err (UndefinedBehaviour ''std::map::erase of an inverted range''), m)
        else (Ok (Ok ()), take start_it m @ drop end_it m))"

definition Database_Delete ::
  "('k \<Rightarrow> 'k \<Rightarrow> bool) \<Rightarrow> 'k \<Rightarrow> ('k, 'v) omap \<Rightarrow> (unit, DBError) Result \<times> ('k, 'v) omap" where
  "Database_Delete lt key m = (Ok (), om_erase lt key m)"

datatype ('k, 'v) WriteBatchCmd = PutCmd 'k 'v | DeleteRangeCmd 'k 'k | DeleteCmd 'k

type_synonym ('k, 'v) WriteBatch = "('k, 'v) WriteBatchCmd list"

definition MakeWriteBatch :: "('k, 'v) WriteBatch" where
  "MakeWriteBatch = []"

definition WriteBatch_Put :: "'k \<Rightarrow> 'v \<Rightarrow> ('k, 'v) WriteBatch \<Rightarrow> ('k, 'v) WriteBatch" where
  "WriteBatch_Put key val commands = commands @ [PutCmd key val]"

definition WriteBatch_DeleteRange :: "'k \<Rightarrow> 'k \<Rightarrow> ('k, 'v) WriteBatch \<Rightarrow> ('k, 'v) WriteBatch" where
  "WriteBatch_DeleteRange start_key end_key commands = commands @ [DeleteRangeCmd start_key end_key]"

definition WriteBatch_Delete :: "'k \<Rightarrow> ('k, 'v) WriteBatch \<Rightarrow> ('k, 'v) WriteBatch" where
  "WriteBatch_Delete key commands = commands @ [DeleteCmd key]"

fun Write_cmd ::
  "('k \<Rightarrow> 'k \<Rightarrow> bool) \<Rightarrow> ('k, 'v) WriteBatchCmd \<Rightarrow> (('k, 'v) omap, unit) exec" where
  "Write_cmd lt (PutCmd key val) m =
     (let (r, m') = Database_Put lt key val m in (ExpectOk DBError_Message r, m'))"
| "Write_cmd lt (DeleteRangeCmd start_key end_key) m =
     bind (Database_DeleteRange lt start_key end_key) (\<lambda>r. lift (ExpectOk DBError_Message r)) m"
| "Write_cmd lt (DeleteCmd key) m =
     (let (r, m') = Database_Delete lt key m in (ExpectOk DBError_Message r, m'))"

definition Database_Write ::
  "('k \<Rightarrow> 'k \<Rightarrow> bool) \<Rightarrow> ('k, 'v) WriteBatch \<Rightarrow> (('k, 'v) omap, (unit, DBError) Result) exec" where
  "Database_Write lt commands = bind (for_each commands (Write_cmd lt)) (\<lambda>_. ret (Ok ()))"

section \<open>Opening a database\<close>

record Options =
  comparator :: string
  create_if_missing :: bool

text \<open>
  The databases of a host are kept across restarts; the fiber that opens one carries the epoch of
  the host at its start. The handle returned is the path of the database.
\<close>

definition Database_Open ::
  "string \<Rightarrow> Options \<Rightarrow> nat \<Rightarrow>
   ((string \<rightharpoonup> ('k, 'v) HostDatabase), (string, DBError) Result) exec" where
  "Database_Open path options current_epoch databases =
     (case databases path of
        None \<Rightarrow>
          if create_if_missing options = False
          then (Ok (Err (mk_DBError InvalidArgument ''database is missing'')), databases)
          else (Ok (Ok path),
            databases(path \<mapsto> \<lparr>comparator_name = comparator options, data = [],
                               epoch = current_epoch\<rparr>))
      | Some db \<Rightarrow>
          if \<not> epoch db \<le> current_epoch
          then (Err (VerifyFailed ''invalid state''), databases)
          else if epoch db = current_epoch
          then (Ok (Err (mk_DBError Internal ''database is opened twice'')), databases)
          else let databases' = databases(path \<mapsto> db\<lparr>epoch := current_epoch\<rparr>) in
            if comparator options \<noteq> comparator_name db
            then (Ok (Err (mk_DBError InvalidArgument
                   (''comparator names does not match: '' @ comparator_name db @ '' != '' @
                    comparator options))), databases')
            else (Ok (Ok path), databases'))"

section \<open>Iterators\<close>

text \<open>
  An iterator holds a copy of the data. The constructor assigns \<^verbatim>\<open>storage.end()\<close> of
  its moved-from parameter, which hides the member of the same name: until the first seek the
  position does not belong to the copy, and looking at it is undefined.
\<close>

datatype position = Singular | Pos nat

record ('k, 'v) Iterator =
  storage :: "('k, 'v) omap"
  iterator :: position

definition NewIterator :: "('k, 'v) omap \<Rightarrow> ('k, 'v) Iterator" where
  "NewIterator m = \<lparr>storage = m, iterator = Singular\<rparr>"

definition SeekToLast :: "('k, 'v) Iterator \<Rightarrow> ('k, 'v) Iterator" where
  "SeekToLast it =
     (let end_it = length (storage it) in
      if storage it \<noteq> [] then it\<lparr>iterator := Pos (end_it - 1)\<rparr> else it\<lparr>iterator := Pos end_it\<rparr>)"

definition SeekToFirst :: "('k, 'v) Iterator \<Rightarrow> ('k, 'v) Iterator" where
  "SeekToFirst it = it\<lparr>iterator := Pos 0\<rparr>"

definition Valid :: "('k, 'v) Iterator \<Rightarrow> (bool, panic) Result" where
  "Valid it =
     (case iterator it of
        Singular \<Rightarrow> Err (UndefinedBehaviour ''comparison of a singular iterator'')
      | Pos p \<Rightarrow> Ok (p \<noteq> length (storage it)))"

definition EnsureIteratorIsValid :: "('k, 'v) Iterator \<Rightarrow> (unit, panic) Result" where
  "EnsureIteratorIsValid it = AndThen (Valid it) (\<lambda>v. VERIFY v ''iterator is invalid'')"

definition pos_of :: "('k, 'v) Iterator \<Rightarrow> nat" where
  "pos_of it = (case iterator it of Singular \<Rightarrow> length (storage it) | Pos p \<Rightarrow> p)"

definition Next :: "('k, 'v) Iterator \<Rightarrow> (('k, 'v) Iterator, panic) Result" where
  "Next it = AndThen (EnsureIteratorIsValid it) (\<lambda>_. Ok (it\<lparr>iterator := Pos (Suc (pos_of it))\<rparr>))"

definition Prev :: "('k, 'v) Iterator \<Rightarrow> (('k, 'v) Iterator, panic) Result" where
  "Prev it = AndThen (EnsureIteratorIsValid it)
     (\<lambda>_. if pos_of it = 0 then Ok (it\<lparr>iterator := Pos (length (storage it))\<rparr>)
          else Ok (it\<lparr>iterator := Pos (pos_of it - 1)\<rparr>))"

definition GetKey :: "('k, 'v) Iterator \<Rightarrow> ('k, panic) Result" where
  "GetKey it = AndThen (EnsureIteratorIsValid it) (\<lambda>_. Ok (fst (storage it ! pos_of it)))"

definition IterValue :: "('k, 'v) Iterator \<Rightarrow> ('v, panic) Result" where
  "IterValue it = AndThen (EnsureIteratorIsValid it) (\<lambda>_. Ok (snd (storage it ! pos_of it)))"


section \<open>The last entry\<close>

lemma Valid_SeekToLast [simp]: "Valid (SeekToLast (NewIterator m)) = Ok (m \<noteq> [])"
  by (cases m) (simp_all add: Valid_def SeekToLast_def NewIterator_def Let_def)

lemma GetKey_SeekToLast [simp]:
  "m \<noteq> [] \<Longrightarrow> GetKey (SeekToLast (NewIterator m)) = Ok (fst (last m))"
  using Valid_SeekToLast [of m]
  by (simp add: GetKey_def EnsureIteratorIsValid_def pos_of_def SeekToLast_def NewIterator_def
      last_conv_nth)

lemma IterValue_SeekToLast [simp]:
  "m \<noteq> [] \<Longrightarrow> IterValue (SeekToLast (NewIterator m)) = Ok (snd (last m))"
  using Valid_SeekToLast [of m]
  by (simp add: IterValue_def EnsureIteratorIsValid_def pos_of_def SeekToLast_def NewIterator_def
      last_conv_nth)

section \<open>The map on a linear order\<close>

definition keys_ordered :: "('k :: linorder, 'v) omap \<Rightarrow> bool" where
  "keys_ordered m \<longleftrightarrow> sorted_wrt (<) (map fst m)"

text \<open>The effect of \<^verbatim>\<open>DeleteRange\<close> where the range is not inverted.\<close>

definition om_cut :: "'k :: linorder \<Rightarrow> 'k \<Rightarrow> ('k, 'v) omap \<Rightarrow> ('k, 'v) omap" where
  "om_cut start_key end_key m = snd (Database_DeleteRange (<) start_key end_key m)"

lemma om_find_assign:
  "om_find (<) k' (om_assign (<) k v m) = (if k' = k then Some v else om_find (<) k' m)"
  for k :: "'k :: linorder"
  by (induction m) auto

lemma fst_set_om_assign: "fst ` set (om_assign (<) k v m) = insert k (fst ` set m)"
  for k :: "'k :: linorder"
proof (induction m)
  case Nil
  show ?case by simp
next
  case (Cons x m)
  obtain a b where x: "x = (a, b)" by (cases x)
  from Cons.IH show ?case
    by (cases rule: linorder_cases [of a k]) (simp_all add: x insert_commute)
qed

lemma keys_ordered_Cons:
  "keys_ordered ((a, b) # m) \<longleftrightarrow> (\<forall>k \<in> fst ` set m. a < k) \<and> keys_ordered m"
  by (simp add: keys_ordered_def)

lemma keys_ordered_Nil [simp]: "keys_ordered []"
  by (simp add: keys_ordered_def)

lemma keys_ordered_assign: "keys_ordered m \<Longrightarrow> keys_ordered (om_assign (<) k v m)"
proof (induction m)
  case Nil
  show ?case by (simp add: keys_ordered_def)
next
  case (Cons x m)
  obtain a b where x: "x = (a, b)" by (cases x)
  from Cons show ?case
    by (cases rule: linorder_cases [of a k])
       (auto simp: x keys_ordered_Cons fst_set_om_assign dest: less_trans)
qed

lemma om_find_None: "\<forall>a \<in> fst ` set m. k < a \<Longrightarrow> om_find (<) k m = None"
  for k :: "'k :: linorder"
  by (cases m) auto

lemma om_find_map_of: "keys_ordered m \<Longrightarrow> om_find (<) k m = map_of m k"
proof (induction m)
  case Nil
  then show ?case by simp
next
  case (Cons x m)
  obtain a b where x: "x = (a, b)" by (cases x)
  have "map_of m k = None" if "k < a"
    using Cons.prems that by (auto simp: keys_ordered_Cons x map_of_eq_None_iff)
  with Cons show ?case by (auto simp: x keys_ordered_Cons)
qed

lemma om_erase_filter:
  "keys_ordered m \<Longrightarrow> om_erase (<) k m = filter (\<lambda>p. fst p \<noteq> k) m"
proof (induction m)
  case Nil
  then show ?case by simp
next
  case (Cons x m)
  obtain a b where x: "x = (a, b)" by (cases x)
  have "filter (\<lambda>p. fst p \<noteq> k) m = m" if "k \<le> a"
    using Cons.prems that by (auto simp: keys_ordered_Cons x filter_id_conv)
  with Cons show ?case by (auto simp: x keys_ordered_Cons)
qed

lemma take_lower_bound:
  "keys_ordered m \<Longrightarrow> take (om_lower_bound (<) k m) m = filter (\<lambda>p. fst p < k) m"
proof (induction m)
  case Nil
  then show ?case by simp
next
  case (Cons x m)
  obtain a b where x: "x = (a, b)" by (cases x)
  have "filter (\<lambda>p. fst p < k) m = []" if "\<not> a < k"
    using Cons.prems that by (force simp: keys_ordered_Cons x filter_empty_conv)
  with Cons show ?case by (auto simp: x keys_ordered_Cons)
qed

lemma drop_lower_bound:
  "keys_ordered m \<Longrightarrow> drop (om_lower_bound (<) k m) m = filter (\<lambda>p. k \<le> fst p) m"
proof (induction m)
  case Nil
  then show ?case by simp
next
  case (Cons x m)
  obtain a b where x: "x = (a, b)" by (cases x)
  have "filter (\<lambda>p. k \<le> fst p) m = m" if "\<not> a < k"
    using Cons.prems that by (force simp: keys_ordered_Cons x filter_id_conv)
  with Cons show ?case by (auto simp: x keys_ordered_Cons)
qed

lemma lower_bound_mono:
  "k \<le> k' \<Longrightarrow> om_lower_bound (<) k m \<le> om_lower_bound (<) k' m" for k :: "'k :: linorder"
  by (induction m) auto

lemma lower_bound_le: "om_lower_bound lt k m \<le> length m"
  by (induction m) auto

lemma Database_DeleteRange_ok:
  assumes "s \<le> (e :: 'k :: linorder)"
  shows "Database_DeleteRange (<) s e m = (Ok (Ok ()), om_cut s e m)"
  using lower_bound_mono [OF assms, of m]
  by (simp add: om_cut_def Database_DeleteRange_def Let_def)

lemma om_cut_filter:
  assumes "keys_ordered m" and "s \<le> e"
  shows "om_cut s e m = filter (\<lambda>p. \<not> (s \<le> fst p \<and> fst p < e)) m"
proof -
  let ?i = "om_lower_bound (<) s m" and ?j = "om_lower_bound (<) e m"
  have le: "?i \<le> ?j" using assms(2) by (rule lower_bound_mono)
  have cut: "om_cut s e m = take ?i m @ drop ?j m"
    using le lower_bound_le [of "(<)" e m]
    by (auto simp: om_cut_def Database_DeleteRange_def Let_def)
  have "filter (\<lambda>p. \<not> (s \<le> fst p \<and> fst p < e)) (take ?i m) = take ?i m"
    by (simp add: take_lower_bound [OF assms(1)]) (rule filter_cong [OF refl], auto)
  moreover have "filter (\<lambda>p. \<not> (s \<le> fst p \<and> fst p < e)) (drop ?i m) = drop ?j m"
    using assms(2)
    by (auto simp: drop_lower_bound [OF assms(1)] not_less intro!: filter_cong)
  moreover have "filter P m = filter P (take ?i m) @ filter P (drop ?i m)" for P
    by (simp flip: filter_append)
  ultimately show ?thesis
    by (simp only: cut)
qed

lemma keys_ordered_filter: "keys_ordered m \<Longrightarrow> keys_ordered (filter P m)"
  by (induction m) (auto simp: keys_ordered_def)

section \<open>What a client may rely on\<close>

locale ordered_store =
  fixes put :: "'k :: linorder \<Rightarrow> 'v \<Rightarrow> 'm \<Rightarrow> 'm"
    and get :: "'k \<Rightarrow> 'm \<Rightarrow> 'v option"
    and erase :: "'k \<Rightarrow> 'm \<Rightarrow> 'm"
    and cut :: "'k \<Rightarrow> 'k \<Rightarrow> 'm \<Rightarrow> 'm"
    and entries :: "'m \<Rightarrow> ('k \<times> 'v) list"
    and invar :: "'m \<Rightarrow> bool"
  assumes get_put: "invar m \<Longrightarrow> get k' (put k v m) = (if k' = k then Some v else get k' m)"
    and get_erase: "invar m \<Longrightarrow> get k' (erase k m) = (if k' = k then None else get k' m)"
    and get_cut: "invar m \<Longrightarrow> s \<le> e \<Longrightarrow>
          get k (cut s e m) = (if s \<le> k \<and> k < e then None else get k m)"
    and invar_put: "invar m \<Longrightarrow> invar (put k v m)"
    and invar_erase: "invar m \<Longrightarrow> invar (erase k m)"
    and invar_cut: "invar m \<Longrightarrow> s \<le> e \<Longrightarrow> invar (cut s e m)"
    and entries_sorted: "invar m \<Longrightarrow> sorted_wrt (<) (map fst (entries m))"
    and entries_get: "invar m \<Longrightarrow> map_of (entries m) k = get k m"
begin

lemma keys_entries: "invar m \<Longrightarrow> set (map fst (entries m)) = {k. get k m \<noteq> None}"
  by (simp flip: entries_get add: map_of_eq_None_iff)

text \<open>Two stores with the same lookups have the same entries in the same order.\<close>

lemma entries_eqI:
  assumes "invar m" and "sorted_wrt (<) (map fst ps)" and "\<And>k. get k m = map_of ps k"
  shows "entries m = ps"
proof -
  have "set (map fst (entries m)) = set (map fst ps)"
    using keys_entries [OF assms(1)] assms(3) by (force simp: map_of_eq_None_iff)
  with entries_sorted [OF assms(1)] assms(2) have keys: "map fst (entries m) = map fst ps"
    by (intro strict_sorted_equal)
  moreover have "distinct (map fst ps)"
    using assms(2) by (simp add: strict_sorted_iff)
  ultimately show ?thesis
    using entries_get [OF assms(1)] assms(3)
    by (intro map_of_keys_inject) auto
qed

end

text \<open>
  A log is a store whose keys are \<open>1, 2, \<dots>, n\<close>: the shape both consensus nodes keep
  their \<^verbatim>\<open>raft_log\<close> in.
\<close>

definition is_log :: "(nat \<times> 'v) list \<Rightarrow> bool" where
  "is_log ps \<longleftrightarrow> map fst ps = [1..<Suc (length ps)]"

lemma is_log_Nil [simp]: "is_log []"
  by (simp add: is_log_def)

lemma is_log_append: "is_log ps \<Longrightarrow> is_log (ps @ [(Suc (length ps), v)])"
  by (simp add: is_log_def)

lemma is_log_take: "is_log ps \<Longrightarrow> is_log (take k ps)"
  by (simp add: is_log_def take_map take_upt min_def flip: take_map)

lemma is_log_sorted: "is_log ps \<Longrightarrow> sorted_wrt (<) (map fst ps)"
  by (simp only: is_log_def sorted_wrt_upt)

lemma is_log_nth:
  assumes "is_log ps" and "i < length ps"
  shows "fst (ps ! i) = Suc i"
proof -
  have "fst (ps ! i) = map fst ps ! i" using assms(2) by simp
  also have "\<dots> = [1..<Suc (length ps)] ! i" using assms(1) by (simp only: is_log_def)
  also have "\<dots> = Suc i" using assms(2) by (subst nth_upt) simp_all
  finally show ?thesis .
qed

lemma is_log_map_of:
  assumes "is_log ps"
  shows "map_of ps i = (if 1 \<le> i \<and> i \<le> length ps then Some (snd (ps ! (i - 1))) else None)"
proof (cases "1 \<le> i \<and> i \<le> length ps")
  case True
  have "distinct (map fst ps)" using assms by (simp add: is_log_def)
  moreover have "ps ! (i - 1) = (i, snd (ps ! (i - 1)))"
    using True is_log_nth [OF assms, of "i - 1"] by (auto simp: prod_eq_iff)
  then have "(i, snd (ps ! (i - 1))) \<in> set ps"
    using True by (metis Suc_diff_1 Suc_le_eq less_eq_Suc_le nth_mem One_nat_def)
  ultimately show ?thesis using True by (simp add: map_of_is_SomeI)
next
  case False
  have "set (map fst ps) = {1..<Suc (length ps)}"
    using assms by (simp only: is_log_def set_upt)
  with False have "i \<notin> fst ` set ps" by auto
  with False show ?thesis by (auto simp: map_of_eq_None_iff)
qed

locale log_store = ordered_store put get erase cut entries invar
  for put :: "nat \<Rightarrow> 'v \<Rightarrow> 'm \<Rightarrow> 'm"
    and get :: "nat \<Rightarrow> 'm \<Rightarrow> 'v option"
    and erase :: "nat \<Rightarrow> 'm \<Rightarrow> 'm"
    and cut :: "nat \<Rightarrow> nat \<Rightarrow> 'm \<Rightarrow> 'm"
    and entries :: "'m \<Rightarrow> (nat \<times> 'v) list"
    and invar :: "'m \<Rightarrow> bool"
begin

lemma log_get:
  assumes "invar m" and "is_log (entries m)"
  shows "get i m =
     (if 1 \<le> i \<and> i \<le> length (entries m) then Some (snd (entries m ! (i - 1))) else None)"
  using entries_get [OF assms(1), of i] is_log_map_of [OF assms(2), of i] by simp

lemma log_put:
  assumes "invar m" and "is_log (entries m)"
  shows "entries (put (Suc (length (entries m))) v m) = entries m @ [(Suc (length (entries m)), v)]"
proof (rule entries_eqI)
  show "invar (put (Suc (length (entries m))) v m)" using assms(1) by (rule invar_put)
  show "sorted_wrt (<) (map fst (entries m @ [(Suc (length (entries m)), v)]))"
    by (rule is_log_sorted, rule is_log_append, rule assms(2))
  fix k
  have new: "is_log (entries m @ [(Suc (length (entries m)), v)])"
    by (rule is_log_append, rule assms(2))
  show "get k (put (Suc (length (entries m))) v m) = map_of (entries m @ [(Suc (length (entries m)), v)]) k"
    unfolding get_put [OF assms(1)] is_log_map_of [OF new] log_get [OF assms]
    by (auto simp: nth_append le_Suc_eq Suc_le_eq)
qed

lemma log_cut:
  assumes "invar m" and "is_log (entries m)" and "k \<le> length (entries m)"
    and "length (entries m) < e"
  shows "entries (cut (Suc k) e m) = take k (entries m)"
proof (rule entries_eqI)
  have le: "Suc k \<le> e" using assms(3,4) by simp
  show "invar (cut (Suc k) e m)" using assms(1) le by (rule invar_cut)
  show "sorted_wrt (<) (map fst (take k (entries m)))"
    by (rule is_log_sorted, rule is_log_take, rule assms(2))
  fix i
  have new: "is_log (take k (entries m))"
    by (rule is_log_take, rule assms(2))
  show "get i (cut (Suc k) e m) = map_of (take k (entries m)) i"
    unfolding get_cut [OF assms(1) le] is_log_map_of [OF new] log_get [OF assms(1,2)]
    using assms(3,4) by (auto simp: min_def)
qed

end

interpretation om: ordered_store "om_assign (<)" "om_find (<)" "om_erase (<)" om_cut "\<lambda>m. m" keys_ordered
proof unfold_locales
  fix m :: "('k :: linorder, 'v) omap" and k k' s e :: 'k and v :: 'v
  assume m: "keys_ordered m"
  show "om_find (<) k' (om_assign (<) k v m) = (if k' = k then Some v else om_find (<) k' m)"
    by (rule om_find_assign)
  show "keys_ordered (om_assign (<) k v m)"
    using m by (rule keys_ordered_assign)
  show er: "keys_ordered (om_erase (<) k m)"
    using m by (simp add: om_erase_filter keys_ordered_filter)
  show "om_find (<) k' (om_erase (<) k m) = (if k' = k then None else om_find (<) k' m)"
    unfolding om_find_map_of [OF er] om_find_map_of [OF m]
    by (simp add: om_erase_filter [OF m] map_of_filter_keys [of "\<lambda>x. x \<noteq> k"])
  show "sorted_wrt (<) (map fst m)"
    using m by (simp add: keys_ordered_def)
  show "map_of m k = om_find (<) k m"
    using m by (simp add: om_find_map_of)
  assume le: "s \<le> e"
  show cut: "keys_ordered (om_cut s e m)"
    using m le by (simp add: om_cut_filter keys_ordered_filter)
  show "om_find (<) k (om_cut s e m) = (if s \<le> k \<and> k < e then None else om_find (<) k m)"
    unfolding om_find_map_of [OF cut] om_find_map_of [OF m]
    by (simp add: om_cut_filter [OF m le] map_of_filter_keys [of "\<lambda>x. \<not> (s \<le> x \<and> x < e)", simplified])
qed

interpretation oml: log_store "om_assign (<)" "om_find (<)" "om_erase (<)" om_cut "\<lambda>m. m" keys_ordered
  by unfold_locales

end
