(* ===== verification/KV.thy ===== *)
theory KV
  imports Databases "HOL-Library.Char_ord" "HOL-Library.List_Lexorder"
begin

text \<open>
  The typed key-value storage over a database of byte strings
  (\<^verbatim>\<open>src/runtime/kv_storage.h\<close>, \<^verbatim>\<open>src/runtime/util/serde/\<close>).

  A \<^verbatim>\<open>KVStorage\<close> serialises keys and values, and gives the database a comparator that
  deserialises both keys and compares them. The locale \<open>kv_codec\<close> assumes only that
  deserialising undoes serialising on valid values; from that its lemmas show that every
  operation on the bytes is the same operation of the database on the typed map with the order
  of the keys: the byte level simulates the typed level, without ever panicking. The typed
  operations \<open>kv_Put\<close>, \<open>kv_Get\<close>, \<dots> are what the nodes and the queue service use.

  Protobuf messages are serialised by a library that is not part of the repository; its two
  functions are parameters of \<open>ProtobufSerde\<close>.
\<close>

section \<open>Serialisation\<close>

type_synonym Data = "8 word list"

record 't Serde =
  Serialize :: "'t \<Rightarrow> (Data, panic) Result"
  Deserialize :: "Data \<Rightarrow> ('t, panic) Result"

text \<open>The bytes of an unsigned integer in memory, least significant first.\<close>

primrec le_bytes :: "nat \<Rightarrow> nat \<Rightarrow> Data" where
  "le_bytes 0 n = []"
| "le_bytes (Suc k) n = word_of_nat (n mod 256) # le_bytes k (n div 256)"

primrec le_value :: "Data \<Rightarrow> nat" where
  "le_value [] = 0"
| "le_value (b # bs) = unat b + 256 * le_value bs"

definition U64Serde :: "nat Serde" where
  "U64Serde =
     \<lparr>Serialize = (\<lambda>v. Ok (le_bytes 8 v)),
      Deserialize = (\<lambda>d. AndThen (VERIFY (length d = 8) ''invalid data size'') (\<lambda>_. Ok (le_value d)))\<rparr>"

definition StringSerde :: "string Serde" where
  "StringSerde =
     \<lparr>Serialize = (\<lambda>v. Ok (map (\<lambda>c. word_of_nat (of_char c)) v)),
      Deserialize = (\<lambda>d. Ok (map (\<lambda>b. char_of (unat b)) d))\<rparr>"

definition ProtobufSerde :: "('t \<Rightarrow> Data option) \<Rightarrow> (Data \<Rightarrow> 't option) \<Rightarrow> 't Serde" where
  "ProtobufSerde SerializeToArray ParseFromArray =
     \<lparr>Serialize = (\<lambda>v. case SerializeToArray v of
          None \<Rightarrow> Err (VerifyFailed ''serialization error'') | Some d \<Rightarrow> Ok d),
      Deserialize = (\<lambda>d. case ParseFromArray d of
          None \<Rightarrow> Err (VerifyFailed ''deserialization error'') | Some v \<Rightarrow> Ok v)\<rparr>"

section \<open>KVStorage over bytes\<close>

definition Compare :: "('k :: linorder) Serde \<Rightarrow> Data \<Rightarrow> Data \<Rightarrow> (int, panic) Result" where
  "Compare key_serde a b =
     AndThen (Deserialize key_serde a) (\<lambda>a_des.
     AndThen (Deserialize key_serde b) (\<lambda>b_des.
       if a_des < b_des then Ok (- 1) else if b_des < a_des then Ok 1 else Ok 0))"

text \<open>The order of the underlying map; a key that does not deserialise aborts in the source.\<close>

definition data_less :: "('k :: linorder) Serde \<Rightarrow> Data \<Rightarrow> Data \<Rightarrow> bool" where
  "data_less key_serde a b = (case Compare key_serde a b of Ok c \<Rightarrow> c < 0 | Err _ \<Rightarrow> False)"

type_synonym storage = "(Data, Data) omap"

definition run_db :: "('m \<Rightarrow> 'r \<times> 'm) \<Rightarrow> ('m, 'r) exec" where
  "run_db f m = (let (r, m') = f m in (Ok r, m'))"

definition KVStorage_Put ::
  "('k :: linorder) Serde \<Rightarrow> 'v Serde \<Rightarrow> 'k \<Rightarrow> 'v \<Rightarrow> (storage, (unit, DBError) Result) exec" where
  "KVStorage_Put key_serde value_serde key val =
     bind (lift (Serialize key_serde key)) (\<lambda>key_ser.
     bind (lift (Serialize value_serde val)) (\<lambda>value_ser.
       run_db (Database_Put (data_less key_serde) key_ser value_ser)))"

definition KVStorage_Get ::
  "('k :: linorder) Serde \<Rightarrow> 'v Serde \<Rightarrow> 'k \<Rightarrow> (storage, ('v, DBError) Result) exec" where
  "KVStorage_Get key_serde value_serde key =
     bind (lift (Serialize key_serde key)) (\<lambda>key_ser.
     bind (gets (Database_Get (data_less key_serde) key_ser)) (\<lambda>r.
       case r of
         Err e \<Rightarrow> ret (Err e)
       | Ok d \<Rightarrow> bind (lift (Deserialize value_serde d)) (\<lambda>v. ret (Ok v))))"

definition KVStorage_DeleteRange ::
  "('k :: linorder) Serde \<Rightarrow> 'k \<Rightarrow> 'k \<Rightarrow> (storage, (unit, DBError) Result) exec" where
  "KVStorage_DeleteRange key_serde start_key end_key =
     bind (lift (Serialize key_serde start_key)) (\<lambda>start_key_ser.
     bind (lift (Serialize key_serde end_key)) (\<lambda>end_key_ser.
       Database_DeleteRange (data_less key_serde) start_key_ser end_key_ser))"

definition KVStorage_Delete ::
  "('k :: linorder) Serde \<Rightarrow> 'k \<Rightarrow> (storage, (unit, DBError) Result) exec" where
  "KVStorage_Delete key_serde key =
     bind (lift (Serialize key_serde key)) (\<lambda>key_ser.
       run_db (Database_Delete (data_less key_serde) key_ser))"

text \<open>The methods of the nested class \<^verbatim>\<open>WriteBatch\<close> act on the batch they belong to.\<close>

definition KVWriteBatch_Put ::
  "'k Serde \<Rightarrow> 'v Serde \<Rightarrow> 'k \<Rightarrow> 'v \<Rightarrow> ((Data, Data) WriteBatch, (unit, DBError) Result) exec" where
  "KVWriteBatch_Put key_serde value_serde key val =
     bind (lift (Serialize key_serde key)) (\<lambda>key_ser.
     bind (lift (Serialize value_serde val)) (\<lambda>value_ser.
     bind (modify (WriteBatch_Put key_ser value_ser)) (\<lambda>_. ret (Ok ()))))"

definition KVWriteBatch_DeleteRange ::
  "'k Serde \<Rightarrow> 'k \<Rightarrow> 'k \<Rightarrow> ((Data, Data) WriteBatch, (unit, DBError) Result) exec" where
  "KVWriteBatch_DeleteRange key_serde start_key end_key =
     bind (lift (Serialize key_serde start_key)) (\<lambda>start_key_ser.
     bind (lift (Serialize key_serde end_key)) (\<lambda>end_key_ser.
     bind (modify (WriteBatch_DeleteRange start_key_ser end_key_ser)) (\<lambda>_. ret (Ok ()))))"

definition KVWriteBatch_Delete ::
  "'k Serde \<Rightarrow> 'k \<Rightarrow> ((Data, Data) WriteBatch, (unit, DBError) Result) exec" where
  "KVWriteBatch_Delete key_serde key =
     bind (lift (Serialize key_serde key)) (\<lambda>key_ser.
     bind (modify (WriteBatch_Delete key_ser)) (\<lambda>_. ret (Ok ())))"

definition KVStorage_Write ::
  "('k :: linorder) Serde \<Rightarrow> (Data, Data) WriteBatch \<Rightarrow> (storage, (unit, DBError) Result) exec" where
  "KVStorage_Write key_serde write_batch = Database_Write (data_less key_serde) write_batch"

definition KVIterator_GetKey :: "'k Serde \<Rightarrow> (Data, Data) Iterator \<Rightarrow> ('k, panic) Result" where
  "KVIterator_GetKey key_serde it = AndThen (GetKey it) (Deserialize key_serde)"

definition KVIterator_GetValue :: "'v Serde \<Rightarrow> (Data, Data) Iterator \<Rightarrow> ('v, panic) Result" where
  "KVIterator_GetValue value_serde it = AndThen (IterValue it) (Deserialize value_serde)"

text \<open>
  \<^verbatim>\<open>Open\<close> accepts no comparator from its caller and installs its own, named after the
  storage type.
\<close>

definition KV_Open ::
  "string \<Rightarrow> string \<Rightarrow> string option \<Rightarrow> bool \<Rightarrow> nat \<Rightarrow>
   ((string \<rightharpoonup> (Data, Data) HostDatabase), (string, DBError) Result) exec" where
  "KV_Open type_name path user_comparator create current_epoch =
     bind (verify (user_comparator = None) ''KVStorage user-defined comparator are not allowed'')
       (\<lambda>_. Database_Open path \<lparr>comparator = type_name, create_if_missing = create\<rparr> current_epoch)"

section \<open>The typed view\<close>

abbreviation kv_Put :: "'k :: linorder \<Rightarrow> 'v \<Rightarrow> ('k, 'v) omap \<Rightarrow> (unit, DBError) Result \<times> ('k, 'v) omap" where
  "kv_Put \<equiv> Database_Put (<)"

abbreviation kv_Get :: "'k :: linorder \<Rightarrow> ('k, 'v) omap \<Rightarrow> ('v, DBError) Result" where
  "kv_Get \<equiv> Database_Get (<)"

abbreviation kv_Write :: "('k :: linorder, 'v) WriteBatch \<Rightarrow> (('k, 'v) omap, (unit, DBError) Result) exec" where
  "kv_Write \<equiv> Database_Write (<)"

definition bytes_of :: "'t Serde \<Rightarrow> 't \<Rightarrow> Data" where
  "bytes_of s x = (case Serialize s x of Ok d \<Rightarrow> d | Err _ \<Rightarrow> [])"

definition encode :: "'k Serde \<Rightarrow> 'v Serde \<Rightarrow> ('k, 'v) omap \<Rightarrow> storage" where
  "encode ks vs m = map (map_prod (bytes_of ks) (bytes_of vs)) m"

fun encode_cmd :: "'k Serde \<Rightarrow> 'v Serde \<Rightarrow> ('k, 'v) WriteBatchCmd \<Rightarrow> (Data, Data) WriteBatchCmd" where
  "encode_cmd ks vs (PutCmd k v) = PutCmd (bytes_of ks k) (bytes_of vs v)"
| "encode_cmd ks vs (DeleteRangeCmd s e) = DeleteRangeCmd (bytes_of ks s) (bytes_of ks e)"
| "encode_cmd ks vs (DeleteCmd k) = DeleteCmd (bytes_of ks k)"


section \<open>Round trips\<close>

lemma length_le_bytes [simp]: "length (le_bytes k n) = k"
  by (induction k arbitrary: n) simp_all

lemma le_value_bytes: "le_value (le_bytes k n) = n mod 256 ^ k"
proof (induction k arbitrary: n)
  case 0
  then show ?case by simp
next
  case (Suc k)
  have "unat (word_of_nat (n mod 256) :: 8 word) = n mod 256"
    by (simp add: unat_of_nat)
  then have "le_value (le_bytes (Suc k) n) = n mod 256 + 256 * (n div 256 mod 256 ^ k)"
    by (simp add: Suc)
  also have "\<dots> = n mod (256 * 256 ^ k)"
    by (simp add: mod_mult2_eq)
  finally show ?case by simp
qed

lemma char_byte: "char_of (unat (word_of_nat (of_char c) :: 8 word)) = c"
proof -
  have "(of_char c :: nat) < 256" by simp
  then have "unat (word_of_nat (of_char c) :: 8 word) = of_char c"
    by (simp add: unat_of_nat)
  then show ?thesis by (simp add: char_of_char)
qed

locale serde =
  fixes s :: "'t Serde" and valid :: "'t \<Rightarrow> bool"
  assumes roundtrip: "valid x \<Longrightarrow> \<exists>d. Serialize s x = Ok d \<and> Deserialize s d = Ok x"
begin

lemma Serialize_valid: "valid x \<Longrightarrow> Serialize s x = Ok (bytes_of s x)"
  using roundtrip [of x] by (auto simp: bytes_of_def)

lemma Deserialize_valid: "valid x \<Longrightarrow> Deserialize s (bytes_of s x) = Ok x"
  using roundtrip [of x] by (auto simp: bytes_of_def)

lemma bytes_inject: "valid x \<Longrightarrow> valid y \<Longrightarrow> bytes_of s x = bytes_of s y \<longleftrightarrow> x = y"
  using Deserialize_valid [of x] Deserialize_valid [of y] by (metis Result.inject(1))

end

interpretation u64_serde: serde U64Serde "\<lambda>n. n \<le> u64_max"
proof unfold_locales
  fix n assume "n \<le> u64_max"
  then have "n mod 256 ^ 8 = n" by (simp add: u64_max_def)
  then show "\<exists>d. Serialize U64Serde n = Ok d \<and> Deserialize U64Serde d = Ok n"
    by (simp add: U64Serde_def le_value_bytes)
qed

interpretation string_serde: serde StringSerde "\<lambda>_. True"
  by unfold_locales (simp add: StringSerde_def comp_def char_byte)

section \<open>The bytes simulate the typed map\<close>

locale kv_codec = key: serde ks kvalid + val: serde vs vvalid
  for ks :: "('k :: linorder) Serde" and kvalid and vs :: "'v Serde" and vvalid
begin

definition valid_store :: "('k, 'v) omap \<Rightarrow> bool" where
  "valid_store m \<longleftrightarrow> (\<forall>(k, v) \<in> set m. kvalid k \<and> vvalid v)"

lemma valid_store_Nil [simp]: "valid_store []"
  by (simp add: valid_store_def)

lemma valid_store_Cons [simp]: "valid_store ((k, v) # m) \<longleftrightarrow> kvalid k \<and> vvalid v \<and> valid_store m"
  by (simp add: valid_store_def)

lemma less: "kvalid a \<Longrightarrow> kvalid b \<Longrightarrow> data_less ks (bytes_of ks a) (bytes_of ks b) \<longleftrightarrow> a < b"
  by (auto simp: data_less_def Compare_def key.Deserialize_valid)

lemma encode_assign:
  "valid_store m \<Longrightarrow> kvalid k \<Longrightarrow>
   om_assign (data_less ks) (bytes_of ks k) (bytes_of vs v) (encode ks vs m) =
   encode ks vs (om_assign (<) k v m)"
  by (induction m) (auto simp: encode_def less)

lemma encode_find:
  "valid_store m \<Longrightarrow> kvalid k \<Longrightarrow>
   om_find (data_less ks) (bytes_of ks k) (encode ks vs m) = map_option (bytes_of vs) (om_find (<) k m)"
  by (induction m) (auto simp: encode_def less)

lemma encode_erase:
  "valid_store m \<Longrightarrow> kvalid k \<Longrightarrow>
   om_erase (data_less ks) (bytes_of ks k) (encode ks vs m) = encode ks vs (om_erase (<) k m)"
  by (induction m) (auto simp: encode_def less)

lemma encode_lower_bound:
  "valid_store m \<Longrightarrow> kvalid k \<Longrightarrow>
   om_lower_bound (data_less ks) (bytes_of ks k) (encode ks vs m) = om_lower_bound (<) k m"
  by (induction m) (auto simp: encode_def less)

lemma find_valid: "valid_store m \<Longrightarrow> om_find (<) k m = Some v \<Longrightarrow> vvalid v"
  by (induction m) (auto split: if_splits)

lemma valid_assign: "valid_store m \<Longrightarrow> kvalid k \<Longrightarrow> vvalid v \<Longrightarrow> valid_store (om_assign (<) k v m)"
  by (induction m) auto

lemma valid_erase: "valid_store m \<Longrightarrow> valid_store (om_erase (<) k m)"
  by (induction m) auto

lemma Put_simulates:
  assumes "valid_store m" and "kvalid k" and "vvalid v"
  shows "KVStorage_Put ks vs k v (encode ks vs m) = (Ok (fst (kv_Put k v m)), encode ks vs (snd (kv_Put k v m)))"
  using assms
  by (simp add: KVStorage_Put_def Database_Put_def run_db_def exec_simps key.Serialize_valid
      val.Serialize_valid encode_assign)

lemma Get_simulates:
  assumes "valid_store m" and "kvalid k"
  shows "KVStorage_Get ks vs k (encode ks vs m) = (Ok (kv_Get k m), encode ks vs m)"
  using assms find_valid [OF assms(1), of k]
  by (auto simp: KVStorage_Get_def Database_Get_def exec_simps key.Serialize_valid
      encode_find val.Deserialize_valid split: option.splits)

lemma Delete_simulates:
  assumes "valid_store m" and "kvalid k"
  shows "KVStorage_Delete ks k (encode ks vs m) =
     (Ok (fst (Database_Delete (<) k m)), encode ks vs (snd (Database_Delete (<) k m)))"
  using assms
  by (simp add: KVStorage_Delete_def Database_Delete_def run_db_def exec_simps key.Serialize_valid
      encode_erase)

lemma DeleteRange_simulates:
  assumes "valid_store m" and "kvalid s" and "kvalid e"
  shows "KVStorage_DeleteRange ks s e (encode ks vs m) =
     map_prod id (encode ks vs) (Database_DeleteRange (<) s e m)"
proof -
  have "length (encode ks vs m) = length m" by (simp add: encode_def)
  moreover have "encode ks vs (take i m @ drop j m) = take i (encode ks vs m) @ drop j (encode ks vs m)" for i j
    by (simp add: encode_def take_map drop_map)
  ultimately show ?thesis
    using assms
    by (simp add: KVStorage_DeleteRange_def Database_DeleteRange_def exec_simps key.Serialize_valid
        encode_lower_bound Let_def)
qed

fun valid_cmd :: "('k, 'v) WriteBatchCmd \<Rightarrow> bool" where
  "valid_cmd (PutCmd k v) \<longleftrightarrow> kvalid k \<and> vvalid v"
| "valid_cmd (DeleteRangeCmd s e) \<longleftrightarrow> kvalid s \<and> kvalid e"
| "valid_cmd (DeleteCmd k) \<longleftrightarrow> kvalid k"

lemma DeleteRange_valid: "valid_store m \<Longrightarrow> valid_store (snd (Database_DeleteRange (<) s e m))"
  by (auto simp: Database_DeleteRange_def valid_store_def Let_def dest: in_set_takeD in_set_dropD)

lemma Write_cmd_simulates:
  assumes "valid_store m" and "valid_cmd c"
  shows "Write_cmd (data_less ks) (encode_cmd ks vs c) (encode ks vs m) =
     map_prod id (encode ks vs) (Write_cmd (<) c m)"
    and "valid_store (snd (Write_cmd (<) c m))"
proof -
  have range: "Database_DeleteRange (data_less ks) (bytes_of ks s) (bytes_of ks e) (encode ks vs m) =
      map_prod id (encode ks vs) (Database_DeleteRange (<) s e m)" if "kvalid s" "kvalid e" for s e
    using DeleteRange_simulates [OF assms(1) that] that
    by (simp add: KVStorage_DeleteRange_def exec_simps key.Serialize_valid)
  show "Write_cmd (data_less ks) (encode_cmd ks vs c) (encode ks vs m) =
     map_prod id (encode ks vs) (Write_cmd (<) c m)"
    using assms
    by (cases c)
       (auto simp: Database_Put_def Database_Delete_def encode_assign encode_erase range exec_simps
         split: prod.splits Result.splits)
  show "valid_store (snd (Write_cmd (<) c m))"
    using assms DeleteRange_valid [OF assms(1)]
    by (cases c)
       (auto simp: Database_Put_def Database_Delete_def valid_assign valid_erase exec_simps
         split: prod.splits Result.splits, (metis snd_conv)+)
qed

lemma Write_simulates:
  assumes "valid_store m" and "\<forall>c \<in> set cmds. valid_cmd c"
  shows "KVStorage_Write ks (map (encode_cmd ks vs) cmds) (encode ks vs m) =
     map_prod id (encode ks vs) (kv_Write cmds m)"
proof -
  have "for_each (map (encode_cmd ks vs) cmds) (Write_cmd (data_less ks)) (encode ks vs m) =
     map_prod id (encode ks vs) (for_each cmds (Write_cmd (<)) m)"
    using assms
  proof (induction cmds arbitrary: m)
    case Nil
    then show ?case by (simp add: ret_run)
  next
    case (Cons c cmds)
    then show ?case
      using Write_cmd_simulates [of m c]
      by (auto simp: exec_simps split: prod.splits Result.splits)
  qed
  then show ?thesis
    by (auto simp: KVStorage_Write_def Database_Write_def exec_simps split: prod.splits Result.splits)
qed

lemma iterator_simulates:
  assumes "valid_store m" and "m \<noteq> []"
  shows "KVIterator_GetKey ks (SeekToLast (NewIterator (encode ks vs m))) =
      GetKey (SeekToLast (NewIterator m))"
    and "KVIterator_GetValue vs (SeekToLast (NewIterator (encode ks vs m))) =
      IterValue (SeekToLast (NewIterator m))"
proof -
  have last: "last m \<in> set m" using assms(2) by simp
  have "kvalid (fst (last m))" "vvalid (snd (last m))"
    using assms(1) last by (auto simp: valid_store_def case_prod_beta)
  moreover have "encode ks vs m \<noteq> []" "last (encode ks vs m) = map_prod (bytes_of ks) (bytes_of vs) (last m)"
    using assms(2) by (simp_all add: encode_def last_map)
  ultimately show "KVIterator_GetKey ks (SeekToLast (NewIterator (encode ks vs m))) =
      GetKey (SeekToLast (NewIterator m))"
    and "KVIterator_GetValue vs (SeekToLast (NewIterator (encode ks vs m))) =
      IterValue (SeekToLast (NewIterator m))"
    using assms(2)
    by (simp_all add: KVIterator_GetKey_def KVIterator_GetValue_def key.Deserialize_valid
        val.Deserialize_valid)
qed

end

interpretation state_codec: kv_codec StringSerde "\<lambda>_. True" U64Serde "\<lambda>n. n \<le> u64_max"
  by unfold_locales

interpretation queue_codec: kv_codec U64Serde "\<lambda>n. n \<le> u64_max" StringSerde "\<lambda>_. True"
  by unfold_locales

end
