(* ===== verification/Stop_States.thy ===== *)
theory Stop_States
  imports Results
begin

text \<open>
  Cancellation (\<^verbatim>\<open>src/runtime/util/cancellation/\<close>).

  A \<^verbatim>\<open>StopState\<close> is shared by one stop source and any number of tokens and callbacks;
  it holds the cancelled flag, the linked callbacks and a reference count. Callbacks are named by
  numbers. Here the callbacks are a list, the newest
  first, which is what the nodes use; theory Stop_Heap has the \<^verbatim>\<open>next\<close> and
  \<^verbatim>\<open>prev\<close> pointers of the source and shows that they implement the list.
\<close>

record StopState =
  cancelled :: bool
  callbacks :: "nat list"
  ref_count :: nat

definition new_StopState :: StopState where
  "new_StopState = \<lparr>cancelled = False, callbacks = [], ref_count = 1\<rparr>"

text \<open>
  Constructing a callback either links it in front or, when the state is already cancelled, runs
  it at once: the list returned holds the callbacks that ran.
\<close>

definition StopCallback_new :: "nat \<Rightarrow> StopState \<Rightarrow> nat list \<times> StopState" where
  "StopCallback_new cb st =
     (if cancelled st then ([cb], st) else ([], st\<lparr>callbacks := cb # callbacks st\<rparr>))"

definition StopCallback_delete :: "nat \<Rightarrow> StopState \<Rightarrow> StopState" where
  "StopCallback_delete cb st = st\<lparr>callbacks := remove1 cb (callbacks st)\<rparr>"

definition StopSource_Stop :: "StopState \<Rightarrow> nat list \<times> StopState" where
  "StopSource_Stop st = (callbacks st, st\<lparr>cancelled := True, callbacks := []\<rparr>)"

end
