(* ===== verification/Stop_Heap.thy ===== *)
theory Stop_Heap
  imports Stop_States
begin

text \<open>
  Cancellation with its pointers (\<^verbatim>\<open>src/runtime/util/cancellation/\<close>): stop states and callbacks
  are objects on a heap, callbacks are doubly linked, and a state is deleted when the last source,
  token or callback that refers to it is gone. Reading a deleted state or a null pointer is undefined behaviour
  and ends an operation with an error.

  The objects of classes \<^verbatim>\<open>StopSource\<close> and \<^verbatim>\<open>StopToken\<close> have one member, the pointer
  to their state, and are represented by it. A callback's function is represented by recording that it ran.
  The operations are atomic here. In the source they hold the lock of the state, with one exception: a callback that is made on a cancelled state releases the lock
  before it runs its function and unlinks itself. Such a callback was never put into the list, so unlinking it changes no other object; the model does not
  cover what other threads do between the release and the end of the constructor.

  Shown here: the operations implement those on lists of theory Stop_States, and the loop of
  \<^verbatim>\<open>Stop\<close> ends.
\<close>

section \<open>Objects\<close>

record StopState_obj =
  st_callbacks :: "nat option"
  st_cancelled :: bool
  st_ref_count :: nat

record StopCallbackNode =
  cb_next :: "nat option"
  cb_prev :: "nat option"
  cb_token :: "nat option"

record stop_heap =
  states :: "nat \<Rightarrow> StopState_obj option"
  cbs :: "nat \<Rightarrow> StopCallbackNode option"
  new_state :: nat
  executed :: "nat list"

definition state_at :: "nat \<Rightarrow> (stop_heap, StopState_obj) exec" where
  "state_at p = bind (gets (\<lambda>h. states h p)) (\<lambda>st.
     case st of None \<Rightarrow> lift (Err (UndefinedBehaviour ''deleted state'')) | Some st \<Rightarrow> ret st)"

definition set_state :: "nat \<Rightarrow> StopState_obj option \<Rightarrow> (stop_heap, unit) exec" where
  "set_state p st = modify (\<lambda>h. h\<lparr>states := (states h)(p := st)\<rparr>)"

definition cb_at :: "nat \<Rightarrow> (stop_heap, StopCallbackNode) exec" where
  "cb_at cb = bind (gets (\<lambda>h. cbs h cb)) (\<lambda>n.
     case n of None \<Rightarrow> lift (Err (UndefinedBehaviour ''deleted callback'')) | Some n \<Rightarrow> ret n)"

definition set_cb :: "nat \<Rightarrow> StopCallbackNode option \<Rightarrow> (stop_heap, unit) exec" where
  "set_cb cb n = modify (\<lambda>h. h\<lparr>cbs := (cbs h)(cb := n)\<rparr>)"

lemma heap_ops_run [exec_simps]:
  "state_at p h = (case states h p of None \<Rightarrow> (Err (UndefinedBehaviour ''deleted state''), h) | Some st \<Rightarrow> (Ok st, h))"
  "set_state p st h = (Ok (), h\<lparr>states := (states h)(p := st)\<rparr>)"
  "cb_at cb h = (case cbs h cb of None \<Rightarrow> (Err (UndefinedBehaviour ''deleted callback''), h) | Some n \<Rightarrow> (Ok n, h))"
  "set_cb cb n h = (Ok (), h\<lparr>cbs := (cbs h)(cb := n)\<rparr>)"
  by (simp_all add: state_at_def set_state_def cb_at_def set_cb_def bind_run gets_run modify_run lift_run ret_run
      split: option.splits)

section \<open>Reference counts\<close>

definition Ref :: "nat \<Rightarrow> (stop_heap, unit) exec" where
  "Ref p = bind (state_at p) (\<lambda>st. set_state p (Some (st\<lparr>st_ref_count := u64_inc (st_ref_count st)\<rparr>)))"

definition UnRef :: "nat \<Rightarrow> (stop_heap, unit) exec" where
  "UnRef p = bind (state_at p) (\<lambda>st.
     let ref_count = u64_dec (st_ref_count st)
     in if ref_count = 0 then set_state p None else set_state p (Some (st\<lparr>st_ref_count := ref_count\<rparr>)))"

section \<open>Sources and tokens\<close>

definition StopSource_ctor :: "(stop_heap, nat option) exec" where
  "StopSource_ctor =
     bind (gets new_state) (\<lambda>p.
     bind (modify (\<lambda>h. h\<lparr>new_state := Suc p\<rparr>)) (\<lambda>_.
     bind (set_state p (Some \<lparr>st_callbacks = None, st_cancelled = False, st_ref_count = 0\<rparr>)) (\<lambda>_.
     bind (Ref p) (\<lambda>_. ret (Some p)))))"

definition StopSource_dtor :: "nat option \<Rightarrow> (stop_heap, unit) exec" where
  "StopSource_dtor src = (case src of None \<Rightarrow> ret () | Some p \<Rightarrow> UnRef p)"

text \<open>Moving swaps the pointers; the results are the new members of \<^verbatim>\<open>other\<close> and \<^verbatim>\<open>this\<close>.\<close>

definition StopSource_move_ctor :: "nat option \<Rightarrow> nat option \<times> nat option" where
  "StopSource_move_ctor other = (None, other)"

definition StopSource_move_assign :: "nat option \<Rightarrow> nat option \<Rightarrow> nat option \<times> nat option" where
  "StopSource_move_assign this other = (this, other)"

definition StopToken_ctor :: "nat option \<Rightarrow> (stop_heap, nat option) exec" where
  "StopToken_ctor st = (case st of None \<Rightarrow> ret None | Some p \<Rightarrow> bind (Ref p) (\<lambda>_. ret (Some p)))"

definition StopToken_copy :: "nat option \<Rightarrow> (stop_heap, nat option) exec" where
  "StopToken_copy other = StopToken_ctor other"

definition StopToken_move_ctor :: "nat option \<Rightarrow> nat option \<times> nat option" where
  "StopToken_move_ctor other = (None, other)"

definition StopToken_dtor :: "nat option \<Rightarrow> (stop_heap, unit) exec" where
  "StopToken_dtor token = (case token of None \<Rightarrow> ret () | Some p \<Rightarrow> UnRef p)"

text \<open>The argument of the assignment is a copy, which takes over the old state and dies with it.\<close>

definition StopToken_assign :: "nat option \<Rightarrow> nat option \<Rightarrow> (stop_heap, nat option) exec" where
  "StopToken_assign this other =
     bind (StopToken_copy other) (\<lambda>copy.
     bind (StopToken_dtor this) (\<lambda>_. ret copy))"

definition StopToken_StopRequested :: "nat option \<Rightarrow> (stop_heap, bool) exec" where
  "StopToken_StopRequested token =
     (case token of None \<Rightarrow> ret False | Some p \<Rightarrow> bind (state_at p) (\<lambda>st. ret (st_cancelled st)))"

definition GetToken :: "nat option \<Rightarrow> (stop_heap, nat option) exec" where
  "GetToken src = StopToken_ctor src"

definition StopSource_StopRequested :: "nat option \<Rightarrow> (stop_heap, bool) exec" where
  "StopSource_StopRequested src =
     (case src of None \<Rightarrow> lift (Err (UndefinedBehaviour ''null pointer''))
      | Some p \<Rightarrow> bind (state_at p) (\<lambda>st. ret (st_cancelled st)))"

section \<open>Callbacks\<close>

definition Unlink :: "nat \<Rightarrow> (stop_heap, unit) exec" where
  "Unlink cb =
     bind (cb_at cb) (\<lambda>this.
     case cb_token this of
       None \<Rightarrow> lift (Err (UndefinedBehaviour ''null pointer''))
     | Some p \<Rightarrow>
         bind (state_at p) (\<lambda>st.
         bind (if st_callbacks st = Some cb then set_state p (Some (st\<lparr>st_callbacks := cb_next this\<rparr>)) else ret ()) (\<lambda>_.
         bind (case cb_prev this of None \<Rightarrow> ret ()
               | Some q \<Rightarrow> bind (cb_at q) (\<lambda>n. set_cb q (Some (n\<lparr>cb_next := cb_next this\<rparr>)))) (\<lambda>_.
         bind (case cb_next this of None \<Rightarrow> ret ()
               | Some q \<Rightarrow> bind (cb_at q) (\<lambda>n. set_cb q (Some (n\<lparr>cb_prev := cb_prev this\<rparr>)))) (\<lambda>_.
         set_cb cb (Some (this\<lparr>cb_prev := None, cb_next := None\<rparr>)))))))"

definition Execute_callback :: "nat \<Rightarrow> (stop_heap, unit) exec" where
  "Execute_callback cb = bind (modify (\<lambda>h. h\<lparr>executed := executed h @ [cb]\<rparr>)) (\<lambda>_. Unlink cb)"

text \<open>The token argument is moved into the callback.\<close>

definition StopCallback_ctor :: "nat \<Rightarrow> nat option \<Rightarrow> (stop_heap, unit) exec" where
  "StopCallback_ctor cb token =
     bind (set_cb cb (Some \<lparr>cb_next = None, cb_prev = None, cb_token = token\<rparr>)) (\<lambda>_.
     case token of None \<Rightarrow> ret ()
     | Some p \<Rightarrow>
         bind (state_at p) (\<lambda>st.
         if st_cancelled st then Execute_callback cb
         else case st_callbacks st of
           None \<Rightarrow> set_state p (Some (st\<lparr>st_callbacks := Some cb\<rparr>))
         | Some q \<Rightarrow>
             bind (cb_at q) (\<lambda>n.
             bind (set_cb q (Some (n\<lparr>cb_prev := Some cb\<rparr>))) (\<lambda>_.
             bind (cb_at cb) (\<lambda>this.
             bind (set_cb cb (Some (this\<lparr>cb_next := Some q\<rparr>))) (\<lambda>_.
             set_state p (Some (st\<lparr>st_callbacks := Some cb\<rparr>))))))))"

text \<open>The destructor, with that of the member \<^verbatim>\<open>token_\<close> after its body.\<close>

definition StopCallback_dtor :: "nat \<Rightarrow> (stop_heap, unit) exec" where
  "StopCallback_dtor cb =
     bind (cb_at cb) (\<lambda>this.
     bind (if cb_token this = None then ret () else Unlink cb) (\<lambda>_.
     bind (StopToken_dtor (cb_token this)) (\<lambda>_.
     set_cb cb None)))"

partial_function (option) Stop_loop :: "nat \<Rightarrow> stop_heap \<Rightarrow> ((unit, panic) Result \<times> stop_heap) option" where
  "Stop_loop p h =
     (case state_at p h of
        (Err e, h) \<Rightarrow> Some (Err e, h)
      | (Ok st, h) \<Rightarrow>
          (case st_callbacks st of
             None \<Rightarrow> Some (Ok (), h)
           | Some cb \<Rightarrow>
               (case Execute_callback cb h of
                  (Err e, h) \<Rightarrow> Some (Err e, h)
                | (Ok _, h) \<Rightarrow> Stop_loop p h)))"

definition Stop :: "nat option \<Rightarrow> stop_heap \<Rightarrow> ((unit, panic) Result \<times> stop_heap) option" where
  "Stop src h =
     (case src of
        None \<Rightarrow> Some (Ok (), h)
      | Some p \<Rightarrow>
          (case state_at p h of
             (Err e, h) \<Rightarrow> Some (Err e, h)
           | (Ok st, h) \<Rightarrow> Stop_loop p (snd (set_state p (Some (st\<lparr>st_cancelled := True\<rparr>)) h))))"

section \<open>The callbacks of a state\<close>

definition first :: "nat list \<Rightarrow> nat option" where
  "first xs = (case xs of [] \<Rightarrow> None | x # _ \<Rightarrow> Some x)"

lemma first_simps [simp]: "first [] = None" "first (x # xs) = Some x"
  by (simp_all add: first_def)

primrec dll :: "(nat \<Rightarrow> StopCallbackNode option) \<Rightarrow> nat \<Rightarrow> nat option \<Rightarrow> nat list \<Rightarrow> bool" where
  "dll m p pr [] = True"
| "dll m p pr (x # xs) \<longleftrightarrow>
     m x = Some \<lparr>cb_next = first xs, cb_prev = pr, cb_token = Some p\<rparr> \<and> dll m p (Some x) xs"

definition implements_state :: "stop_heap \<Rightarrow> nat \<Rightarrow> StopState \<Rightarrow> bool" where
  "implements_state h p st \<longleftrightarrow>
     states h p = Some \<lparr>st_callbacks = first (callbacks st), st_cancelled = cancelled st, st_ref_count = ref_count st\<rparr> \<and>
     distinct (callbacks st) \<and> dll (cbs h) p None (callbacks st) \<and>
     (\<forall>cb n. cbs h cb = Some n \<longrightarrow> cb_token n = Some p \<longrightarrow> cb \<notin> set (callbacks st) \<longrightarrow> cb_next n = None \<and> cb_prev n = None)"

definition tokens :: "stop_heap \<Rightarrow> nat \<Rightarrow> nat option option" where
  "tokens h x = map_option cb_token (cbs h x)"

lemma tokens_update [simp]:
  "tokens (h\<lparr>executed := e\<rparr>) = tokens h" "tokens (h\<lparr>states := f\<rparr>) = tokens h"
  "tokens (h\<lparr>cbs := (cbs h)(x \<mapsto> n)\<rparr>) = (tokens h)(x \<mapsto> cb_token n)"
  "tokens (h\<lparr>cbs := (cbs h)(x := None)\<rparr>) = (tokens h)(x := None)"
  by (simp_all add: fun_eq_iff tokens_def)

lemma dll_update: "x \<notin> set xs \<Longrightarrow> dll (m(x := n)) p pr xs = dll m p pr xs"
  by (induction xs arbitrary: pr) auto

lemma dll_token: "dll m p pr xs \<Longrightarrow> x \<in> set xs \<Longrightarrow> \<exists>n. m x = Some n \<and> cb_token n = Some p"
  by (induction xs arbitrary: pr) auto

text \<open>The middle of a list: taking an element out, seen from its neighbours.\<close>

fun last_or :: "nat option \<Rightarrow> nat list \<Rightarrow> nat option" where
  "last_or pr [] = pr"
| "last_or pr (x # xs) = last_or (Some x) xs"

lemma last_or_append [simp]: "last_or pr (xs @ ys) = last_or (last_or pr xs) ys"
  by (induction pr xs rule: last_or.induct) simp_all

lemma last_or_mem: "last_or pr xs = Some q \<Longrightarrow> pr = Some q \<or> q \<in> set xs"
  by (induction pr xs rule: last_or.induct) auto

lemma first_mem: "first xs = Some q \<Longrightarrow> q \<in> set xs"
  by (cases xs) simp_all

lemma first_append: "first (xs @ ys) = (if xs = [] then first ys else first xs)"
  by (cases xs) simp_all

definition upd_node ::
  "nat option \<Rightarrow> (StopCallbackNode \<Rightarrow> StopCallbackNode) \<Rightarrow> (nat \<Rightarrow> StopCallbackNode option) \<Rightarrow> nat \<Rightarrow> StopCallbackNode option" where
  "upd_node q f m = (case q of None \<Rightarrow> m | Some q \<Rightarrow> m(q := map_option f (m q)))"

lemma upd_node_other: "q \<noteq> Some x \<Longrightarrow> upd_node q f m x = m x"
  by (simp add: upd_node_def split: option.splits)

lemma upd_node_same: "upd_node (Some x) f m x = map_option f (m x)"
  by (simp add: upd_node_def)

lemma dll_upd_node: "q \<notin> Some ` set xs \<Longrightarrow> dll (upd_node q f m) p pr xs = dll m p pr xs"
  by (cases q) (simp_all add: upd_node_def dll_update image_iff)

lemma dll_split: "dll m p pr (xs @ x # ys) \<Longrightarrow>
    m x = Some \<lparr>cb_next = first ys, cb_prev = last_or pr xs, cb_token = Some p\<rparr>"
  by (induction xs arbitrary: pr) simp_all

lemma dll_remove:
  assumes "dll m p pr (xs @ cb # ys)" and "distinct (xs @ cb # ys)" and "\<And>q. pr = Some q \<Longrightarrow> q \<notin> set (xs @ cb # ys)"
  shows "dll (upd_node (first ys) (cb_prev_update (\<lambda>_. last_or pr xs))
    (upd_node (last_or pr xs) (cb_next_update (\<lambda>_. first ys)) m)) p pr (xs @ ys)"
  using assms
proof (induction xs arbitrary: pr)
  case Nil
  show ?case
  proof (cases ys)
    case (Cons y zs)
    have "pr \<noteq> Some y" and "pr \<notin> Some ` set zs" and "Some y \<notin> Some ` set zs"
      using Nil(2,3) Cons by auto
    then show ?thesis
      using Nil Cons by (simp add: upd_node_same upd_node_other dll_upd_node)
  qed simp
next
  case (Cons x xs)
  let ?m = "upd_node (first ys) (cb_prev_update (\<lambda>_. last_or (Some x) xs))
    (upd_node (last_or (Some x) xs) (cb_next_update (\<lambda>_. first ys)) m)"
  have rest: "dll ?m p (Some x) (xs @ ys)"
    using Cons.prems by (intro Cons.IH) auto
  have "first ys \<noteq> Some x"
    using Cons.prems(2) first_mem by fastforce
  moreover have "xs \<noteq> [] \<Longrightarrow> last_or (Some x) xs \<noteq> Some x"
    using Cons.prems(2) last_or_mem [of "Some (hd xs)" "tl xs" x] by (cases xs) auto
  ultimately have "?m x = Some \<lparr>cb_next = first (xs @ ys), cb_prev = pr, cb_token = Some p\<rparr>"
    using Cons.prems(1) by (cases "xs = []") (simp_all add: upd_node_other upd_node_same first_append)
  with rest show ?case by simp
qed

lemma split_remove1: "x \<in> set xs \<Longrightarrow> \<exists>ys zs. xs = ys @ x # zs \<and> x \<notin> set ys \<and> remove1 x xs = ys @ zs"
  by (metis remove1_append remove1.simps(2) split_list_first)

section \<open>The operations on lists are implemented\<close>

lemma Unlink_linked:
  assumes "implements_state h p st" and "callbacks st = xs @ cb # ys"
  obtains m where "Unlink cb h = (Ok (), h\<lparr>states := (states h)(p \<mapsto>
        \<lparr>st_callbacks = first (xs @ ys), st_cancelled = cancelled st, st_ref_count = ref_count st\<rparr>), cbs := m\<rparr>)"
    and "dll m p None (xs @ ys)" and "m cb = Some \<lparr>cb_next = None, cb_prev = None, cb_token = Some p\<rparr>"
    and "\<And>x. x \<notin> set (callbacks st) \<Longrightarrow> m x = cbs h x" and "\<And>x. map_option cb_token (m x) = tokens h x"
proof -
  note I = assms(1)[unfolded implements_state_def assms(2)]
  let ?m = "upd_node (first ys) (cb_prev_update (\<lambda>_. last_or None xs))
    (upd_node (last_or None xs) (cb_next_update (\<lambda>_. first ys)) (cbs h))"
  let ?m' = "?m(cb \<mapsto> \<lparr>cb_next = None, cb_prev = None, cb_token = Some p\<rparr>)"
  have node: "cbs h cb = Some \<lparr>cb_next = first ys, cb_prev = last_or None xs, cb_token = Some p\<rparr>"
    using I dll_split by blast
  have prev: "\<exists>n. cbs h q = Some n" if "last_or None xs = Some q" for q
    using that last_or_mem [OF that] I dll_token [of "cbs h" p None "xs @ cb # ys" q] by auto
  have nxt: "\<exists>n. cbs h q = Some n" if "first ys = Some q" for q
    using that first_mem [OF that] I dll_token [of "cbs h" p None "xs @ cb # ys" q] by auto
  have ne: "last_or None xs \<noteq> first ys \<or> first ys = None"
    using last_or_mem [of None xs] first_mem [of ys] I by (cases "first ys") fastforce+
  let ?st = "\<lparr>st_callbacks = first (xs @ ys), st_cancelled = cancelled st, st_ref_count = ref_count st\<rparr>"
  have head: "first (xs @ cb # ys) = Some cb \<longleftrightarrow> xs = []"
    using I first_mem [of xs cb] by (auto simp: first_append)
  have keep: "xs \<noteq> [] \<Longrightarrow> h\<lparr>states := (states h)(p \<mapsto> ?st)\<rparr> = h"
    using I by (cases h) (simp add: first_append fun_upd_idem)
  let ?h = "h\<lparr>states := (states h)(p \<mapsto> ?st)\<rparr>"
  have "bind (state_at p) (\<lambda>st. if st_callbacks st = Some cb then set_state p (Some (st\<lparr>st_callbacks := first ys\<rparr>)) else ret ()) h
      = (Ok (), ?h)"
    using I head keep by (cases "xs = []") (simp_all add: exec_simps)
  then have run: "Unlink cb h = (Ok (), ?h\<lparr>cbs := ?m'\<rparr>)"
    using node I ne prev nxt head
    by (cases "last_or None xs"; cases "first ys") (auto simp: Unlink_def exec_simps upd_node_def split: if_splits)
  show ?thesis
  proof (rule that [OF run])
    have "dll ?m p None (xs @ ys)" using I by (intro dll_remove) auto
    then show "dll ?m' p None (xs @ ys)" using I by (subst dll_update) auto
    show "?m' x = cbs h x" if "x \<notin> set (callbacks st)" for x
    proof -
      have "last_or None xs \<noteq> Some x" "first ys \<noteq> Some x" "x \<noteq> cb"
        using that assms(2) last_or_mem [of None xs x] first_mem [of ys x] by auto
      then show ?thesis by (simp add: upd_node_other)
    qed
    show "map_option cb_token (?m' x) = tokens h x" for x
      using node by (auto simp: tokens_def upd_node_def option.map_comp comp_def split: option.splits)
  qed simp
qed

text \<open>Operations on one state leave the others alone.\<close>

definition elsewhere :: "nat \<Rightarrow> stop_heap \<Rightarrow> stop_heap \<Rightarrow> bool" where
  "elsewhere p h h' \<longleftrightarrow> (\<forall>q. q \<noteq> p \<longrightarrow> states h' q = states h q) \<and>
     (\<forall>x. cbs h' x = cbs h x \<or> (\<forall>n. cbs h x = Some n \<or> cbs h' x = Some n \<longrightarrow> cb_token n = Some p))"

lemma elsewhereI:
  assumes "\<And>q. q \<noteq> p \<Longrightarrow> states h' q = states h q"
    and "\<And>x n. cbs h' x \<noteq> cbs h x \<Longrightarrow> cbs h x = Some n \<or> cbs h' x = Some n \<Longrightarrow> cb_token n = Some p"
  shows "elsewhere p h h'"
  unfolding elsewhere_def using assms by blast

lemma elsewhere_trans: "elsewhere p h h' \<Longrightarrow> elsewhere p h' h'' \<Longrightarrow> elsewhere p h h''"
  unfolding elsewhere_def by (metis option.inject)

lemma elsewhere_refl: "elsewhere p h h"
  by (simp add: elsewhere_def)

lemma dll_elsewhere:
  assumes "dll m p pr xs" and "\<And>x n. m x = Some n \<Longrightarrow> cb_token n = Some p \<Longrightarrow> m' x = m x"
  shows "dll m' p pr xs"
  using assms(1) by (induction xs arbitrary: pr) (auto simp: assms(2))

lemma implements_elsewhere:
  assumes "implements_state h q st" and "elsewhere p h h'" and "q \<noteq> p"
  shows "implements_state h' q st"
proof -
  have keep: "cbs h' x = cbs h x" if "cbs h x = Some n \<or> cbs h' x = Some n" "cb_token n = Some q" for x n
  proof (rule ccontr)
    assume "cbs h' x \<noteq> cbs h x"
    moreover have "cbs h' x = cbs h x \<or> (\<forall>n. cbs h x = Some n \<or> cbs h' x = Some n \<longrightarrow> cb_token n = Some p)"
      using assms(2) by (simp add: elsewhere_def)
    ultimately have "cb_token n = Some p" using that(1) by metis
    with that(2) assms(3) show False by simp
  qed
  have "dll (cbs h) q None (callbacks st)" using assms(1) by (simp add: implements_state_def)
  then have "dll (cbs h') q None (callbacks st)"
    by (rule dll_elsewhere) (erule (1) keep [OF disjI1])
  moreover have "cb_next n = None \<and> cb_prev n = None"
    if "cbs h' cb = Some n" "cb_token n = Some q" "cb \<notin> set (callbacks st)" for cb n
    using assms(1) keep [of cb n] that by (simp add: implements_state_def)
  moreover have "states h' q = states h q" using assms(2,3) by (simp add: elsewhere_def)
  ultimately show ?thesis using assms(1) by (auto simp: implements_state_def)
qed

lemma Unlink_implements:
  assumes "implements_state h p st" and "cbs h cb = Some n" and "cb_token n = Some p"
  shows "\<exists>h'. Unlink cb h = (Ok (), h') \<and> implements_state h' p (StopCallback_delete cb st) \<and> elsewhere p h h' \<and>
     executed h' = executed h \<and> tokens h' = tokens h \<and> cbs h' cb = Some \<lparr>cb_next = None, cb_prev = None, cb_token = Some p\<rparr>"
proof (cases "cb \<in> set (callbacks st)")
  case True
  then obtain xs ys where l: "callbacks st = xs @ cb # ys" "cb \<notin> set xs" "remove1 cb (callbacks st) = xs @ ys"
    using split_remove1 by metis
  from Unlink_linked [OF assms(1) l(1)] obtain m where m: "Unlink cb h = (Ok (), h\<lparr>states := (states h)(p \<mapsto>
        \<lparr>st_callbacks = first (xs @ ys), st_cancelled = cancelled st, st_ref_count = ref_count st\<rparr>), cbs := m\<rparr>)"
      "dll m p None (xs @ ys)" "m cb = Some \<lparr>cb_next = None, cb_prev = None, cb_token = Some p\<rparr>"
      "\<And>x. x \<notin> set (callbacks st) \<Longrightarrow> m x = cbs h x" "\<And>x. map_option cb_token (m x) = tokens h x" by blast
  let ?h = "h\<lparr>states := (states h)(p \<mapsto>
        \<lparr>st_callbacks = first (xs @ ys), st_cancelled = cancelled st, st_ref_count = ref_count st\<rparr>), cbs := m\<rparr>"
  note I = assms(1)[unfolded implements_state_def]
  have tok: "cb_token n = Some p" if "x \<in> set (callbacks st)" "cbs h x = Some n \<or> m x = Some n" for x n
    using that I dll_token [of "cbs h" p None "callbacks st" x] dll_token [OF m(2), of x] m(3) l(1) by auto
  have "elsewhere p h ?h"
    using tok m(4) unfolding elsewhere_def by auto
  moreover have "cb_next n = None \<and> cb_prev n = None"
    if "m x = Some n" "cb_token n = Some p" "x \<notin> set (xs @ ys)" for x n
    using that I m(3) m(4) [of x] l(1) by (cases "x = cb") auto
  then have "implements_state ?h p (StopCallback_delete cb st)"
    using I l m(2) by (auto simp: implements_state_def StopCallback_delete_def)
  moreover have "tokens ?h = tokens h" using m(5) by (simp add: tokens_def fun_eq_iff)
  ultimately show ?thesis using m(1,3) by auto
next
  case False
  note I = assms(1)[unfolded implements_state_def]
  have n: "n = \<lparr>cb_next = None, cb_prev = None, cb_token = Some p\<rparr>"
  proof -
    have "cb_next n = None" "cb_prev n = None" using I assms(2,3) False by blast+
    with assms(3) show ?thesis by (cases n) simp
  qed
  have "first (callbacks st) \<noteq> Some cb" using False first_mem by blast
  then have "Unlink cb h = (Ok (), h\<lparr>cbs := (cbs h)(cb \<mapsto> n)\<rparr>)"
    using I assms(2) n by (auto simp: Unlink_def exec_simps)
  moreover have "h\<lparr>cbs := (cbs h)(cb \<mapsto> n)\<rparr> = h" using assms(2) by (cases h) (simp add: fun_upd_idem)
  ultimately have "Unlink cb h = (Ok (), h)" by simp
  then show ?thesis
    using assms(1,2) n False by (simp add: elsewhere_refl StopCallback_delete_def remove1_idem)
qed

text \<open>The loop of \<^verbatim>\<open>Stop\<close> runs every linked callback, the newest first, and ends.\<close>

lemma Stop_loop_implements:
  assumes "implements_state h p st"
  shows "\<exists>h'. Stop_loop p h = Some (Ok (), h') \<and> implements_state h' p (st\<lparr>callbacks := []\<rparr>) \<and> elsewhere p h h' \<and>
     executed h' = executed h @ callbacks st \<and> tokens h' = tokens h"
  using assms
proof (induction "callbacks st" arbitrary: h st)
  case Nil
  then show ?case
    by (subst Stop_loop.simps) (auto simp: exec_simps implements_state_def elsewhere_refl)
next
  case (Cons cb ys)
  let ?h = "h\<lparr>executed := executed h @ [cb]\<rparr>"
  have i: "implements_state ?h p st" using Cons.prems by (simp add: implements_state_def)
  have cb: "cbs ?h cb = Some \<lparr>cb_next = first ys, cb_prev = None, cb_token = Some p\<rparr>"
    using Cons.prems Cons.hyps(2) [symmetric] by (simp add: implements_state_def)
  obtain h1 where h1: "Unlink cb ?h = (Ok (), h1)" "implements_state h1 p (StopCallback_delete cb st)" "elsewhere p ?h h1"
      "executed h1 = executed ?h" "tokens h1 = tokens ?h"
    using Unlink_implements [OF i cb] by auto
  have del: "callbacks (StopCallback_delete cb st) = ys"
    using Cons.hyps(2) by (simp add: StopCallback_delete_def flip: Cons.hyps(2))
  from Cons.hyps(1) [OF del [symmetric] h1(2)] obtain h2 where h2: "Stop_loop p h1 = Some (Ok (), h2)"
      "implements_state h2 p (StopCallback_delete cb st\<lparr>callbacks := []\<rparr>)" "elsewhere p h1 h2" "executed h2 = executed h1 @ ys" "tokens h2 = tokens h1"
    using del by auto
  have "Stop_loop p h = Stop_loop p h1"
    using Cons.prems Cons.hyps(2) [symmetric] h1(1)
    by (subst Stop_loop.simps) (simp add: exec_simps implements_state_def Execute_callback_def)
  moreover have "elsewhere p h h2"
    by (rule elsewhere_trans [OF _ elsewhere_trans [OF h1(3) h2(3)]]) (simp add: elsewhere_def)
  moreover have "executed h2 = executed h @ callbacks st"
    using h2(4) h1(4) Cons.hyps(2) by simp
  moreover have "tokens h2 = tokens h" using h2(5) h1(5) by (simp add: tokens_def fun_eq_iff)
  ultimately show ?case
    using h2(1,2) by (intro exI [of _ h2]) (simp add: StopCallback_delete_def)
qed

text \<open>The constructor and the destructor of a callback.\<close>

lemma implements_count:
  assumes "implements_state h p st"
  shows "implements_state (h\<lparr>states := (states h)(p \<mapsto>
      \<lparr>st_callbacks = first (callbacks st), st_cancelled = cancelled st, st_ref_count = k\<rparr>)\<rparr>) p (st\<lparr>ref_count := k\<rparr>)"
  using assms by (simp add: implements_state_def)

lemma dll_cons:
  assumes "dll m p None xs" and "cb \<notin> set xs" and "distinct xs"
  shows "dll (upd_node (first xs) (cb_prev_update (\<lambda>_. Some cb)) m) p (Some cb) xs"
proof (cases xs)
  case (Cons y ys)
  then show ?thesis using assms by (simp add: upd_node_same dll_upd_node image_iff)
qed simp

lemma StopCallback_ctor_implements:
  assumes "implements_state h p st" and "cbs h cb = None"
  shows "\<exists>h'. StopCallback_ctor cb (Some p) h = (Ok (), h') \<and> implements_state h' p (snd (StopCallback_new cb st)) \<and>
     elsewhere p h h' \<and> executed h' = executed h @ fst (StopCallback_new cb st) \<and> tokens h' = (tokens h)(cb \<mapsto> Some p)"
proof -
  note I = assms(1)[unfolded implements_state_def]
  have new: "cb \<notin> set (callbacks st)" using I assms(2) dll_token [of "cbs h" p None "callbacks st" cb] by auto
  let ?n = "\<lparr>cb_next = None, cb_prev = None, cb_token = Some p\<rparr>"
  let ?h = "h\<lparr>cbs := (cbs h)(cb \<mapsto> ?n)\<rparr>"
  have i: "implements_state ?h p st"
    using I new by (simp add: implements_state_def dll_update)
  show ?thesis
  proof (cases "cancelled st")
    case True
    let ?h' = "?h\<lparr>executed := executed h @ [cb]\<rparr>"
    have "implements_state ?h' p st" using i by (simp add: implements_state_def)
    from Unlink_implements [OF this, of cb ?n] obtain h2 where h2: "Unlink cb ?h' = (Ok (), h2)"
        "implements_state h2 p (StopCallback_delete cb st)" "elsewhere p ?h' h2" "executed h2 = executed ?h'" "tokens h2 = tokens ?h'"
      by auto
    have "StopCallback_delete cb st = st" using new by (simp add: StopCallback_delete_def remove1_idem)
    moreover have "elsewhere p h h2"
      by (rule elsewhere_trans [OF _ h2(3)]) (use assms(2) in \<open>simp add: elsewhere_def\<close>)
    moreover have "StopCallback_ctor cb (Some p) h = Unlink cb ?h'"
      using I True by (simp add: StopCallback_ctor_def exec_simps Execute_callback_def)
    ultimately show ?thesis using h2 True by (simp add: StopCallback_new_def)
  next
    case False
    let ?xs = "callbacks st"
    let ?m = "(upd_node (first ?xs) (cb_prev_update (\<lambda>_. Some cb)) (cbs h))(cb \<mapsto> ?n\<lparr>cb_next := first ?xs\<rparr>)"
    let ?h2 = "h\<lparr>cbs := ?m, states := (states h)(p \<mapsto> \<lparr>st_callbacks = Some cb, st_cancelled = False, st_ref_count = ref_count st\<rparr>)\<rparr>"
    have "\<exists>n. cbs h q = Some n" if "first ?xs = Some q" for q
      using that first_mem [OF that] I dll_token [of "cbs h" p None ?xs q] by auto
    then have "StopCallback_ctor cb (Some p) h = (Ok (), ?h2)"
      using I False new first_mem [of ?xs]
      by (cases "first ?xs") (auto simp: StopCallback_ctor_def exec_simps upd_node_def fun_upd_twist)
    moreover have "dll ?m p (Some cb) ?xs"
      using dll_cons [of "cbs h" p ?xs cb] I new by (simp add: dll_update)
    moreover have "cb_next n = None \<and> cb_prev n = None"
      if "?m x = Some n" "cb_token n = Some p" "x \<notin> set (cb # ?xs)" for x n
    proof -
      have "first ?xs \<noteq> Some x" using that(3) first_mem [of ?xs x] by auto
      then have "cbs h x = Some n" using that(1,3) by (simp add: upd_node_other)
      then show ?thesis using I that(2,3) by simp
    qed
    then have "implements_state ?h2 p (st\<lparr>callbacks := cb # ?xs\<rparr>)"
      using I False new \<open>dll ?m p (Some cb) ?xs\<close> by (auto simp: implements_state_def)
    moreover have "tokens ?h2 = (tokens h)(cb \<mapsto> Some p)"
      by (auto simp: tokens_def upd_node_def fun_eq_iff option.map_comp comp_def split: option.splits)
    moreover have "elsewhere p h ?h2"
    proof (rule elsewhereI)
      fix x n assume ch: "cbs ?h2 x \<noteq> cbs h x" and n: "cbs h x = Some n \<or> cbs ?h2 x = Some n"
      show "cb_token n = Some p"
      proof (cases "x = cb")
        case False
        then have "first ?xs = Some x" using ch by (auto simp: upd_node_def split: option.splits if_splits)
        then show ?thesis
          using n False I dll_token [of "cbs h" p None ?xs x] first_mem [of ?xs x] by (auto simp: upd_node_same)
      qed (use n assms(2) in auto)
    qed simp
    ultimately show ?thesis using False by (simp add: StopCallback_new_def)
  qed
qed

section \<open>The life of a state\<close>

text \<open>
  What a client may do with one state, counted by its handles: the sources and tokens, and the callbacks that are
  attached. A handle is needed to get a token, to attach a callback and to cancel.
\<close>

datatype stop_op = Copy | Drop | Attach nat | Detach nat | Cancel

record handles =
  h_state :: StopState
  h_refs :: nat
  h_attached :: "nat set"
  h_ran :: "nat list"

fun allowed :: "stop_op \<Rightarrow> handles \<Rightarrow> bool" where
  "allowed Copy a \<longleftrightarrow> 0 < h_refs a"
| "allowed Drop a \<longleftrightarrow> 0 < h_refs a"
| "allowed (Attach cb) a \<longleftrightarrow> 0 < h_refs a \<and> cb \<notin> h_attached a"
| "allowed (Detach cb) a \<longleftrightarrow> cb \<in> h_attached a"
| "allowed Cancel a \<longleftrightarrow> 0 < h_refs a"

fun stop_act :: "stop_op \<Rightarrow> handles \<Rightarrow> handles" where
  "stop_act Copy a = a\<lparr>h_refs := Suc (h_refs a)\<rparr>"
| "stop_act Drop a = a\<lparr>h_refs := h_refs a - 1\<rparr>"
| "stop_act (Attach cb) a = a\<lparr>h_state := snd (StopCallback_new cb (h_state a)), h_attached := insert cb (h_attached a),
     h_ran := h_ran a @ fst (StopCallback_new cb (h_state a))\<rparr>"
| "stop_act (Detach cb) a = a\<lparr>h_state := StopCallback_delete cb (h_state a), h_attached := h_attached a - {cb}\<rparr>"
| "stop_act Cancel a = a\<lparr>h_state := snd (StopSource_Stop (h_state a)), h_ran := h_ran a @ fst (StopSource_Stop (h_state a))\<rparr>"

primrec allowed_all :: "stop_op list \<Rightarrow> handles \<Rightarrow> bool" where
  "allowed_all [] a = True"
| "allowed_all (x # xs) a \<longleftrightarrow> allowed x a \<and> allowed_all xs (stop_act x a)"

text \<open>The same on the heap.\<close>

fun stop_step :: "nat \<Rightarrow> stop_op \<Rightarrow> stop_heap \<Rightarrow> ((unit, panic) Result \<times> stop_heap) option" where
  "stop_step p Copy h = Some (bind (StopToken_copy (Some p)) (\<lambda>_. ret ()) h)"
| "stop_step p Drop h = Some (StopToken_dtor (Some p) h)"
| "stop_step p (Attach cb) h = Some (bind (GetToken (Some p)) (StopCallback_ctor cb) h)"
| "stop_step p (Detach cb) h = Some (StopCallback_dtor cb h)"
| "stop_step p Cancel h = Stop (Some p) h"

primrec stop_steps :: "nat \<Rightarrow> stop_op list \<Rightarrow> stop_heap \<Rightarrow> ((unit, panic) Result \<times> stop_heap) option" where
  "stop_steps p [] h = Some (Ok (), h)"
| "stop_steps p (x # xs) h =
     (case stop_step p x h of Some (Ok _, h) \<Rightarrow> stop_steps p xs h | r \<Rightarrow> r)"

definition handle_count :: "handles \<Rightarrow> nat" where
  "handle_count a = h_refs a + card (h_attached a)"

definition lifetime :: "stop_heap \<Rightarrow> nat \<Rightarrow> handles \<Rightarrow> bool" where
  "lifetime h p a \<longleftrightarrow> finite (h_attached a) \<and> executed h = h_ran a \<and>
     tokens h = (\<lambda>x. if x \<in> h_attached a then Some (Some p) else None) \<and>
     (if handle_count a = 0 then states h p = None
      else implements_state h p (h_state a\<lparr>ref_count := handle_count a\<rparr>))"

lemma list_ops_count:
  "snd (StopCallback_new cb (st\<lparr>ref_count := k\<rparr>)) = (snd (StopCallback_new cb st))\<lparr>ref_count := k\<rparr>"
  "fst (StopCallback_new cb (st\<lparr>ref_count := k\<rparr>)) = fst (StopCallback_new cb st)"
  "StopCallback_delete cb (st\<lparr>ref_count := k\<rparr>) = (StopCallback_delete cb st)\<lparr>ref_count := k\<rparr>"
  "st\<lparr>ref_count := k, cancelled := True, callbacks := []\<rparr> = (snd (StopSource_Stop st))\<lparr>ref_count := k\<rparr>"
  by (cases st; simp add: StopCallback_new_def StopCallback_delete_def StopSource_Stop_def)+

lemma lifetimeD:
  assumes "lifetime h p a"
  shows "finite (h_attached a)" and "executed h = h_ran a" and "tokens h = (\<lambda>x. if x \<in> h_attached a then Some (Some p) else None)"
    and "0 < handle_count a \<Longrightarrow> implements_state h p (h_state a\<lparr>ref_count := handle_count a\<rparr>)"
  using assms by (auto simp: lifetime_def)

lemma Ref_implements:
  assumes "implements_state h p (st\<lparr>ref_count := k\<rparr>)" and "k < u64_max"
  obtains h' where "Ref p h = (Ok (), h')" and "implements_state h' p (st\<lparr>ref_count := Suc k\<rparr>)" and "tokens h' = tokens h"
    and "executed h' = executed h" and "cbs h' = cbs h"
proof -
  let ?h = "h\<lparr>states := (states h)(p \<mapsto> \<lparr>st_callbacks = first (callbacks st), st_cancelled = cancelled st, st_ref_count = Suc k\<rparr>)\<rparr>"
  have "Ref p h = (Ok (), ?h)"
    using assms by (simp add: Ref_def exec_simps implements_state_def u64_inc_exact)
  then show ?thesis
    using implements_count [OF assms(1), of "Suc k"] by (intro that [of ?h]) simp_all
qed

lemma UnRef_run:
  assumes "implements_state h p (st\<lparr>ref_count := Suc k\<rparr>)" and "k < u64_max"
  obtains h' where "UnRef p h = (Ok (), h')" and "tokens h' = tokens h" and "executed h' = executed h" and "cbs h' = cbs h"
    and "if k = 0 then states h' p = None else implements_state h' p (st\<lparr>ref_count := k\<rparr>)"
proof -
  have dec: "u64_dec (Suc k) = k" using assms(2) by (simp add: u64_dec_exact)
  let ?st = "if k = 0 then None else Some \<lparr>st_callbacks = first (callbacks st), st_cancelled = cancelled st, st_ref_count = k\<rparr>"
  let ?h = "h\<lparr>states := (states h)(p := ?st)\<rparr>"
  have "UnRef p h = (Ok (), ?h)"
    using assms(1) by (simp add: UnRef_def exec_simps implements_state_def dec)
  then show ?thesis
    using implements_count [OF assms(1), of k] by (intro that [of ?h]) simp_all
qed

lemma lifetime_Copy:
  assumes "lifetime h p a" and "0 < h_refs a" and "handle_count a < u64_max"
  obtains h' where "stop_step p Copy h = Some (Ok (), h')" and "lifetime h' p (stop_act Copy a)"
proof -
  from lifetimeD(4) [OF assms(1)] assms(2) obtain h' where "Ref p h = (Ok (), h')"
      "implements_state h' p (h_state a\<lparr>ref_count := Suc (handle_count a)\<rparr>)" "tokens h' = tokens h" "executed h' = executed h"
    using Ref_implements [where h = h and p = p and st = "h_state a" and k = "handle_count a"] assms(3) by (auto simp: handle_count_def)
  then show ?thesis
    using lifetimeD(1-3) [OF assms(1)]
    by (intro that [of h']) (simp_all add: StopToken_copy_def StopToken_ctor_def exec_simps lifetime_def handle_count_def)
qed

lemma lifetime_Drop:
  assumes "lifetime h p a" and "0 < h_refs a" and "handle_count a < u64_max"
  obtains h' where "stop_step p Drop h = Some (Ok (), h')" and "lifetime h' p (stop_act Drop a)"
proof -
  obtain k where k: "handle_count a = Suc k" "handle_count (stop_act Drop a) = k"
    using assms(2) by (cases "h_refs a") (simp_all add: handle_count_def)
  have i: "implements_state h p (h_state a\<lparr>ref_count := Suc k\<rparr>)" and lt: "k < u64_max"
    using lifetimeD(4) [OF assms(1)] k(1) assms(3) by simp_all
  from UnRef_run [OF i lt] obtain h' where "UnRef p h = (Ok (), h')" "tokens h' = tokens h" "executed h' = executed h"
      "if k = 0 then states h' p = None else implements_state h' p (h_state a\<lparr>ref_count := k\<rparr>)"
    by blast
  then show ?thesis
    using lifetimeD(1-3) [OF assms(1)] k(2)
    by (intro that [of h']) (simp_all add: StopToken_dtor_def lifetime_def)
qed

lemma lifetime_Attach:
  assumes "lifetime h p a" and "0 < h_refs a" and "cb \<notin> h_attached a" and "handle_count a < u64_max"
  obtains h' where "stop_step p (Attach cb) h = Some (Ok (), h')" and "lifetime h' p (stop_act (Attach cb) a)"
proof -
  from lifetimeD(4) [OF assms(1)] assms(2) obtain h1 where h1: "Ref p h = (Ok (), h1)"
      "implements_state h1 p (h_state a\<lparr>ref_count := Suc (handle_count a)\<rparr>)" "tokens h1 = tokens h" "executed h1 = executed h" "cbs h1 = cbs h"
    using Ref_implements [where h = h and p = p and st = "h_state a" and k = "handle_count a"] assms(4) by (auto simp: handle_count_def)
  have "tokens h cb = None" using lifetimeD(3) [OF assms(1)] assms(3) by simp
  then have "cbs h1 cb = None" using h1(5) by (simp add: tokens_def)
  from StopCallback_ctor_implements [OF h1(2) this] obtain h2 where h2: "StopCallback_ctor cb (Some p) h1 = (Ok (), h2)"
      "implements_state h2 p (snd (StopCallback_new cb (h_state a\<lparr>ref_count := Suc (handle_count a)\<rparr>)))"
      "executed h2 = executed h1 @ fst (StopCallback_new cb (h_state a\<lparr>ref_count := Suc (handle_count a)\<rparr>))"
      "tokens h2 = (tokens h1)(cb \<mapsto> Some p)" by auto
  have "handle_count (stop_act (Attach cb) a) = Suc (handle_count a)"
    using lifetimeD(1) [OF assms(1)] assms(3) by (simp add: handle_count_def)
  then show ?thesis
    using lifetimeD(1-3) [OF assms(1)] h1 h2
    by (intro that [of h2]) (auto simp: GetToken_def StopToken_ctor_def exec_simps lifetime_def list_ops_count)
qed

lemma lifetime_Detach:
  assumes "lifetime h p a" and "cb \<in> h_attached a" and "handle_count a < u64_max"
  obtains h' where "stop_step p (Detach cb) h = Some (Ok (), h')" and "lifetime h' p (stop_act (Detach cb) a)"
proof -
  have "0 < card (h_attached a)" using lifetimeD(1) [OF assms(1)] assms(2) card_gt_0_iff by blast
  then obtain k where k: "handle_count a = Suc k" "handle_count (stop_act (Detach cb) a) = k"
    using lifetimeD(1) [OF assms(1)] assms(2) by (cases "card (h_attached a)") (simp_all add: handle_count_def)
  have i: "implements_state h p (h_state a\<lparr>ref_count := Suc k\<rparr>)" and lt: "k < u64_max"
    using lifetimeD(4) [OF assms(1)] k(1) assms(3) by simp_all
  obtain n where n: "cbs h cb = Some n" "cb_token n = Some p"
    using lifetimeD(3) [OF assms(1)] assms(2) by (auto simp: tokens_def fun_eq_iff split: if_splits)
  from Unlink_implements [OF i n] obtain h1 where h1: "Unlink cb h = (Ok (), h1)"
      "implements_state h1 p (StopCallback_delete cb (h_state a)\<lparr>ref_count := Suc k\<rparr>)" "executed h1 = executed h" "tokens h1 = tokens h"
    by (auto simp: list_ops_count)
  from UnRef_run [OF h1(2) lt] obtain h2 where h2: "UnRef p h1 = (Ok (), h2)" "tokens h2 = tokens h1" "executed h2 = executed h1" "cbs h2 = cbs h1"
      "if k = 0 then states h2 p = None else implements_state h2 p (StopCallback_delete cb (h_state a)\<lparr>ref_count := k\<rparr>)"
    by blast
  let ?h = "h2\<lparr>cbs := (cbs h2)(cb := None)\<rparr>"
  have "implements_state ?h p (StopCallback_delete cb (h_state a)\<lparr>ref_count := k\<rparr>)" if "k \<noteq> 0"
    using h2(5) that i by (auto simp: implements_state_def StopCallback_delete_def dll_update)
  then show ?thesis
    using lifetimeD(1-3) [OF assms(1)] h1 h2(1-3,5) n k(2)
    by (intro that [of ?h]) (auto simp: StopCallback_dtor_def StopToken_dtor_def exec_simps lifetime_def)
qed

lemma lifetime_Cancel:
  assumes "lifetime h p a" and "0 < h_refs a"
  obtains h' where "stop_step p Cancel h = Some (Ok (), h')" and "lifetime h' p (stop_act Cancel a)"
proof -
  let ?st = "h_state a\<lparr>ref_count := handle_count a\<rparr>"
  let ?h = "h\<lparr>states := (states h)(p \<mapsto> \<lparr>st_callbacks = first (callbacks (h_state a)), st_cancelled = True, st_ref_count = handle_count a\<rparr>)\<rparr>"
  have i: "implements_state h p ?st" and pos: "0 < handle_count a"
    using lifetimeD(4) [OF assms(1)] assms(2) by (simp_all add: handle_count_def)
  then have "implements_state ?h p (?st\<lparr>cancelled := True\<rparr>)" by (simp add: implements_state_def)
  from Stop_loop_implements [OF this] obtain h' where h': "Stop_loop p ?h = Some (Ok (), h')"
      "implements_state h' p ((snd (StopSource_Stop (h_state a)))\<lparr>ref_count := handle_count a\<rparr>)"
      "executed h' = executed ?h @ callbacks (h_state a)" "tokens h' = tokens ?h"
    by (auto simp: list_ops_count)
  moreover have "stop_step p Cancel h = Stop_loop p ?h"
    using i by (simp add: Stop_def exec_simps implements_state_def)
  ultimately show ?thesis
    using lifetimeD(1-3) [OF assms(1)] pos assms(2)
    by (intro that [of h']) (simp_all add: lifetime_def StopSource_Stop_def handle_count_def)
qed

lemma lifetime_step:
  assumes "lifetime h p a" and "allowed x a" and "handle_count a < u64_max"
  shows "\<exists>h'. stop_step p x h = Some (Ok (), h') \<and> lifetime h' p (stop_act x a)"
proof (cases x)
  case Copy
  then show ?thesis using assms(2,3) lifetime_Copy [OF assms(1)] by simp blast
next
  case Drop
  then show ?thesis using assms(2,3) lifetime_Drop [OF assms(1)] by simp blast
next
  case (Attach cb)
  then show ?thesis using assms(2,3) lifetime_Attach [OF assms(1)] by simp blast
next
  case (Detach cb)
  then show ?thesis using assms(2,3) lifetime_Detach [OF assms(1)] by simp blast
next
  case Cancel
  then show ?thesis using assms(2) lifetime_Cancel [OF assms(1)] by simp blast
qed

lemma handle_count_act: "finite (h_attached a) \<Longrightarrow> handle_count (stop_act x a) \<le> Suc (handle_count a)"
  by (cases x) (auto simp: handle_count_def card_insert_if card_Diff_singleton_if)

lemma lifetime_steps:
  assumes "lifetime h p a" and "allowed_all xs a" and "handle_count a + length xs \<le> u64_max"
  shows "\<exists>h'. stop_steps p xs h = Some (Ok (), h') \<and> lifetime h' p (fold stop_act xs a)"
  using assms
proof (induction xs arbitrary: h a)
  case (Cons x xs)
  then have "allowed x a" "handle_count a < u64_max" by simp_all
  from lifetime_step [OF Cons.prems(1) this] obtain h1 where h1: "stop_step p x h = Some (Ok (), h1)" "lifetime h1 p (stop_act x a)"
    by blast
  have "handle_count (stop_act x a) + length xs \<le> u64_max"
    using handle_count_act [OF lifetimeD(1) [OF Cons.prems(1)], of x] Cons.prems(3) by simp
  from Cons.IH [OF h1(2) _ this] Cons.prems(2) h1(1) show ?case by simp
qed simp

definition empty_heap :: stop_heap where
  "empty_heap = \<lparr>states = (\<lambda>_. None), cbs = (\<lambda>_. None), new_state = 0, executed = []\<rparr>"

definition one_source :: handles where
  "one_source = \<lparr>h_state = new_StopState, h_refs = 1, h_attached = {}, h_ran = []\<rparr>"

lemma lifetime_start:
  "fst (StopSource_ctor empty_heap) = Ok (Some 0)" "lifetime (snd (StopSource_ctor empty_heap)) 0 one_source"
  by (simp_all add: StopSource_ctor_def Ref_def exec_simps empty_heap_def one_source_def lifetime_def handle_count_def
      implements_state_def new_StopState_def tokens_def fun_eq_iff u64_inc_exact u64_max_def)

text \<open>
  C28. A stop source, its tokens and its callbacks, used in any order by a client that uses only what it holds:
  no operation reads a deleted state, the loop of Stop ends each time, the callbacks run are those that the list of registered
  callbacks prescribes, each at most once and the newest first, and the state is deleted exactly when the last handle to it goes.
\<close>

theorem stop_state_lifetime:
  assumes "allowed_all ops one_source" and "length ops < u64_max"
  shows "\<exists>h. stop_steps 0 ops (snd (StopSource_ctor empty_heap)) = Some (Ok (), h) \<and>
     executed h = h_ran (fold stop_act ops one_source) \<and>
     (states h 0 = None \<longleftrightarrow> handle_count (fold stop_act ops one_source) = 0) \<and>
     (0 < handle_count (fold stop_act ops one_source) \<longrightarrow> implements_state h 0
        ((h_state (fold stop_act ops one_source))\<lparr>ref_count := handle_count (fold stop_act ops one_source)\<rparr>))"
proof -
  have "handle_count one_source + length ops \<le> u64_max"
    using assms(2) by (simp add: handle_count_def one_source_def)
  from lifetime_steps [OF lifetime_start(2) assms(1) this] obtain h
    where h: "stop_steps 0 ops (snd (StopSource_ctor empty_heap)) = Some (Ok (), h)" "lifetime h 0 (fold stop_act ops one_source)"
    by blast
  then show ?thesis by (intro exI [of _ h]) (auto simp: lifetime_def implements_state_def split: if_splits)
qed

definition sample_stop_ops :: "stop_op list" where
  "sample_stop_ops = [Attach 1, Attach 2, Copy, Attach 3, Detach 2, Cancel, Attach 4, Drop, Detach 1, Drop, Detach 3]"

theorem stop_state_lifetime_witness:
  "\<exists>h. stop_steps 0 sample_stop_ops (snd (StopSource_ctor empty_heap)) = Some (Ok (), h) \<and> executed h = [3, 1, 4] \<and> states h 0 \<noteq> None"
proof -
  have "allowed_all sample_stop_ops one_source" "length sample_stop_ops < u64_max"
    by (simp_all add: sample_stop_ops_def one_source_def new_StopState_def StopCallback_new_def StopCallback_delete_def
        StopSource_Stop_def u64_max_def)
  note stop_state_lifetime [OF this]
  moreover have "h_ran (fold stop_act sample_stop_ops one_source) = [3, 1, 4]" "handle_count (fold stop_act sample_stop_ops one_source) = 1"
    by (simp_all add: sample_stop_ops_def one_source_def new_StopState_def StopCallback_new_def StopCallback_delete_def
        StopSource_Stop_def handle_count_def)
  ultimately show ?thesis by auto
qed

end
