(* ===== verification/Text.thy ===== *)
theory Text
  imports Results
begin

text \<open>
  Text as the standard library prints and reads it: decimal and hexadecimal numbers, padding, white
  space and the extraction of words and numbers from a stream. It is used by the printing and parsing functions of
  theory Utilities and by the code generators.

  Shown here: what is printed in decimal is read back.
\<close>

section \<open>Printing\<close>

definition digit :: "nat \<Rightarrow> char" where
  "digit n = char_of (48 + n)"

fun to_string :: "nat \<Rightarrow> string" where
  "to_string n = (if n < 10 then [digit n] else to_string (n div 10) @ [digit (n mod 10)])"

declare to_string.simps [simp del]

definition to_string_int :: "int \<Rightarrow> string" where
  "to_string_int i = (if i < 0 then ''-'' @ to_string (nat (- i)) else to_string (nat i))"

text \<open>\<^verbatim>\<open>setfill('0')\<close> with \<^verbatim>\<open>setw\<close>.\<close>

definition setw :: "nat \<Rightarrow> string \<Rightarrow> string" where
  "setw k s = replicate (k - length s) (CHR ''0'') @ s"

definition hex_digit :: "nat \<Rightarrow> char" where
  "hex_digit n = (if n < 10 then char_of (48 + n) else char_of (87 + n))"

fun to_hex :: "nat \<Rightarrow> string" where
  "to_hex n = (if n < 16 then [hex_digit n] else to_hex (n div 16) @ [hex_digit (n mod 16)])"

declare to_hex.simps [simp del]

section \<open>Reading\<close>

definition is_digit :: "char \<Rightarrow> bool" where
  "is_digit c \<longleftrightarrow> (48 :: nat) \<le> of_char c \<and> of_char c \<le> (57 :: nat)"

definition is_space :: "char \<Rightarrow> bool" where
  "is_space c \<longleftrightarrow> of_char c = (32 :: nat) \<or> ((9 :: nat) \<le> of_char c \<and> of_char c \<le> (13 :: nat))"

definition read_dec :: "string \<Rightarrow> nat" where
  "read_dec s = foldl (\<lambda>n c. 10 * n + (of_char c - 48)) 0 s"

definition skip_space :: "string \<Rightarrow> string" where
  "skip_space s = dropWhile is_space s"

text \<open>An optional sign, then digits: the sign, the digits and what follows them.\<close>

definition read_sign :: "string \<Rightarrow> bool \<times> string" where
  "read_sign s =
     (case s of
        [] \<Rightarrow> (False, s)
      | c # cs \<Rightarrow> if c = CHR ''-'' then (True, cs) else if c = CHR ''+'' then (False, cs) else (False, s))"

definition read_number :: "string \<Rightarrow> bool \<times> string \<times> string" where
  "read_number s =
     (let (neg, cs) = read_sign (skip_space s)
      in (neg, takeWhile is_digit cs, dropWhile is_digit cs))"

text \<open>
  \<^verbatim>\<open>std::stoi\<close>: what follows the digits is ignored; it throws when there are no digits or the
  value is no \<^verbatim>\<open>int\<close>.
\<close>

datatype exception = invalid_argument string | out_of_range string

definition stoi :: "string \<Rightarrow> (int, exception) Result" where
  "stoi s =
     (let (neg, ds, rest) = read_number s; v = int (read_dec ds)
      in if ds = [] then Err (invalid_argument ''stoi'')
         else if neg then (if v \<le> 2 ^ 31 then Ok (- v) else Err (out_of_range ''stoi''))
         else if v < 2 ^ 31 then Ok v else Err (out_of_range ''stoi''))"

text \<open>
  Extraction of a \<^verbatim>\<open>uint64_t\<close> from a stream. The result is the value, the rest of the
  input, and whether the stream is still good: it is not when there was no number, when the number does not fit,
  or when the input is used up.
\<close>

definition extract_u64 :: "string \<Rightarrow> nat \<times> string \<times> bool" where
  "extract_u64 s =
     (let (neg, ds, rest) = read_number s; v = read_dec ds
      in if ds = [] then (0, rest, False)
         else if v > u64_max then (u64_max, rest, False)
         else (if neg then u64_sub 0 v else v, rest, rest \<noteq> []))"

text \<open>Extraction of a word; nothing is read from a stream that is not good.\<close>

definition extract_word :: "string \<times> bool \<Rightarrow> string" where
  "extract_word = (\<lambda>(s, good). if good then takeWhile (\<lambda>c. \<not> is_space c) (skip_space s) else [])"

section \<open>What is printed is read back\<close>

lemma is_digit_digit: "n < 10 \<Longrightarrow> is_digit (digit n)"
  by (simp add: is_digit_def digit_def)

lemma digit_value: "n < 10 \<Longrightarrow> of_char (digit n) - 48 = (n :: nat)"
  by (simp add: digit_def)

lemma read_dec_snoc: "read_dec (s @ [c]) = 10 * read_dec s + (of_char c - 48)"
  by (simp add: read_dec_def)

lemma read_dec_single: "read_dec [c] = of_char c - 48"
  by (simp add: read_dec_def)

lemma read_dec_to_string [simp]: "read_dec (to_string n) = n"
proof (induction n rule: to_string.induct)
  case (1 n)
  show ?case
  proof (cases "n < 10")
    case True
    then show ?thesis by (subst to_string.simps) (simp add: read_dec_single digit_value)
  next
    case False
    then have "read_dec (to_string n) = 10 * (n div 10) + n mod 10"
      using 1 by (subst to_string.simps) (simp add: read_dec_snoc digit_value)
    then show ?thesis by simp
  qed
qed

lemma digits_to_string: "c \<in> set (to_string n) \<Longrightarrow> is_digit c"
proof (induction n rule: to_string.induct)
  case (1 n)
  then show ?case
    using to_string.simps [of n] by (cases "n < 10") (auto simp: is_digit_digit)
qed

lemma to_string_not_Nil [simp]: "to_string n \<noteq> []"
  by (subst to_string.simps) simp

lemma to_string_inject [simp]: "to_string m = to_string n \<longleftrightarrow> m = n"
  by (metis read_dec_to_string)

lemma digit_not_special:
  assumes "is_digit c"
  shows "c \<noteq> CHR '':''" and "c \<noteq> CHR ''-''" and "c \<noteq> CHR ''+''" and "\<not> is_space c"
  using assms by (auto simp: is_digit_def is_space_def)

lemma hd_digits: "\<exists>c cs. to_string n = c # cs \<and> is_digit c"
  using digits_to_string [of _ n] by (cases "to_string n") auto

lemma read_number_to_string:
  assumes "rest = [] \<or> \<not> is_digit (hd rest)"
  shows "read_number (to_string n @ rest) = (False, to_string n, rest)"
proof -
  obtain c cs where c: "to_string n = c # cs" "is_digit c" using hd_digits by blast
  have "skip_space (to_string n @ rest) = to_string n @ rest"
    using c digit_not_special [OF c(2)] by (simp add: skip_space_def)
  moreover have "read_sign (to_string n @ rest) = (False, to_string n @ rest)"
    using c digit_not_special [OF c(2)] by (simp add: read_sign_def)
  moreover have "takeWhile is_digit (to_string n @ rest) = to_string n" "dropWhile is_digit (to_string n @ rest) = rest"
    using digits_to_string [of _ n] assms by (cases rest; auto simp: takeWhile_append dropWhile_append)+
  ultimately show ?thesis by (simp add: read_number_def)
qed

lemma stoi_to_string: "n < 2 ^ 31 \<Longrightarrow> stoi (to_string n) = Ok (int n)"
  using read_number_to_string [of "[]" n] by (simp add: stoi_def)

lemma extract_u64_to_string:
  assumes "n \<le> u64_max" and "rest \<noteq> []" and "\<not> is_digit (hd rest)"
  shows "extract_u64 (to_string n @ rest) = (n, rest, True)"
  using read_number_to_string [of rest n] assms by (simp add: extract_u64_def)

lemma length_setw: "k \<le> length (setw k s)"
  by (simp add: setw_def)

end
