(* ===== verification/Utilities.thy ===== *)
theory Utilities
  imports Text "HOL-Library.Code_Target_Nat"
begin

text \<open>
  The utilities of the runtime: durations and their printing (\<^verbatim>\<open>chrono.cpp\<close>), endpoints
  (\<^verbatim>\<open>endpoint.cpp\<close>), the parsers of command-line values (\<^verbatim>\<open>parse.cpp\<close>), MD5 digests as
  text (\<^verbatim>\<open>md5.cpp\<close>), random values (\<^verbatim>\<open>random.cpp\<close>), exponential backoff (\<^verbatim>\<open>backoff.cpp\<close>) and binary search
  (\<^verbatim>\<open>util/binary_search.h\<close>).

  A duration is a count of microseconds in a signed 64-bit integer, here an \<open>int\<close>. The random distributions of
  the standard library are parameters; a generator is whatever they take and return. The product of a count and a
  \<^verbatim>\<open>double\<close> in the backoff is a parameter as well.
\<close>

section \<open>Durations\<close>

type_synonym Duration = int

record Interval =
  ival_from :: Duration
  ival_to :: Duration

text \<open>Division and remainder truncate towards zero.\<close>

definition quot :: "int \<Rightarrow> int \<Rightarrow> int" where
  "quot a b = sgn a * (\<bar>a\<bar> div b)"

definition rem :: "int \<Rightarrow> int \<Rightarrow> int" where
  "rem a b = a - b * quot a b"

definition Duration_ToString :: "Duration \<Rightarrow> string" where
  "Duration_ToString duration =
     (let us = rem duration 1000;
          ms = rem (quot duration 1000) 1000;
          sec = rem (quot (quot duration 1000) 1000) 60;
          min = rem (quot (quot (quot duration 1000) 1000) 60) 60;
          hours = quot (quot (quot (quot duration 1000) 1000) 60) 60
      in ''['' @ setw 2 (to_string_int hours) @ '':'' @ setw 2 (to_string_int min) @ '':'' @
         setw 2 (to_string_int sec) @ ''.'' @ setw 3 (to_string_int ms) @ ''.'' @ setw 3 (to_string_int us) @ '']'')"

section \<open>Endpoints\<close>

record Endpoint =
  address :: string
  port :: nat

definition Endpoint_ToString :: "Endpoint \<Rightarrow> string" where
  "Endpoint_ToString e = address e @ '':'' @ to_string (port e)"

section \<open>Parsing\<close>

text \<open>The position of the last or first occurrence of a character.\<close>

definition find_first_of :: "char \<Rightarrow> string \<Rightarrow> nat option" where
  "find_first_of c s = (let k = length (takeWhile (\<lambda>x. x \<noteq> c) s) in if k < length s then Some k else None)"

definition find_last_of :: "char \<Rightarrow> string \<Rightarrow> nat option" where
  "find_last_of c s = map_option (\<lambda>k. length s - Suc k) (find_first_of c (rev s))"

definition parse_Endpoint :: "string \<Rightarrow> (Endpoint, exception) Result" where
  "parse_Endpoint str =
     (case find_last_of (CHR '':'') str of
        None \<Rightarrow> Err (invalid_argument ''invalid endpoint format'')
      | Some pos \<Rightarrow>
          let port_str = drop (Suc pos) str in
          (case stoi port_str of
             Err e \<Rightarrow> Err e
           | Ok p \<Rightarrow>
               if p < 0 \<or> p > 65535 then Err (invalid_argument (''invalid port: '' @ port_str))
               else Ok \<lparr>address = take pos str, port = nat p\<rparr>))"

definition kSuffix :: "(string \<times> nat) list" where
  "kSuffix = [(''us'', 1), (''ms'', 1000), (''s'', 1000000), (''m'', 60 * 1000000), (''h'', 60 * 60 * 1000000)]"

text \<open>The product is computed in 64 unsigned bits and then taken as a signed value.\<close>

definition to_i64 :: "nat \<Rightarrow> int" where
  "to_i64 n = (if n < 2 ^ 63 then int n else int n - 2 ^ 64)"

definition parse_Duration :: "string \<Rightarrow> (Duration, exception) Result" where
  "parse_Duration str =
     (let (v, rest, good) = extract_u64 str;
          suffix = extract_word (rest, good)
      in case map_of kSuffix suffix of
           None \<Rightarrow> Err (invalid_argument (''invalid duration suffix: '' @ suffix))
         | Some unit \<Rightarrow> Ok (to_i64 (v * unit mod 2 ^ 64)))"

definition parse_Interval :: "string \<Rightarrow> (Interval, exception) Result" where
  "parse_Interval str =
     (case find_first_of (CHR ''-'') str of
        None \<Rightarrow> Err (invalid_argument ''invalid duration interval format'')
      | Some pos \<Rightarrow>
          (case parse_Duration (take pos str) of
             Err e \<Rightarrow> Err e
           | Ok from \<Rightarrow>
               (case parse_Duration (drop (Suc pos) str) of
                  Err e \<Rightarrow> Err e
                | Ok to \<Rightarrow> Ok \<lparr>ival_from = from, ival_to = to\<rparr>)))"

section \<open>MD5 digests\<close>

text \<open>The digest function of OpenSSL is a parameter; a digest is a list of 16 bytes.\<close>

definition ComputeMd5Hash :: "(string \<Rightarrow> nat list) \<Rightarrow> string \<Rightarrow> nat list" where
  "ComputeMd5Hash MD5 data = MD5 data"

definition MD5Hash_ToString :: "nat list \<Rightarrow> string" where
  "MD5Hash_ToString digest = concat (map (\<lambda>b. setw 2 (to_hex b)) digest)"

section \<open>Random values\<close>

definition GetRandomDuration :: "(int \<Rightarrow> int \<Rightarrow> 'g \<Rightarrow> int \<times> 'g) \<Rightarrow> Interval \<Rightarrow> 'g \<Rightarrow> Duration \<times> 'g" where
  "GetRandomDuration uniform_int interval gen = uniform_int (ival_from interval) (ival_to interval) gen"

definition GetRandomInt :: "(nat \<Rightarrow> nat \<Rightarrow> 'g \<Rightarrow> nat \<times> 'g) \<Rightarrow> nat \<Rightarrow> nat \<Rightarrow> 'g \<Rightarrow> nat \<times> 'g" where
  "GetRandomInt uniform_int from to gen = uniform_int from to gen"

definition GetRandomFloat :: "('d \<Rightarrow> 'd \<Rightarrow> 'g \<Rightarrow> 'd \<times> 'g) \<Rightarrow> 'd \<Rightarrow> 'd \<Rightarrow> 'g \<Rightarrow> 'd \<times> 'g" where
  "GetRandomFloat uniform_real from to gen = uniform_real from to gen"

definition GetProbability :: "('d :: zero_neq_one \<Rightarrow> 'd \<Rightarrow> 'g \<Rightarrow> 'd \<times> 'g) \<Rightarrow> 'g \<Rightarrow> 'd \<times> 'g" where
  "GetProbability uniform_real gen = GetRandomFloat uniform_real 0 1 gen"

section \<open>Backoff\<close>

record 'f BackoffParams =
  initial :: Duration
  max_wait :: Duration
  factor :: 'f

record 'f Backoff =
  params :: "'f BackoffParams"
  current :: Duration

definition mk_Backoff :: "'f BackoffParams \<Rightarrow> 'f Backoff" where
  "mk_Backoff p = \<lparr>params = p, current = initial p\<rparr>"

definition Backoff_Next ::
  "(int \<Rightarrow> int \<Rightarrow> 'g \<Rightarrow> int \<times> 'g) \<Rightarrow> (int \<Rightarrow> 'f \<Rightarrow> int) \<Rightarrow> 'f Backoff \<Rightarrow> 'g \<Rightarrow> Duration \<times> 'f Backoff \<times> 'g" where
  "Backoff_Next uniform_int mult b gen =
     (let (result, gen') = uniform_int 0 (current b) gen
      in (result, b\<lparr>current := min (max_wait (params b)) (mult (current b) (factor (params b)))\<rparr>, gen'))"

section \<open>Binary search\<close>

function BinarySearch :: "nat \<Rightarrow> nat \<Rightarrow> (nat \<Rightarrow> bool) \<Rightarrow> nat" where
  "BinarySearch b e predicate =
     (if b < e
      then let middle = b + (e - b) div 2
           in if predicate middle then BinarySearch b middle predicate else BinarySearch (Suc middle) e predicate
      else b)"
  by pat_completeness auto
termination
  by (relation "measure (\<lambda>(b, e, _). e - b)") auto

declare BinarySearch.simps [simp del]

text \<open>The same loop over a predicate that may panic.\<close>

function BinarySearch_checked :: "nat \<Rightarrow> nat \<Rightarrow> (nat \<Rightarrow> (bool, panic) Result) \<Rightarrow> (nat, panic) Result" where
  "BinarySearch_checked b e predicate =
     (if b < e
      then let middle = b + (e - b) div 2
           in AndThen (predicate middle) (\<lambda>found.
              if found then BinarySearch_checked b middle predicate else BinarySearch_checked (Suc middle) e predicate)
      else Ok b)"
  by pat_completeness auto
termination
  by (relation "measure (\<lambda>(b, e, _). e - b)") auto

declare BinarySearch_checked.simps [simp del]

lemma BinarySearch_checked_ok:
  assumes "\<And>i. b \<le> i \<Longrightarrow> i < e \<Longrightarrow> predicate i = Ok (P i)"
  shows "BinarySearch_checked b e predicate = Ok (BinarySearch b e P)"
  using assms
proof (induction b e P rule: BinarySearch.induct)
  case (1 b e P)
  show ?case
  proof (cases "b < e")
    case True
    then have m: "predicate (b + (e - b) div 2) = Ok (P (b + (e - b) div 2))" by (intro "1.prems") auto
    show ?thesis
      using True m "1.IH" "1.prems" by (subst BinarySearch_checked.simps, subst BinarySearch.simps) (auto simp: Let_def)
  next
    case False
    then show ?thesis by (subst BinarySearch_checked.simps, subst BinarySearch.simps) simp
  qed
qed

section \<open>Facts on durations\<close>

lemma quot_nonneg: "0 \<le> a \<Longrightarrow> 0 < b \<Longrightarrow> quot a b = a div b"
  by (cases "a = 0") (simp_all add: quot_def)

lemma rem_nonneg: "0 \<le> a \<Longrightarrow> 0 < b \<Longrightarrow> rem a b = a mod b"
  by (simp add: rem_def quot_nonneg minus_mult_div_eq_mod)

lemma quot_quot: "0 \<le> d \<Longrightarrow> 0 < a \<Longrightarrow> 0 < b \<Longrightarrow> quot (quot d a) b = d div (a * b)"
  by (simp add: quot_nonneg pos_imp_zdiv_nonneg_iff zdiv_zmult2_eq)

lemma to_string_short: "n < 10 ^ Suc k \<Longrightarrow> length (to_string n) \<le> Suc k"
proof (induction k arbitrary: n)
  case 0
  then show ?case by (subst to_string.simps) simp
next
  case (Suc k)
  show ?case
  proof (cases "n < 10")
    case True
    then show ?thesis by (subst to_string.simps) simp
  next
    case False
    have "n div 10 < 10 ^ Suc k" using Suc.prems by (simp add: less_mult_imp_div_less)
    from Suc.IH [OF this] False show ?thesis by (subst to_string.simps) simp
  qed
qed

lemma length_setw_to_string: "0 < k \<Longrightarrow> n < 10 ^ k \<Longrightarrow> length (setw k (to_string n)) = k"
  using to_string_short [of n "k - 1"] by (simp add: setw_def)

lemma read_dec_setw: "read_dec (setw k s) = read_dec s"
proof -
  have zeros: "foldl (\<lambda>n c. 10 * n + (of_char c - 48)) 0 (replicate m (CHR ''0'')) = (0 :: nat)" for m
    by (induction m) simp_all
  show ?thesis by (simp add: read_dec_def setw_def zeros)
qed

lemma setw_inject [simp]: "setw k (to_string m) = setw k (to_string n) \<longleftrightarrow> m = n"
  by (metis read_dec_setw read_dec_to_string)

text \<open>A non-negative duration is printed field by field.\<close>

lemma Duration_ToString_nat:
  "Duration_ToString (int d) = ''['' @ setw 2 (to_string (d div 3600000000)) @ '':'' @ setw 2 (to_string (d div 60000000 mod 60)) @ '':'' @
     setw 2 (to_string (d div 1000000 mod 60)) @ ''.'' @ setw 3 (to_string (d div 1000 mod 1000)) @ ''.'' @ setw 3 (to_string (d mod 1000)) @ '']''"
proof -
  have q: "quot (int a) (int b) = int (a div b)" "rem (int a) (int b) = int (a mod b)" if "0 < b" for a b
    using that by (simp_all add: quot_nonneg rem_nonneg zdiv_int zmod_int)
  have p: "to_string_int (int a) = to_string a" for a
    by (simp add: to_string_int_def)
  have "rem (int d) 1000 = int (d mod 1000)" "rem (quot (int d) 1000) 1000 = int (d div 1000 mod 1000)"
    "rem (quot (quot (int d) 1000) 1000) 60 = int (d div 1000 div 1000 mod 60)"
    "rem (quot (quot (quot (int d) 1000) 1000) 60) 60 = int (d div 1000 div 1000 div 60 mod 60)"
    "quot (quot (quot (quot (int d) 1000) 1000) 60) 60 = int (d div 1000 div 1000 div 60 div 60)"
    using q [of 1000] q [of 60] by simp_all
  moreover have "d div 1000 div 1000 = d div 1000000" "d div 1000000 div 60 = d div 60000000" "d div 60000000 div 60 = d div 3600000000"
    by (simp_all flip: div_mult2_eq)
  ultimately show ?thesis by (simp only: Duration_ToString_def Let_def p)
qed

text \<open>
  Two different non-negative durations are never printed alike.
\<close>

theorem Duration_ToString_inject:
  assumes "0 \<le> d" and "0 \<le> d'" and "Duration_ToString d = Duration_ToString d'"
  shows "d = d'"
proof -
  obtain m n where mn: "d = int m" "d' = int n" using assms(1,2) nonneg_int_cases by metis
  note eq = assms(3)[unfolded mn Duration_ToString_nat]
  have len: "length (setw 3 (to_string (x mod 1000))) = 3" "length (setw 2 (to_string (x mod 60))) = 2" for x
    by (intro length_setw_to_string; simp; metis mod_less_divisor less_trans numeral_less_iff zero_less_numeral)+
  have "length (setw 2 (to_string (m div 3600000000))) = length (setw 2 (to_string (n div 3600000000)))"
    using arg_cong [OF eq, of length] len by simp
  then have "m div 3600000000 = n div 3600000000" "m div 60000000 mod 60 = n div 60000000 mod 60" "m div 1000000 mod 60 = n div 1000000 mod 60"
    "m div 1000 mod 1000 = n div 1000 mod 1000" "m mod 1000 = n mod 1000"
    using eq len by simp_all
  moreover have join: "x = y" if "x div k = y div k" "x mod k = y mod k" for x y k :: nat
    using that by (metis div_mult_mod_eq)
  moreover have "x div 3600000000 = x div 60000000 div 60" "x div 60000000 = x div 1000000 div 60" "x div 1000000 = x div 1000 div 1000" for x :: nat
    by (simp_all flip: div_mult2_eq)
  ultimately have "m = n" by metis
  then show ?thesis using mn by simp
qed

theorem Duration_ToString_inject_witness:
  "Duration_ToString 3723004005 = ''[01:02:03.004.005]'' \<and> Duration_ToString 3723004005 \<noteq> Duration_ToString 3723004006"
proof
  show "Duration_ToString 3723004005 = ''[01:02:03.004.005]''" by code_simp
  show "Duration_ToString 3723004005 \<noteq> Duration_ToString 3723004006"
    using Duration_ToString_inject [of 3723004005 3723004006] by auto
qed

section \<open>Facts on parsing\<close>

lemma find_first_of_append:
  assumes "c \<notin> set xs"
  shows "find_first_of c (xs @ c # ys) = Some (length xs)"
  using assms by (simp add: find_first_of_def takeWhile_append Let_def)

lemma find_last_of_append:
  assumes "c \<notin> set ys"
  shows "find_last_of c (xs @ c # ys) = Some (length xs)"
  using assms find_first_of_append [of c "rev ys" "rev xs"] by (simp add: find_last_of_def)

text \<open>
  C32. Printing an endpoint and parsing it gives the endpoint back, whatever the address; the address
  may itself contain colons, as IPv6 addresses do.
\<close>

theorem Endpoint_round_trip:
  assumes "port e < 2 ^ 16"
  shows "parse_Endpoint (Endpoint_ToString e) = Ok e"
proof -
  have "CHR '':'' \<notin> set (to_string (port e))"
    using digits_to_string digit_not_special(1) by blast
  then have "find_last_of (CHR '':'') (Endpoint_ToString e) = Some (length (address e))"
    using find_last_of_append [of "CHR '':''" "to_string (port e)" "address e"] by (simp add: Endpoint_ToString_def)
  moreover have "stoi (to_string (port e)) = Ok (int (port e))"
    using assms by (intro stoi_to_string) simp
  ultimately show ?thesis
    using assms by (simp add: parse_Endpoint_def Endpoint_ToString_def)
qed

theorem Endpoint_round_trip_witness:
  "parse_Endpoint ''::1:443'' = Ok \<lparr>address = ''::1'', port = 443\<rparr>"
proof -
  have "Endpoint_ToString \<lparr>address = ''::1'', port = 443\<rparr> = ''::1:443''" by code_simp
  with Endpoint_round_trip [of "\<lparr>address = ''::1'', port = 443\<rparr>"] show ?thesis by simp
qed

lemma suffix_facts:
  assumes "(suffix, unit) \<in> set kSuffix"
  shows "suffix \<noteq> []" and "\<not> is_digit (hd suffix)" and "takeWhile (\<lambda>c. \<not> is_space c) (skip_space suffix) = suffix"
    and "CHR ''-'' \<notin> set suffix" and "map_of kSuffix suffix = Some unit"
  using assms by (auto simp: kSuffix_def is_digit_def is_space_def skip_space_def)

lemma parse_Duration_print:
  assumes "(suffix, unit) \<in> set kSuffix" and "n \<le> u64_max"
  shows "parse_Duration (to_string n @ suffix) = Ok (to_i64 (n * unit mod 2 ^ 64))"
  using extract_u64_to_string [OF assms(2) suffix_facts(1,2) [OF assms(1)]] suffix_facts [OF assms(1)]
  by (simp add: parse_Duration_def extract_word_def)

lemma to_i64_exact: "n < 2 ^ 63 \<Longrightarrow> to_i64 (n mod 2 ^ 64) = int n"
  by (simp add: to_i64_def)

text \<open>
  Parsing an interval written as two numbers with units, with a dash between them, gives its two durations in
  microseconds, for every pair of the units us, ms, s, m and h, as long as they fit into 63 bits.
\<close>

theorem parse_Interval_print:
  assumes "(s, u) \<in> set kSuffix" and "(s', u') \<in> set kSuffix" and "m * u < 2 ^ 63" and "n * u' < 2 ^ 63"
  shows "parse_Interval (to_string m @ s @ ''-'' @ to_string n @ s') = Ok \<lparr>ival_from = int (m * u), ival_to = int (n * u')\<rparr>"
proof -
  have le: "k \<le> u64_max" if "(t, v) \<in> set kSuffix" "k * v < 2 ^ 63" for t v k
  proof -
    have "k \<le> k * v" using that(1) by (auto simp: kSuffix_def)
    from le_less_trans [OF this that(2)] show ?thesis by (simp add: u64_max_def)
  qed
  have "CHR ''-'' \<notin> set (to_string m @ s)"
    using digits_to_string digit_not_special(2) suffix_facts(4) [OF assms(1)] by auto
  from find_first_of_append [OF this, of "to_string n @ s'"]
  have "find_first_of (CHR ''-'') (to_string m @ s @ ''-'' @ to_string n @ s') = Some (length (to_string m @ s))" by simp
  then show ?thesis
    using parse_Duration_print [OF assms(1) le [OF assms(1,3)]] parse_Duration_print [OF assms(2) le [OF assms(2,4)]]
      to_i64_exact [OF assms(3)] to_i64_exact [OF assms(4)]
    by (simp add: parse_Interval_def)
qed

theorem parse_Interval_print_witness:
  "parse_Interval ''150ms-2s'' = Ok \<lparr>ival_from = 150000, ival_to = 2000000\<rparr>"
proof -
  have "to_string 150 = ''150''" "to_string 2 = ''2''" by code_simp+
  with parse_Interval_print [of "''ms''" 1000 "''s''" 1000000 150 2] show ?thesis by (simp add: kSuffix_def)
qed

lemma to_i64_range: "n < 2 ^ 64 \<Longrightarrow> - (2 ^ 63) \<le> to_i64 n \<and> to_i64 n < 2 ^ 63 \<and> to_i64 n mod 2 ^ 64 = int n"
  by (simp add: to_i64_def mod_add_self2 [of _ "2 ^ 64 :: int", symmetric] del: mod_add_self2)

text \<open>
  C33. A duration that does not fit is not refused. Whatever number is read, with any of the units, the result is the product reduced modulo \<open>2\<^sup>6\<^sup>4\<close> to a signed
  64-bit count. It is the duration that was written exactly when the product is below \<open>2\<^sup>6\<^sup>3\<close>, and some other duration, of either sign, otherwise.
\<close>

theorem parse_Duration_wraps:
  assumes "(suffix, unit) \<in> set kSuffix" and "n \<le> u64_max"
  shows "\<exists>d. parse_Duration (to_string n @ suffix) = Ok d \<and> - (2 ^ 63) \<le> d \<and> d < 2 ^ 63 \<and>
     d mod 2 ^ 64 = int (n * unit) mod 2 ^ 64 \<and> (d = int (n * unit) \<longleftrightarrow> n * unit < 2 ^ 63)"
proof (intro exI conjI)
  let ?d = "to_i64 (n * unit mod 2 ^ 64)"
  show "parse_Duration (to_string n @ suffix) = Ok ?d" by (rule parse_Duration_print [OF assms])
  have range: "- (2 ^ 63) \<le> ?d \<and> ?d < 2 ^ 63 \<and> ?d mod 2 ^ 64 = int (n * unit mod 2 ^ 64)" by (rule to_i64_range) simp
  then show "- (2 ^ 63) \<le> ?d" "?d < 2 ^ 63" "?d mod 2 ^ 64 = int (n * unit) mod 2 ^ 64"
    by (simp_all only: zmod_int of_nat_power of_nat_numeral)
  show "?d = int (n * unit) \<longleftrightarrow> n * unit < 2 ^ 63"
  proof
    assume "?d = int (n * unit)"
    with range have "int (n * unit) < int (2 ^ 63)" by simp
    then show "n * unit < 2 ^ 63" by (simp only: of_nat_less_iff)
  qed (rule to_i64_exact)
qed

theorem parse_Duration_wraps_witness:
  "\<exists>d d'. parse_Duration ''3000000000h'' = Ok d \<and> d < 0 \<and> parse_Duration ''5124095577h'' = Ok d' \<and> d' = 3490448384"
proof -
  have n: "to_string 3000000000 = ''3000000000''" "to_string 5124095577 = ''5124095577''" by code_simp+
  have h: "(''h'', 60 * 60 * 1000000) \<in> set kSuffix" by (simp add: kSuffix_def)
  from parse_Duration_wraps [OF h, of 3000000000] obtain d where
    d: "parse_Duration ''3000000000h'' = Ok d" "- (2 ^ 63) \<le> d" "d < 2 ^ 63" "d mod 2 ^ 64 = 10800000000000000000"
    by (auto simp: n u64_max_def)
  from parse_Duration_wraps [OF h, of 5124095577] obtain d' where
    d': "parse_Duration ''5124095577h'' = Ok d'" "- (2 ^ 63) \<le> d'" "d' < 2 ^ 63" "d' mod 2 ^ 64 = 3490448384"
    by (auto simp: n u64_max_def)
  have "d < 0" using d(2-4) by (cases "0 \<le> d") (simp_all add: mod_pos_pos_trivial)
  moreover have "d' = 3490448384"
  proof (cases "0 \<le> d'")
    case False
    then have "d' mod 2 ^ 64 = d' + 2 ^ 64" using d'(2) by (intro int_mod_pos_eq [of _ _ "- 1"]) simp_all
    with d'(2,4) show ?thesis by simp
  qed (use d'(3,4) in simp)
  ultimately show ?thesis using d(1) d'(1) by blast
qed

section \<open>Facts on digests, search and backoff\<close>

lemma hex_digit_inject: "m < 16 \<Longrightarrow> n < 16 \<Longrightarrow> hex_digit m = hex_digit n \<Longrightarrow> m = n"
  by (auto simp: hex_digit_def split: if_splits dest!: arg_cong [where f = "of_char :: char \<Rightarrow> nat"])

lemma zero_char: "char_of (48 :: nat) = CHR ''0''"
  by code_simp

lemma to_hex_byte: "b < 256 \<Longrightarrow> setw 2 (to_hex b) = [hex_digit (b div 16), hex_digit (b mod 16)]"
proof (cases "b < 16")
  case True
  then show ?thesis by (subst to_hex.simps) (simp add: setw_def hex_digit_def zero_char)
next
  case False
  assume "b < 256"
  then have "b div 16 < 16" by (simp add: less_mult_imp_div_less)
  with False show ?thesis
    by (subst to_hex.simps, subst to_hex.simps) (simp add: setw_def)
qed

text \<open>
  An MD5 digest is printed as two hexadecimal digits for each byte, and different digests are printed differently.
\<close>

theorem MD5Hash_ToString_inject:
  assumes "\<forall>b \<in> set xs. b < 256" and "\<forall>b \<in> set ys. b < 256"
  shows "length (MD5Hash_ToString xs) = 2 * length xs \<and> (MD5Hash_ToString xs = MD5Hash_ToString ys \<longrightarrow> xs = ys)"
proof -
  have len: "length (MD5Hash_ToString zs) = 2 * length zs" if "\<forall>b \<in> set zs. b < 256" for zs
    using that by (induction zs) (simp_all add: MD5Hash_ToString_def to_hex_byte)
  have "xs = ys" if "MD5Hash_ToString xs = MD5Hash_ToString ys"
    using that assms
  proof (induction xs arbitrary: ys)
    case Nil
    then have "MD5Hash_ToString ys = []" by (simp add: MD5Hash_ToString_def)
    with len [OF Nil(3)] show ?case by simp
  next
    case (Cons x xs)
    then obtain y zs where ys: "ys = y # zs" using len [of "x # xs"] len [of ys] by (cases ys) simp_all
    have "x < 256" "y < 256" using Cons.prems ys by simp_all
    then have "hex_digit (x div 16) = hex_digit (y div 16)" "hex_digit (x mod 16) = hex_digit (y mod 16)"
      "MD5Hash_ToString xs = MD5Hash_ToString zs"
      using Cons.prems(1) ys by (simp_all add: MD5Hash_ToString_def to_hex_byte)
    moreover have "x div 16 < 16" "y div 16 < 16" using \<open>x < 256\<close> \<open>y < 256\<close> by (simp_all add: less_mult_imp_div_less)
    ultimately have "x div 16 = y div 16" "x mod 16 = y mod 16" "xs = zs"
      using hex_digit_inject Cons.IH Cons.prems(2,3) ys by (auto intro: hex_digit_inject)
    then show ?case using ys by (metis div_mult_mod_eq)
  qed
  with len [OF assms(1)] show ?thesis by blast
qed

theorem MD5Hash_ToString_inject_witness:
  "MD5Hash_ToString [212, 29, 0, 255] = ''d41d00ff'' \<and> length (MD5Hash_ToString [212, 29, 0, 255]) = 8"
proof -
  have "MD5Hash_ToString [212, 29, 0, 255] = ''d41d00ff''" by code_simp
  with MD5Hash_ToString_inject [of "[212, 29, 0, 255]" "[]"] show ?thesis by simp
qed

lemma BinarySearch_spec:
  assumes "b \<le> e" and "\<And>i j. b \<le> i \<Longrightarrow> i \<le> j \<Longrightarrow> j < e \<Longrightarrow> P i \<Longrightarrow> P j"
  shows "b \<le> BinarySearch b e P \<and> BinarySearch b e P \<le> e \<and>
     (\<forall>i. b \<le> i \<longrightarrow> i < BinarySearch b e P \<longrightarrow> \<not> P i) \<and> (BinarySearch b e P < e \<longrightarrow> P (BinarySearch b e P))"
  using assms
proof (induction b e P rule: BinarySearch.induct)
  case (1 b e P)
  let ?m = "b + (e - b) div 2"
  note mono = "1.prems"(2)
  consider (left) "b < e" "P ?m" | (right) "b < e" "\<not> P ?m" | (empty) "e \<le> b" by linarith
  then show ?case
  proof cases
    case left
    have eq: "BinarySearch b e P = BinarySearch b ?m P"
      using left by (subst BinarySearch.simps) (simp add: Let_def)
    have "?m < e" using left by simp
    have "b \<le> BinarySearch b ?m P \<and> BinarySearch b ?m P \<le> ?m \<and>
        (\<forall>i. b \<le> i \<longrightarrow> i < BinarySearch b ?m P \<longrightarrow> \<not> P i) \<and> (BinarySearch b ?m P < ?m \<longrightarrow> P (BinarySearch b ?m P))"
    proof (rule "1.IH"(1) [OF left(1) refl left(2)])
      show "P j" if "b \<le> i" "i \<le> j" "j < ?m" "P i" for i j
        by (rule mono [OF that(1,2) less_trans [OF that(3) \<open>?m < e\<close>] that(4)])
    qed simp
    moreover from this have "P (BinarySearch b ?m P)" using left(2) le_neq_implies_less by metis
    ultimately show ?thesis using \<open>?m < e\<close> unfolding eq by simp
  next
    case right
    have eq: "BinarySearch b e P = BinarySearch (Suc ?m) e P"
      using right by (subst BinarySearch.simps) (simp add: Let_def)
    have "?m < e" using right by simp
    have "Suc ?m \<le> BinarySearch (Suc ?m) e P \<and> BinarySearch (Suc ?m) e P \<le> e \<and>
        (\<forall>i. Suc ?m \<le> i \<longrightarrow> i < BinarySearch (Suc ?m) e P \<longrightarrow> \<not> P i) \<and>
        (BinarySearch (Suc ?m) e P < e \<longrightarrow> P (BinarySearch (Suc ?m) e P))"
    proof (rule "1.IH"(2) [OF right(1) refl right(2)])
      show "P j" if "Suc ?m \<le> i" "i \<le> j" "j < e" "P i" for i j
        using that by (intro mono [of i j]) simp_all
    qed (use \<open>?m < e\<close> in simp)
    moreover have "\<not> P i" if "b \<le> i" "i \<le> ?m" for i
      using mono [OF that \<open>?m < e\<close>] right(2) by blast
    ultimately show ?thesis unfolding eq by (auto simp: not_less_eq_eq [symmetric])
  next
    case empty
    then have "BinarySearch b e P = b" by (subst BinarySearch.simps) simp
    then show ?thesis using empty "1.prems"(1) by simp
  qed
qed

text \<open>
  C29. Binary search over a range whose predicate, once true, stays true, returns the first position where it
  holds, or the end of the range.
\<close>

theorem BinarySearch_first:
  assumes "b \<le> e" and "\<And>i j. b \<le> i \<Longrightarrow> i \<le> j \<Longrightarrow> j < e \<Longrightarrow> P i \<Longrightarrow> P j"
  shows "b \<le> BinarySearch b e P \<and> BinarySearch b e P \<le> e \<and>
     (\<forall>i. b \<le> i \<longrightarrow> i < BinarySearch b e P \<longrightarrow> \<not> P i) \<and> (BinarySearch b e P < e \<longrightarrow> P (BinarySearch b e P))"
  using assms by (rule BinarySearch_spec)

theorem BinarySearch_first_witness:
  "BinarySearch 0 100 (\<lambda>i. 37 \<le> i * i) = 7 \<and> 37 \<le> BinarySearch 0 100 (\<lambda>i. 37 \<le> i * i) * BinarySearch 0 100 (\<lambda>i. 37 \<le> i * i) \<and>
   \<not> 37 \<le> 6 * (6 :: nat)"
proof -
  have eq: "BinarySearch 0 100 (\<lambda>i. 37 \<le> i * i) = 7" by code_simp
  have "\<And>i j. 0 \<le> i \<Longrightarrow> i \<le> j \<Longrightarrow> j < 100 \<Longrightarrow> 37 \<le> i * i \<Longrightarrow> 37 \<le> j * (j :: nat)"
    using mult_le_mono order_trans by blast
  from BinarySearch_first [of 0 100 "\<lambda>i. 37 \<le> i * i", OF _ this] eq show ?thesis by simp
qed

primrec Backoff_waits ::
  "(int \<Rightarrow> int \<Rightarrow> 'g \<Rightarrow> int \<times> 'g) \<Rightarrow> (int \<Rightarrow> 'f \<Rightarrow> int) \<Rightarrow> nat \<Rightarrow> 'f Backoff \<Rightarrow> 'g \<Rightarrow> Duration list" where
  "Backoff_waits uniform_int mult 0 b gen = []"
| "Backoff_waits uniform_int mult (Suc n) b gen =
     (let (wait, b', gen') = Backoff_Next uniform_int mult b gen in wait # Backoff_waits uniform_int mult n b' gen')"

lemma Backoff_waits_bounds:
  assumes "\<And>lo hi g. lo \<le> hi \<Longrightarrow> lo \<le> fst (uniform_int lo hi g) \<and> fst (uniform_int lo hi g) \<le> hi"
    and "\<And>c. mult c (factor (params b)) = 2 * c" and "0 \<le> current b" and "current b \<le> max_wait (params b)" and "i < n"
  shows "0 \<le> Backoff_waits uniform_int mult n b gen ! i \<and>
     Backoff_waits uniform_int mult n b gen ! i \<le> min (max_wait (params b)) (current b * 2 ^ i)"
  using assms(2-5)
proof (induction n arbitrary: b gen i)
  case (Suc n)
  let ?b = "b\<lparr>current := min (max_wait (params b)) (2 * current b)\<rparr>"
  obtain w gen' where w: "uniform_int 0 (current b) gen = (w, gen')" by fastforce
  have waits: "Backoff_waits uniform_int mult (Suc n) b gen = w # Backoff_waits uniform_int mult n ?b gen'"
    using w Suc.prems(1) by (simp add: Backoff_Next_def)
  show ?case
  proof (cases i)
    case 0
    then show ?thesis using assms(1) [OF Suc.prems(2), of gen] w Suc.prems(3) by (simp add: waits del: Backoff_waits.simps)
  next
    case (Suc j)
    have "0 \<le> Backoff_waits uniform_int mult n ?b gen' ! j \<and>
        Backoff_waits uniform_int mult n ?b gen' ! j \<le> min (max_wait (params ?b)) (current ?b * 2 ^ j)"
      using Suc.prems Suc by (intro Suc.IH) auto
    moreover from this have "Backoff_waits uniform_int mult n ?b gen' ! j \<le> current b * 2 ^ i"
    proof -
      have "current ?b * 2 ^ j \<le> current b * 2 ^ i"
        unfolding Suc by (simp add: min_mult_distrib_right)
      with calculation show ?thesis unfolding min.bounded_iff by (blast intro: order_trans)
    qed
    moreover have "max_wait (params ?b) = max_wait (params b)" by simp
    ultimately show ?thesis unfolding waits Suc nth_Cons_Suc min.bounded_iff by metis
  qed
qed simp

text \<open>
  The waiting times of a backoff with factor two: whatever the random distribution draws from its range, the
  \<open>i\<close>-th wait is between 0 and the smaller of the limit and the initial wait doubled \<open>i\<close> times.
\<close>

theorem Backoff_doubles:
  assumes "\<And>lo hi g. lo \<le> hi \<Longrightarrow> lo \<le> fst (uniform_int lo hi g) \<and> fst (uniform_int lo hi g) \<le> hi"
    and "\<And>c. mult c (factor p) = 2 * c" and "0 \<le> initial p" and "initial p \<le> max_wait p" and "i < n"
  shows "0 \<le> Backoff_waits uniform_int mult n (mk_Backoff p) gen ! i \<and>
     Backoff_waits uniform_int mult n (mk_Backoff p) gen ! i \<le> min (max_wait p) (initial p * 2 ^ i)"
  using Backoff_waits_bounds [of uniform_int mult "mk_Backoff p" i n gen] assms by (simp add: mk_Backoff_def)

theorem Backoff_doubles_witness:
  "Backoff_waits (\<lambda>lo hi g. (hi, g)) (\<lambda>c f. c * f) 4 (mk_Backoff \<lparr>initial = 10, max_wait = 50, factor = 2\<rparr>) () = [10, 20, 40, 50] \<and>
   Backoff_waits (\<lambda>lo hi g. (hi, g)) (\<lambda>c f. c * f) 4 (mk_Backoff \<lparr>initial = 10, max_wait = 50, factor = 2\<rparr>) () ! 3 \<le> 50"
proof
  let ?p = "\<lparr>initial = 10, max_wait = 50, factor = 2 :: int\<rparr>"
  show "Backoff_waits (\<lambda>lo hi g. (hi, g)) (\<lambda>c f. c * f) 4 (mk_Backoff ?p) () = [10, 20, 40, 50]" by code_simp
  have "0 \<le> Backoff_waits (\<lambda>lo hi g. (hi, g)) (\<lambda>c f. c * f) 4 (mk_Backoff ?p) () ! 3 \<and>
      Backoff_waits (\<lambda>lo hi g. (hi, g)) (\<lambda>c f. c * f) 4 (mk_Backoff ?p) () ! 3 \<le> min (max_wait ?p) (initial ?p * 2 ^ 3)"
    by (rule Backoff_doubles) simp_all
  then show "Backoff_waits (\<lambda>lo hi g. (hi, g)) (\<lambda>c f. c * f) 4 (mk_Backoff ?p) () ! 3 \<le> 50" by simp
qed

end
