(* ===== verification/Sync.thy ===== *)
theory Sync
  imports Results
begin

text \<open>
  Synchronisation: the spin lock (\<^verbatim>\<open>src/util/spin_lock.h\<close>), events
  (\<^verbatim>\<open>src/runtime/util/event/event.cpp\<close>) and latches (\<^verbatim>\<open>src/runtime/util/latch/latch.cpp\<close>).

  Fibers and threads are named by numbers. A blocked call is a step that is not enabled; the condition
  variables of the fiber library wake every waiter whose condition holds.

  Shown here: the spin lock admits one holder at a time, and a latch is zero exactly when no guard holds it.
\<close>

section \<open>The spin lock\<close>

text \<open>
  Where a thread is: outside, before the exchange of the outer loop of \<^verbatim>\<open>Lock\<close>, in the inner loop that
  reads the flag, or between \<^verbatim>\<open>Lock\<close> and \<^verbatim>\<open>Unlock\<close>.
\<close>

datatype lock_pc = Outside | Exchanging | Reading | Holding

record spin_lock =
  is_locked :: bool
  pc :: "nat \<Rightarrow> lock_pc"

inductive spin_step :: "spin_lock \<Rightarrow> spin_lock \<Rightarrow> bool" where
  enter: "pc s t = Outside \<Longrightarrow> spin_step s (s\<lparr>pc := (pc s)(t := Exchanging)\<rparr>)"
| exchange: "pc s t = Exchanging \<Longrightarrow>
    spin_step s (s\<lparr>is_locked := True, pc := (pc s)(t := (if is_locked s then Reading else Holding))\<rparr>)"
| load: "pc s t = Reading \<Longrightarrow> \<not> is_locked s \<Longrightarrow> spin_step s (s\<lparr>pc := (pc s)(t := Exchanging)\<rparr>)"
| unlock: "pc s t = Holding \<Longrightarrow> spin_step s (s\<lparr>is_locked := False, pc := (pc s)(t := Outside)\<rparr>)"

inductive_cases spin_stepE: "spin_step s s'"

definition unlocked :: spin_lock where
  "unlocked = \<lparr>is_locked = False, pc = (\<lambda>_. Outside)\<rparr>"

definition spin_inv :: "spin_lock \<Rightarrow> bool" where
  "spin_inv s \<longleftrightarrow> (\<forall>t. pc s t = Holding \<longrightarrow> is_locked s) \<and> (\<forall>t u. pc s t = Holding \<longrightarrow> pc s u = Holding \<longrightarrow> t = u)"

lemma spin_step_inv: "spin_step s s' \<Longrightarrow> spin_inv s \<Longrightarrow> spin_inv s'"
  by (elim spin_stepE) (auto simp: spin_inv_def split: if_splits)

text \<open>
  C30. Mutual exclusion: in every state that any number of threads can reach from the unlocked state, at most
  one thread is between the end of Lock and the end of Unlock.
\<close>

theorem spin_lock_exclusive:
  assumes "spin_step\<^sup>*\<^sup>* unlocked s" and "pc s t = Holding" and "pc s u = Holding"
  shows "t = u"
proof -
  from assms(1) have "spin_inv s"
    by (induction rule: rtranclp_induct) (auto simp: unlocked_def spin_inv_def [of "\<lparr>is_locked = _, pc = _\<rparr>"] intro: spin_step_inv)
  with assms(2,3) show ?thesis by (auto simp: spin_inv_def)
qed

theorem spin_lock_exclusive_witness:
  "\<exists>s. spin_step\<^sup>*\<^sup>* unlocked s \<and> pc s 1 = Holding \<and> pc s 2 = Reading \<and> {u. pc s u = Holding} = {1}"
proof -
  define s1 where "s1 = unlocked\<lparr>pc := (pc unlocked)(1 := Exchanging)\<rparr>"
  define s2 where "s2 = s1\<lparr>is_locked := True, pc := (pc s1)(1 := Holding)\<rparr>"
  define s3 where "s3 = s2\<lparr>pc := (pc s2)(2 := Exchanging)\<rparr>"
  define s4 where "s4 = s3\<lparr>is_locked := True, pc := (pc s3)(2 := Reading)\<rparr>"
  note defs = s1_def s2_def s3_def s4_def unlocked_def
  have "spin_step unlocked s1" "spin_step s1 s2" "spin_step s2 s3" "spin_step s3 s4"
    using spin_step.enter [of unlocked 1] spin_step.exchange [of s1 1] spin_step.enter [of s2 2] spin_step.exchange [of s3 2]
    by (simp_all add: defs)
  then have run: "spin_step\<^sup>*\<^sup>* unlocked s4" by (meson converse_rtranclp_into_rtranclp rtranclp.rtrancl_refl)
  have pcs: "pc s4 1 = Holding" "pc s4 2 = Reading" by (simp_all add: defs)
  from run pcs spin_lock_exclusive [OF run pcs(1)] show ?thesis by blast
qed

section \<open>Events\<close>

record Event =
  resumed :: bool

definition new_Event :: Event where
  "new_Event = \<lparr>resumed = False\<rparr>"

text \<open>\<^verbatim>\<open>Await\<close> returns when this holds and leaves the event as it is.\<close>

definition Event_Await :: "Event \<Rightarrow> bool" where
  "Event_Await e = resumed e"

definition Event_Signal :: "Event \<Rightarrow> Event" where
  "Event_Signal e = e\<lparr>resumed := True\<rparr>"

definition Event_Reset :: "Event \<Rightarrow> Event" where
  "Event_Reset e = e\<lparr>resumed := False\<rparr>"

section \<open>Latches\<close>

text \<open>
  A latch and the guard objects that may refer to it, by name: a guard object either does not exist, refers to no
  latch, or refers to this latch. \<^verbatim>\<open>AwaitZero\<close> waits on a condition variable; the model has the condition and, separately, when
  the destructor of a guard notifies the variable.
\<close>

record Latch =
  count :: nat
  guards :: "nat \<Rightarrow> bool option"

definition new_Latch :: Latch where
  "new_Latch = \<lparr>count = 0, guards = (\<lambda>_. None)\<rparr>"

definition AwaitZero :: "Latch \<Rightarrow> bool" where
  "AwaitZero l \<longleftrightarrow> count l = 0"

definition MakeGuard :: "nat \<Rightarrow> Latch \<Rightarrow> Latch" where
  "MakeGuard g l = l\<lparr>count := u64_inc (count l), guards := (guards l)(g \<mapsto> True)\<rparr>"

definition LatchGuard_default :: "nat \<Rightarrow> Latch \<Rightarrow> Latch" where
  "LatchGuard_default g l = l\<lparr>guards := (guards l)(g \<mapsto> False)\<rparr>"

definition LatchGuard_move_assign :: "nat \<Rightarrow> nat \<Rightarrow> Latch \<Rightarrow> Latch" where
  "LatchGuard_move_assign this other l =
     l\<lparr>guards := (guards l)(this := guards l other, other := guards l this)\<rparr>"

definition LatchGuard_move_ctor :: "nat \<Rightarrow> nat \<Rightarrow> Latch \<Rightarrow> Latch" where
  "LatchGuard_move_ctor this other l = LatchGuard_move_assign this other (LatchGuard_default this l)"

definition LatchGuard_dtor :: "nat \<Rightarrow> Latch \<Rightarrow> Latch" where
  "LatchGuard_dtor g l =
     (if guards l g = Some True
      then l\<lparr>count := u64_dec (count l), guards := (guards l)(g := None)\<rparr>
      else l\<lparr>guards := (guards l)(g := None)\<rparr>)"

definition LatchGuard_dtor_notifies :: "nat \<Rightarrow> Latch \<Rightarrow> bool" where
  "LatchGuard_dtor_notifies g l \<longleftrightarrow> guards l g = Some True \<and> u64_dec (count l) = 0"

text \<open>New guards take unused names, moves are between guards that exist, and fewer than \<open>2\<^sup>6\<^sup>4\<close> guards exist.\<close>

inductive latch_step :: "Latch \<Rightarrow> Latch \<Rightarrow> bool" where
  make: "guards l g = None \<Longrightarrow> count l < u64_max \<Longrightarrow> latch_step l (MakeGuard g l)"
| default: "guards l g = None \<Longrightarrow> latch_step l (LatchGuard_default g l)"
| move_ctor: "guards l g = None \<Longrightarrow> guards l g' \<noteq> None \<Longrightarrow> latch_step l (LatchGuard_move_ctor g g' l)"
| move_assign: "guards l g \<noteq> None \<Longrightarrow> guards l g' \<noteq> None \<Longrightarrow> latch_step l (LatchGuard_move_assign g g' l)"
| destroy: "guards l g \<noteq> None \<Longrightarrow> latch_step l (LatchGuard_dtor g l)"

definition holders :: "Latch \<Rightarrow> nat set" where
  "holders l = {g. guards l g = Some True}"

definition latch_inv :: "Latch \<Rightarrow> bool" where
  "latch_inv l \<longleftrightarrow> finite (holders l) \<and> count l = card (holders l) \<and> count l \<le> u64_max"

lemma holders_swap:
  assumes "guards l this \<noteq> None" and "guards l other \<noteq> None"
  shows "card (holders (LatchGuard_move_assign this other l)) = card (holders l) \<and>
    (finite (holders l) \<longrightarrow> finite (holders (LatchGuard_move_assign this other l)))"
proof -
  let ?f = "\<lambda>g. if g = this then other else if g = other then this else g"
  have eq: "holders (LatchGuard_move_assign this other l) = ?f ` holders l"
    by (auto simp: holders_def LatchGuard_move_assign_def image_iff split: if_splits)
  have "inj_on ?f (holders l)" by (auto simp: inj_on_def split: if_splits)
  then show ?thesis unfolding eq by (intro conjI impI card_image finite_imageI)
qed

lemma latch_step_inv:
  assumes "latch_step l l'" and "latch_inv l"
  shows "latch_inv l'"
  using assms(1)
proof cases
  case (make g)
  then have "g \<notin> holders l" "holders l' = insert g (holders l)" by (auto simp: holders_def MakeGuard_def)
  with make assms(2) show ?thesis by (simp add: latch_inv_def MakeGuard_def u64_inc_exact)
next
  case (default g)
  then have "holders l' = holders l" by (auto simp: holders_def LatchGuard_default_def)
  with default assms(2) show ?thesis by (simp add: latch_inv_def LatchGuard_default_def)
next
  case (move_ctor g g')
  let ?l = "LatchGuard_default g l"
  have "holders ?l = holders l" using move_ctor(2) by (auto simp: holders_def LatchGuard_default_def)
  moreover have "guards ?l g \<noteq> None" "guards ?l g' \<noteq> None" using move_ctor(3) by (auto simp: LatchGuard_default_def)
  ultimately show ?thesis
    using holders_swap [of ?l g g'] move_ctor(1) assms(2)
    by (simp add: latch_inv_def LatchGuard_move_ctor_def) (simp add: LatchGuard_move_assign_def LatchGuard_default_def)
next
  case (move_assign g g')
  then show ?thesis
    using holders_swap [of l g g'] assms(2)
    by (simp add: latch_inv_def) (simp add: LatchGuard_move_assign_def)
next
  case (destroy g)
  show ?thesis
  proof (cases "guards l g = Some True")
    case True
    then have h: "g \<in> holders l" "holders l' = holders l - {g}" using destroy by (auto simp: holders_def LatchGuard_dtor_def)
    have inv: "finite (holders l)" "count l = card (holders l)" "count l \<le> u64_max" using assms(2) by (simp_all add: latch_inv_def)
    have "0 < count l" using inv(1,2) h(1) card_gt_0_iff by auto
    then have "count l' = count l - 1" using True destroy(1) inv(3) by (simp add: LatchGuard_dtor_def u64_dec_exact)
    then show ?thesis using inv h by (simp add: latch_inv_def)
  next
    case False
    then have "holders l' = holders l" using destroy by (auto simp: holders_def LatchGuard_dtor_def)
    with False destroy assms(2) show ?thesis by (simp add: latch_inv_def LatchGuard_dtor_def)
  qed
qed

text \<open>No wakeup is lost: whenever the condition of the waiting calls becomes true, the step that makes it true notifies them.\<close>

lemma zero_notified:
  assumes "latch_step l l'" and "\<not> AwaitZero l" and "AwaitZero l'"
  shows "\<exists>g. l' = LatchGuard_dtor g l \<and> LatchGuard_dtor_notifies g l"
  using assms(1)
proof cases
  case (make g)
  then show ?thesis using assms(3) by (simp add: AwaitZero_def MakeGuard_def u64_inc_exact)
next
  case (destroy g)
  then show ?thesis
    using assms(2,3) by (intro exI [of _ g]) (auto simp: AwaitZero_def LatchGuard_dtor_notifies_def LatchGuard_dtor_def split: if_splits)
qed (use assms(2,3) in \<open>simp_all add: AwaitZero_def LatchGuard_default_def LatchGuard_move_ctor_def LatchGuard_move_assign_def\<close>)

text \<open>
  C31. However guards of a latch are made, moved and destroyed, AwaitZero returns exactly when no guard holds the latch.
\<close>

theorem AwaitZero_no_guards:
  assumes "latch_step\<^sup>*\<^sup>* new_Latch l"
  shows "AwaitZero l \<longleftrightarrow> (\<forall>g. guards l g \<noteq> Some True)"
proof -
  have "latch_inv new_Latch" by (simp add: latch_inv_def new_Latch_def holders_def)
  with assms have "latch_inv l"
    by (induction rule: rtranclp_induct) (auto intro: latch_step_inv)
  then show ?thesis by (auto simp: latch_inv_def AwaitZero_def holders_def)
qed

theorem AwaitZero_no_guards_witness:
  "\<exists>l. latch_step\<^sup>*\<^sup>* new_Latch l \<and> guards l 1 = Some False \<and> guards l 2 = Some True \<and> \<not> AwaitZero l"
proof -
  let ?l1 = "MakeGuard 1 new_Latch" and ?l2 = "LatchGuard_move_ctor 2 1 (MakeGuard 1 new_Latch)"
  have "latch_step new_Latch ?l1" "latch_step ?l1 ?l2"
    by (intro latch_step.make latch_step.move_ctor; simp add: new_Latch_def MakeGuard_def u64_max_def)+
  then have run: "latch_step\<^sup>*\<^sup>* new_Latch ?l2" by (meson converse_rtranclp_into_rtranclp rtranclp.rtrancl_refl)
  have g: "guards ?l2 1 = Some False" "guards ?l2 2 = Some True"
    by (simp_all add: LatchGuard_move_ctor_def LatchGuard_move_assign_def LatchGuard_default_def MakeGuard_def)
  with AwaitZero_no_guards [OF run] have "\<not> AwaitZero ?l2" by blast
  with run g show ?thesis by blast
qed

end
