(* ===== verification/Scheduler.thy ===== *)
theory Scheduler
  imports Results "HOL-Library.Multiset"
begin

text \<open>
  The fiber scheduler of the simulator (\<^verbatim>\<open>src/runtime/simulator/scheduler.cpp\<close>).

  Fibers and hosts are named by numbers, which stand for the pointers to them. The fiber library keeps the
  properties of each fiber; here the scheduler record holds them. The library, the dispatcher
  fiber it runs and the random generator are parameters.

  Shown here: a ready fiber is picked exactly once, the fiber of the simulation is picked only when no other one is ready,
  and a fiber that is created while a host runs belongs to that host.
\<close>

section \<open>Properties of a fiber\<close>

record RuntimeSimulationProps =
  is_main :: bool
  host_initialized :: bool
  current_host :: "nat option"
  host_epoch :: nat

definition new_RuntimeSimulationProps :: RuntimeSimulationProps where
  "new_RuntimeSimulationProps = \<lparr>is_main = False, host_initialized = False, current_host = None, host_epoch = 0\<rparr>"

record 'g RuntimeSimulationScheduler =
  ready_fibers :: "nat list"
  main_fiber :: "nat option"
  last_host :: "nat option"
  last_epoch :: nat
  generator :: 'g
  fiber_props :: "nat \<Rightarrow> RuntimeSimulationProps"

definition new_RuntimeSimulationScheduler :: "'g \<Rightarrow> 'g RuntimeSimulationScheduler" where
  "new_RuntimeSimulationScheduler gen =
     \<lparr>ready_fibers = [], main_fiber = None, last_host = None, last_epoch = 0, generator = gen,
      fiber_props = (\<lambda>_. new_RuntimeSimulationProps)\<rparr>"

definition IsMainFiber :: "nat \<Rightarrow> ('g RuntimeSimulationScheduler, bool) exec" where
  "IsMainFiber ctx = gets (\<lambda>s. is_main (fiber_props s ctx))"

definition HostIsInitialized :: "nat \<Rightarrow> ('g RuntimeSimulationScheduler, bool) exec" where
  "HostIsInitialized ctx = gets (\<lambda>s. host_initialized (fiber_props s ctx))"

definition Props_GetCurrentHost :: "nat \<Rightarrow> ('g RuntimeSimulationScheduler, nat option) exec" where
  "Props_GetCurrentHost ctx = gets (\<lambda>s. current_host (fiber_props s ctx))"

definition Props_GetCurrentEpoch :: "nat \<Rightarrow> ('g RuntimeSimulationScheduler, nat) exec" where
  "Props_GetCurrentEpoch ctx = gets (\<lambda>s. host_epoch (fiber_props s ctx))"

definition SetCurrentHost :: "nat \<Rightarrow> nat option \<Rightarrow> nat \<Rightarrow> ('g RuntimeSimulationScheduler, unit) exec" where
  "SetCurrentHost ctx host epoch =
     modify (\<lambda>s. s\<lparr>fiber_props := (fiber_props s)(ctx := (fiber_props s ctx)
       \<lparr>host_initialized := True, current_host := host, host_epoch := epoch\<rparr>)\<rparr>)"

text \<open>The library is told that the properties changed; what it does then is the first parameter.\<close>

definition MarkAsMainFiber ::
  "(nat \<Rightarrow> ('g RuntimeSimulationScheduler, unit) exec) \<Rightarrow> nat \<Rightarrow> ('g RuntimeSimulationScheduler, unit) exec" where
  "MarkAsMainFiber props_notify ctx =
     bind (IsMainFiber ctx) (\<lambda>marked.
     if \<not> marked
     then bind (modify (\<lambda>s. s\<lparr>fiber_props := (fiber_props s)(ctx := (fiber_props s ctx)\<lparr>is_main := True\<rparr>)\<rparr>)) (\<lambda>_.
       props_notify ctx)
     else ret ())"

section \<open>The scheduler\<close>

text \<open>The first argument says whether the fiber is the dispatcher of the library.\<close>

definition awakened :: "bool \<Rightarrow> nat \<Rightarrow> ('g RuntimeSimulationScheduler, unit) exec" where
  "awakened dispatcher ctx =
     bind (HostIsInitialized ctx) (\<lambda>initialized.
     bind (if \<not> initialized
           then bind (gets (\<lambda>s. (last_host s, last_epoch s))) (\<lambda>(host, epoch). SetCurrentHost ctx host epoch)
           else ret ()) (\<lambda>_.
     bind (Props_GetCurrentHost ctx) (\<lambda>host.
     bind (verify (\<not> dispatcher \<or> host = None) ''dispatching fiber has non-null current_host'') (\<lambda>_.
     bind (IsMainFiber ctx) (\<lambda>main.
     if main
     then bind (gets main_fiber) (\<lambda>m.
       bind (verify (m = None) ''Main fiber is already awakened'') (\<lambda>_.
       modify (main_fiber_update (\<lambda>_. Some ctx))))
     else modify (ready_fibers_update (\<lambda>fs. fs @ [ctx])))))))"

definition has_ready_fibers :: "'g RuntimeSimulationScheduler \<Rightarrow> bool" where
  "has_ready_fibers s \<longleftrightarrow> main_fiber s \<noteq> None \<or> ready_fibers s \<noteq> []"

definition erase_at :: "nat \<Rightarrow> 'a list \<Rightarrow> 'a list" where
  "erase_at i xs = take i xs @ drop (Suc i) xs"

definition take_next ::
  "(nat \<Rightarrow> nat \<Rightarrow> 'g \<Rightarrow> nat \<times> 'g) \<Rightarrow> ('g RuntimeSimulationScheduler, nat) exec" where
  "take_next uniform_int =
     bind (gets ready_fibers) (\<lambda>fs.
     if fs = []
     then bind (gets main_fiber) (\<lambda>ctx.
       bind (modify (main_fiber_update (\<lambda>_. None))) (\<lambda>_.
       case ctx of Some f \<Rightarrow> ret f | None \<Rightarrow> lift (Err (UndefinedBehaviour ''null context''))))
     else bind (gets (\<lambda>s. uniform_int 0 (length fs - 1) (generator s))) (\<lambda>(index, gen).
       bind (modify (generator_update (\<lambda>_. gen))) (\<lambda>_.
       bind (at fs index) (\<lambda>ctx.
       bind (modify (ready_fibers_update (erase_at index))) (\<lambda>_.
       ret ctx)))))"

definition pick_next ::
  "(nat \<Rightarrow> nat \<Rightarrow> 'g \<Rightarrow> nat \<times> 'g) \<Rightarrow> ('g RuntimeSimulationScheduler, nat) exec" where
  "pick_next uniform_int =
     bind (gets has_ready_fibers) (\<lambda>ready.
     bind (verify ready ''unexpected schedule state (maybe some of fibers are not joined)'') (\<lambda>_.
     bind (take_next uniform_int) (\<lambda>ctx.
     bind (Props_GetCurrentHost ctx) (\<lambda>host.
     bind (IsMainFiber ctx) (\<lambda>main.
     bind (Props_GetCurrentEpoch ctx) (\<lambda>epoch.
     bind (if host \<noteq> None \<or> main
           then modify (\<lambda>s. s\<lparr>last_host := host, last_epoch := epoch\<rparr>)
           else ret ()) (\<lambda>_.
     ret ctx)))))))"

text \<open>Unlinking a fiber from the queue of the library does not touch the state of this scheduler.\<close>

definition property_change :: "bool \<Rightarrow> nat \<Rightarrow> ('g RuntimeSimulationScheduler, unit) exec" where
  "property_change dispatcher ctx = awakened dispatcher ctx"

definition suspend_until :: "int \<Rightarrow> ('g RuntimeSimulationScheduler, unit) exec" where
  "suspend_until time_point = verify False ''suspend_until is not expected to be called''"

definition scheduler_notify :: "('g RuntimeSimulationScheduler, unit) exec" where
  "scheduler_notify = ret ()"

section \<open>Facts\<close>

lemmas props_defs = IsMainFiber_def HostIsInitialized_def Props_GetCurrentHost_def Props_GetCurrentEpoch_def SetCurrentHost_def

definition waiting :: "'g RuntimeSimulationScheduler \<Rightarrow> nat multiset" where
  "waiting s = mset (ready_fibers s) + (case main_fiber s of None \<Rightarrow> {#} | Some f \<Rightarrow> {#f#})"

text \<open>The fiber marked as main waits in its own place, the others in the list.\<close>

definition sched_inv :: "'g RuntimeSimulationScheduler \<Rightarrow> bool" where
  "sched_inv s \<longleftrightarrow> (\<forall>f \<in> set (ready_fibers s). \<not> is_main (fiber_props s f)) \<and>
     (\<forall>f. main_fiber s = Some f \<longrightarrow> is_main (fiber_props s f))"

lemma mset_erase_at: "i < length xs \<Longrightarrow> add_mset (xs ! i) (mset (erase_at i xs)) = mset xs"
  by (subst (2) id_take_nth_drop [of i xs]) (simp_all add: erase_at_def)

lemma set_erase_at: "set (erase_at i xs) \<subseteq> set xs"
  by (auto simp: erase_at_def dest: in_set_takeD in_set_dropD)

lemma length_erase_at: "i < length xs \<Longrightarrow> length (erase_at i xs) = length xs - 1"
  by (simp add: erase_at_def)

lemma awakened_inv:
  assumes "sched_inv s" and "awakened d ctx s = (Ok (), s')"
  shows "sched_inv s' \<and> waiting s' = add_mset ctx (waiting s)"
  using assms by (auto simp: awakened_def props_defs exec_simps sched_inv_def waiting_def split: if_splits)

definition in_range :: "(nat \<Rightarrow> nat \<Rightarrow> 'g \<Rightarrow> nat \<times> 'g) \<Rightarrow> bool" where
  "in_range uniform_int \<longleftrightarrow> (\<forall>lo hi g. lo \<le> hi \<longrightarrow> lo \<le> fst (uniform_int lo hi g) \<and> fst (uniform_int lo hi g) \<le> hi)"

lemma pick_next_ready:
  assumes "in_range uniform_int" and "sched_inv s" and "ready_fibers s \<noteq> []"
  obtains ctx s' where "pick_next uniform_int s = (Ok ctx, s')" and "mset (ready_fibers s) = add_mset ctx (mset (ready_fibers s'))"
    and "main_fiber s' = main_fiber s" and "fiber_props s' = fiber_props s" and "sched_inv s'"
proof -
  obtain i gen where u: "uniform_int 0 (length (ready_fibers s) - 1) (generator s) = (i, gen)" by fastforce
  moreover have "fst (uniform_int 0 (length (ready_fibers s) - 1) (generator s)) \<le> length (ready_fibers s) - 1"
    using assms(1) unfolding in_range_def by blast
  ultimately have i: "i < length (ready_fibers s)" using assms(3) by (cases "ready_fibers s") auto
  show ?thesis
  proof (rule that)
    let ?ctx = "ready_fibers s ! i"
    let ?s = "s\<lparr>generator := gen, ready_fibers := erase_at i (ready_fibers s)\<rparr>"
    let ?p = "fiber_props s ?ctx"
    let ?s' = "if current_host ?p \<noteq> None \<or> is_main ?p
        then ?s\<lparr>last_host := current_host ?p, last_epoch := host_epoch ?p\<rparr> else ?s"
    show "pick_next uniform_int s = (Ok ?ctx, ?s')"
      using u i assms(3) by (simp add: pick_next_def take_next_def props_defs exec_simps has_ready_fibers_def)
    show "mset (ready_fibers s) = add_mset ?ctx (mset (ready_fibers ?s'))" using mset_erase_at [OF i] by simp
    show "main_fiber ?s' = main_fiber s" "fiber_props ?s' = fiber_props s" by simp_all
    show "sched_inv ?s'" using assms(2) set_erase_at [of i "ready_fibers s"] by (auto simp: sched_inv_def)
  qed
qed

lemma pick_next_main:
  assumes "sched_inv s" and "ready_fibers s = []" and "main_fiber s = Some f"
  shows "pick_next uniform_int s =
     (Ok f, s\<lparr>main_fiber := None, last_host := current_host (fiber_props s f), last_epoch := host_epoch (fiber_props s f)\<rparr>)"
  using assms by (simp add: pick_next_def take_next_def props_defs exec_simps has_ready_fibers_def sched_inv_def)

lemma pick_until_main:
  assumes "in_range uniform_int" and "sched_inv s" and "length (ready_fibers s) = n"
  shows "\<exists>ctxs s'. map_exec (replicate n ()) (\<lambda>_. pick_next uniform_int) s = (Ok ctxs, s') \<and>
     mset ctxs = mset (ready_fibers s) \<and> ready_fibers s' = [] \<and> main_fiber s' = main_fiber s \<and> sched_inv s'"
  using assms(2,3)
proof (induction n arbitrary: s)
  case 0
  then show ?case by (simp add: exec_simps)
next
  case (Suc n)
  from Suc.prems(2) have ne: "ready_fibers s \<noteq> []" by auto
  obtain ctx s1 where p: "pick_next uniform_int s = (Ok ctx, s1)"
    and m: "mset (ready_fibers s) = add_mset ctx (mset (ready_fibers s1))" "main_fiber s1 = main_fiber s" and i: "sched_inv s1"
    using pick_next_ready [OF assms(1) Suc.prems(1) ne] by metis
  have "length (ready_fibers s1) = n" using arg_cong [OF m(1), of size] Suc.prems(2) by simp
  from Suc.IH [OF i this] p m show ?case by (auto simp: exec_simps)
qed

text \<open>
  C38. The fiber that runs the simulation waits for all others: with it and \<open>n\<close> other fibers ready, whatever the random
  generator draws, the next \<open>n\<close> picks return each of the others exactly once, and the pick after them returns it.
\<close>

theorem main_fiber_runs_last:
  assumes "in_range uniform_int" and "sched_inv s" and "main_fiber s = Some f"
  shows "\<exists>ctxs s'. map_exec (replicate (length (ready_fibers s)) ()) (\<lambda>_. pick_next uniform_int) s = (Ok ctxs, s') \<and>
     mset ctxs = mset (ready_fibers s) \<and> f \<notin> set ctxs \<and> fst (pick_next uniform_int s') = Ok f"
proof -
  from pick_until_main [OF assms(1,2) refl] obtain ctxs s'
    where r: "map_exec (replicate (length (ready_fibers s)) ()) (\<lambda>_. pick_next uniform_int) s = (Ok ctxs, s')"
      "mset ctxs = mset (ready_fibers s)" "ready_fibers s' = []" "main_fiber s' = main_fiber s" "sched_inv s'"
    by blast
  have "f \<notin> set ctxs"
    using assms(2,3) mset_eq_setD [OF r(2)] by (auto simp: sched_inv_def)
  with r pick_next_main [OF r(5,3), of f uniform_int] assms(3) show ?thesis by auto
qed

definition pick_last :: "nat \<Rightarrow> nat \<Rightarrow> unit \<Rightarrow> nat \<times> unit" where
  "pick_last lo hi g = (hi, g)"

definition sample_scheduler :: "unit RuntimeSimulationScheduler" where
  "sample_scheduler = (new_RuntimeSimulationScheduler ())\<lparr>ready_fibers := [4, 9], main_fiber := Some 1,
     fiber_props := (\<lambda>_. new_RuntimeSimulationProps)(1 := new_RuntimeSimulationProps\<lparr>is_main := True\<rparr>)\<rparr>"

theorem main_fiber_runs_last_witness:
  "\<exists>ctxs s'. map_exec (replicate 2 ()) (\<lambda>_. pick_next pick_last) sample_scheduler = (Ok ctxs, s') \<and>
     mset ctxs = {#4, 9#} \<and> 1 \<notin> set ctxs \<and> fst (pick_next pick_last s') = Ok 1"
proof -
  have "in_range pick_last" "sched_inv sample_scheduler" "main_fiber sample_scheduler = Some 1"
    by (simp_all add: in_range_def pick_last_def sched_inv_def sample_scheduler_def new_RuntimeSimulationProps_def)
  from main_fiber_runs_last [OF this] show ?thesis by (simp add: sample_scheduler_def numeral_2_eq_2)
qed

lemma take_next_props: "take_next uniform_int s = (Ok ctx, s') \<Longrightarrow> fiber_props s' = fiber_props s"
  by (auto simp: take_next_def exec_simps split: if_splits option.splits prod.splits)

lemma pick_next_last:
  assumes "pick_next uniform_int s = (Ok ctx, s')"
  shows "fiber_props s' = fiber_props s" and "current_host (fiber_props s ctx) \<noteq> None \<or> is_main (fiber_props s ctx) \<Longrightarrow>
     last_host s' = current_host (fiber_props s ctx) \<and> last_epoch s' = host_epoch (fiber_props s ctx)"
proof -
  obtain s1 where n: "take_next uniform_int s = (Ok ctx, s1)"
    using assms by (auto simp: pick_next_def exec_simps props_defs split: if_splits prod.splits Result.splits)
  note p = take_next_props [OF n]
  show "fiber_props s' = fiber_props s" and "current_host (fiber_props s ctx) \<noteq> None \<or> is_main (fiber_props s ctx) \<Longrightarrow>
     last_host s' = current_host (fiber_props s ctx) \<and> last_epoch s' = host_epoch (fiber_props s ctx)"
    using assms n p by (auto simp: pick_next_def exec_simps props_defs split: if_splits)
qed

lemma take_next_cases:
  assumes "take_next uniform_int s = (Ok ctx, s')"
  shows "(\<exists>i < length (ready_fibers s). ctx = ready_fibers s ! i \<and> ready_fibers s' = erase_at i (ready_fibers s) \<and> main_fiber s' = main_fiber s) \<or>
     (ready_fibers s = [] \<and> main_fiber s = Some ctx \<and> ready_fibers s' = [] \<and> main_fiber s' = None)"
  using assms by (auto simp: take_next_def exec_simps split: if_splits option.splits prod.splits)

lemma pick_next_cases:
  assumes "pick_next uniform_int s = (Ok ctx, s')"
  shows "(\<exists>i < length (ready_fibers s). ctx = ready_fibers s ! i \<and> ready_fibers s' = erase_at i (ready_fibers s) \<and> main_fiber s' = main_fiber s) \<or>
     (ready_fibers s = [] \<and> main_fiber s = Some ctx \<and> ready_fibers s' = [] \<and> main_fiber s' = None)"
proof -
  obtain s1 where n: "take_next uniform_int s = (Ok ctx, s1)" and s': "ready_fibers s' = ready_fibers s1" "main_fiber s' = main_fiber s1"
    using assms by (auto simp: pick_next_def exec_simps props_defs split: if_splits prod.splits Result.splits)
  from take_next_cases [OF n] show ?thesis unfolding s' .
qed

lemma awakened_ready:
  assumes "\<not> is_main (fiber_props s f)"
  shows "\<exists>s'. awakened False f s = (Ok (), s') \<and> f \<in> set (ready_fibers s') \<and>
    (if host_initialized (fiber_props s f) then fiber_props s' = fiber_props s
     else current_host (fiber_props s' f) = last_host s \<and> host_epoch (fiber_props s' f) = last_epoch s)"
  using assms by (cases "host_initialized (fiber_props s f)") (simp_all add: awakened_def props_defs exec_simps SetCurrentHost_def)

text \<open>
  A new fiber belongs to the host that created it: after a fiber of a host, or the fiber of the simulation, was
  picked, a fiber that becomes ready for the first time gets the host and the epoch of the picked one, unless it is the
  dispatcher, and a fiber that has a host keeps it.
\<close>

theorem new_fiber_inherits_host:
  assumes "pick_next uniform_int s = (Ok ctx, s')" and "current_host (fiber_props s ctx) \<noteq> None \<or> is_main (fiber_props s ctx)"
    and "\<not> is_main (fiber_props s f)"
  shows "\<exists>s''. awakened False f s' = (Ok (), s'') \<and> f \<in> set (ready_fibers s'') \<and>
     (if host_initialized (fiber_props s f) then fiber_props s'' = fiber_props s
      else current_host (fiber_props s'' f) = current_host (fiber_props s ctx) \<and>
        host_epoch (fiber_props s'' f) = host_epoch (fiber_props s ctx))"
  using awakened_ready [of s' f] pick_next_last [OF assms(1)] assms(2,3) by (cases "host_initialized (fiber_props s f)") auto

theorem new_fiber_inherits_host_witness:
  "\<exists>s''. awakened False 5 (snd (pick_next pick_last
       (sample_scheduler\<lparr>fiber_props := (fiber_props sample_scheduler)(9 := \<lparr>is_main = False, host_initialized = True, current_host = Some 3, host_epoch = 2\<rparr>)\<rparr>))) = (Ok (), s'') \<and>
     current_host (fiber_props s'' 5) = Some 3 \<and> host_epoch (fiber_props s'' 5) = 2"
proof -
  let ?s = "sample_scheduler\<lparr>fiber_props := (fiber_props sample_scheduler)(9 := \<lparr>is_main = False, host_initialized = True, current_host = Some 3, host_epoch = 2\<rparr>)\<rparr>"
  have "fst (pick_next pick_last ?s) = Ok 9"
    by (simp add: pick_next_def take_next_def props_defs exec_simps sample_scheduler_def has_ready_fibers_def pick_last_def)
  then have "pick_next pick_last ?s = (Ok 9, snd (pick_next pick_last ?s))" by (metis prod.collapse)
  from new_fiber_inherits_host [OF this, of 5] show ?thesis
    by (auto simp: sample_scheduler_def new_RuntimeSimulationProps_def)
qed

end
