(* ===== verification/Rpc_Errors.thy ===== *)
theory Rpc_Errors
  imports Databases
begin

text \<open>
  Errors of remote calls (\<^verbatim>\<open>src/runtime/util/rpc_error/\<close>). The enumerator
  \<^verbatim>\<open>Internal\<close> has the prefix of its type, since the errors of the database have
  one of the same name.
\<close>

datatype RpcErrorType = NetworkError | ConnectionRefused | HandlerNotFound | RpcInternal | ParseError | Cancelled

record RpcError =
  rpc_error_type :: RpcErrorType
  rpc_status_message :: string

definition mk_RpcError :: "RpcErrorType \<Rightarrow> string \<Rightarrow> RpcError" where
  "mk_RpcError t message = \<lparr>rpc_error_type = t, rpc_status_message = message\<rparr>"

definition RpcError_Message :: "RpcError \<Rightarrow> string" where
  "RpcError_Message e =
     (let result = (case rpc_error_type e of
          NetworkError \<Rightarrow> ''NetworkError''
        | ConnectionRefused \<Rightarrow> ''ConnectionRefused''
        | HandlerNotFound \<Rightarrow> ''HandlerNotFound''
        | RpcInternal \<Rightarrow> ''Internal''
        | ParseError \<Rightarrow> ''ParseError''
        | Cancelled \<Rightarrow> ''Cancelled'')
      in if rpc_status_message e \<noteq> '''' then result @ '': '' @ rpc_status_message e else result)"

end
