(* ===== verification/Sim_World.thy ===== *)
theory Sim_World
  imports Scheduler Sync Stop_States Rpc_Errors Utilities
begin

text \<open>
  The simulated world: its clock and event queue, its hosts, their servers and the links between them
  (\<^verbatim>\<open>src/runtime/simulator/world.cpp\<close>, \<^verbatim>\<open>host.cpp\<close>, \<^verbatim>\<open>rpc_server.cpp\<close>,
  \<^verbatim>\<open>time.cpp\<close>, \<^verbatim>\<open>api.cpp\<close>).

  Pointers to hosts, servers, events, stop states and services are numbers, and the record of the world has the objects
  they point to. A member function of the source takes the pointer to its object as an argument, and the number of the
  fiber that calls it where the source asks for the current fiber. Times are counts of microseconds in signed 64-bit integers, here an \<open>int\<close>;
  a sum or a conversion that leaves their range is undefined behaviour, a panic of the model. The distributions of
  the standard library and the product of a \<^verbatim>\<open>double\<close> and a count are the fields of \<open>platform\<close>.

  A function of the source that can suspend its fiber is split where it does so. A function that returns a truth
  value for a \<^verbatim>\<open>void\<close> of the source returns \<open>False\<close> when the fiber is suspended in
  \<^verbatim>\<open>StopFiberIfNecessary\<close>: nothing has been done then, and the same call is repeated when the fiber goes on.
\<close>

section \<open>State\<close>

type_synonym Timestamp = int

record ('g, 'd) platform =
  uniform_int :: "int \<Rightarrow> int \<Rightarrow> 'g \<Rightarrow> int \<times> 'g"
  uniform_size :: "nat \<Rightarrow> nat \<Rightarrow> 'g \<Rightarrow> nat \<times> 'g"
  uniform_real :: "'d \<Rightarrow> 'd \<Rightarrow> 'g \<Rightarrow> 'd \<times> 'g"
  scale :: "'d \<Rightarrow> int \<Rightarrow> int"

record 'd HostOptions =
  opt_start_time :: Interval
  drift_interval :: "'d \<times> 'd"
  opt_max_sleep_lag :: Duration

record 'd WorldOptions =
  network_error_proba :: 'd
  delivery_time :: Interval
  long_delivery_time :: Interval
  long_delivery_time_proba :: 'd

record ServerImpl =
  services :: "string \<rightharpoonup> nat"
  running :: bool
  finished :: bool
  requests_latch :: Latch
  worker_started :: Event
  shutdown_event :: Event
  server_port :: nat

definition new_ServerImpl :: ServerImpl where
  "new_ServerImpl = \<lparr>services = Map.empty, running = False, finished = False, requests_latch = new_Latch,
     worker_started = new_Event, shutdown_event = new_Event, server_port = 0\<rparr>"

record 'd Host =
  start_time :: Timestamp
  drift :: 'd
  max_sleep_lag :: Duration
  host_main :: nat
  joinable :: bool
  host_address :: string
  servers :: "nat \<rightharpoonup> nat"
  paused :: bool
  epoch :: nat

text \<open>What the stop callbacks of the simulator do: a sleep removes its event from the queue, and both kinds signal an event.\<close>

datatype callback_body = EraseAndSignal Timestamp nat | SignalOnly nat

record ('g, 'd) World =
  hosts :: "(string \<times> nat) list"
  host_objs :: "nat \<Rightarrow> 'd Host"
  server_objs :: "nat \<Rightarrow> ServerImpl"
  initialized :: bool
  events_queue :: "(Timestamp \<times> nat) list"
  events :: "nat \<Rightarrow> Event"
  current_time :: Timestamp
  options :: "'d WorldOptions"
  closed_links :: "(string \<times> string) set"
  stop_states :: "nat \<Rightarrow> StopState"
  callback_bodies :: "nat \<Rightarrow> callback_body"
  request_results :: "nat \<Rightarrow> (nat list, RpcError) Result"
  scheduler :: "'g RuntimeSimulationScheduler"

text \<open>The world of a process that has just started; the objects of hosts are made later.\<close>

definition GetWorld :: "'g \<Rightarrow> 'd WorldOptions \<Rightarrow> (nat \<Rightarrow> 'd Host) \<Rightarrow> ('g, 'd) World" where
  "GetWorld gen opts objs =
     \<lparr>hosts = [], host_objs = objs, server_objs = (\<lambda>_. new_ServerImpl), initialized = False, events_queue = [],
      events = (\<lambda>_. new_Event), current_time = 0, options = opts, closed_links = {}, stop_states = (\<lambda>_. new_StopState),
      callback_bodies = SignalOnly,
      request_results = (\<lambda>_. Err (mk_RpcError Cancelled [])), scheduler = new_RuntimeSimulationScheduler gen\<rparr>"

type_synonym ('g, 'd, 'a) sim = "(('g, 'd) World, 'a) exec"

definition with_scheduler :: "('g RuntimeSimulationScheduler, 'a) exec \<Rightarrow> ('g, 'd, 'a) sim" where
  "with_scheduler m w = (case m (scheduler w) of (r, s) \<Rightarrow> (r, w\<lparr>scheduler := s\<rparr>))"

definition draw :: "('g \<Rightarrow> 'a \<times> 'g) \<Rightarrow> ('g, 'd, 'a) sim" where
  "draw f w = (case f (generator (scheduler w)) of (x, gen) \<Rightarrow> (Ok x, w\<lparr>scheduler := (scheduler w)\<lparr>generator := gen\<rparr>\<rparr>))"

definition set_host :: "nat \<Rightarrow> ('d Host \<Rightarrow> 'd Host) \<Rightarrow> ('g, 'd, unit) sim" where
  "set_host h f = modify (\<lambda>w. w\<lparr>host_objs := (host_objs w)(h := f (host_objs w h))\<rparr>)"

definition set_server :: "nat \<Rightarrow> (ServerImpl \<Rightarrow> ServerImpl) \<Rightarrow> ('g, 'd, unit) sim" where
  "set_server sv f = modify (\<lambda>w. w\<lparr>server_objs := (server_objs w)(sv := f (server_objs w sv))\<rparr>)"

definition signal :: "nat \<Rightarrow> ('g, 'd, unit) sim" where
  "signal ev = modify (\<lambda>w. w\<lparr>events := (events w)(ev := Event_Signal (events w ev))\<rparr>)"

section \<open>The current fiber\<close>

definition GetCurrentHost :: "nat \<Rightarrow> ('g, 'd, nat) sim" where
  "GetCurrentHost me =
     bind (with_scheduler (HostIsInitialized me)) (\<lambda>i.
     bind (verify i ''current host is not initialized'') (\<lambda>_.
     bind (with_scheduler (Props_GetCurrentHost me)) (\<lambda>result.
     bind (verify (result \<noteq> None) ''system function is called outside server context'') (\<lambda>_.
     ret (the result)))))"

definition GetCurrentEpoch :: "nat \<Rightarrow> ('g, 'd, nat) sim" where
  "GetCurrentEpoch me =
     bind (with_scheduler (HostIsInitialized me)) (\<lambda>i.
     bind (verify i ''current host is not initialized'') (\<lambda>_.
     with_scheduler (Props_GetCurrentEpoch me)))"

definition StopFiberIfNecessary :: "nat \<Rightarrow> nat \<Rightarrow> ('g, 'd, bool) sim" where
  "StopFiberIfNecessary me this =
     bind (gets (\<lambda>w. host_objs w this)) (\<lambda>h.
     if paused h then ret False
     else bind (GetCurrentEpoch me) (\<lambda>fiber_epoch.
       bind (verify (fiber_epoch \<le> epoch h) ''invalid fiber epoch'') (\<lambda>_.
       ret (fiber_epoch = epoch h))))"

section \<open>Clock and event queue\<close>

definition Initialize :: "'g \<Rightarrow> 'd WorldOptions \<Rightarrow> ('g, 'd, unit) sim" where
  "Initialize gen opts =
     modify (\<lambda>w. w\<lparr>options := opts, scheduler := new_RuntimeSimulationScheduler gen, initialized := True\<rparr>)"

definition GetGlobalTime :: "('g, 'd, Timestamp) sim" where
  "GetGlobalTime = gets current_time"

text \<open>Insertion into the multimap goes behind the entries of the same time.\<close>

definition insert_event :: "Timestamp \<Rightarrow> nat \<Rightarrow> (Timestamp \<times> nat) list \<Rightarrow> (Timestamp \<times> nat) list" where
  "insert_event t ev q = takeWhile (\<lambda>e. fst e \<le> t) q @ (t, ev) # dropWhile (\<lambda>e. fst e \<le> t) q"

definition erase_event :: "Timestamp \<Rightarrow> nat \<Rightarrow> ('g, 'd, unit) sim" where
  "erase_event t ev =
     bind (gets events_queue) (\<lambda>q.
     if (t, ev) \<in> set q then modify (events_queue_update (remove1 (t, ev)))
     else lift (Err (UndefinedBehaviour ''erase of an invalid iterator'')))"

fun run_callback :: "callback_body \<Rightarrow> ('g, 'd, unit) sim" where
  "run_callback (EraseAndSignal t ev) = bind (erase_event t ev) (\<lambda>_. signal ev)"
| "run_callback (SignalOnly ev) = signal ev"

text \<open>Constructing a callback, with the token that it takes; a token without a state never stops.\<close>

definition add_callback :: "nat option \<Rightarrow> nat \<Rightarrow> callback_body \<Rightarrow> ('g, 'd, unit) sim" where
  "add_callback token cb body =
     (case token of
        None \<Rightarrow> ret ()
      | Some st \<Rightarrow>
          bind (gets (\<lambda>w. StopCallback_new cb (stop_states w st))) (\<lambda>(ran, st').
          bind (modify (\<lambda>w. w\<lparr>stop_states := (stop_states w)(st := st'), callback_bodies := (callback_bodies w)(cb := body)\<rparr>)) (\<lambda>_.
          if ran \<noteq> [] then run_callback body else ret ())))"

definition delete_callback :: "nat option \<Rightarrow> nat \<Rightarrow> ('g, 'd, unit) sim" where
  "delete_callback token cb =
     (case token of
        None \<Rightarrow> ret ()
      | Some st \<Rightarrow> modify (\<lambda>w. w\<lparr>stop_states := (stop_states w)(st := StopCallback_delete cb (stop_states w st))\<rparr>))"

definition stop_requested :: "nat option \<Rightarrow> ('g, 'd, bool) sim" where
  "stop_requested token = gets (\<lambda>w. case token of None \<Rightarrow> False | Some st \<Rightarrow> cancelled (stop_states w st))"

definition stop_source :: "nat \<Rightarrow> ('g, 'd, unit) sim" where
  "stop_source st =
     bind (gets (\<lambda>w. StopSource_Stop (stop_states w st))) (\<lambda>(cbs, st').
     bind (modify (\<lambda>w. w\<lparr>stop_states := (stop_states w)(st := st')\<rparr>)) (\<lambda>_.
     for_each cbs (\<lambda>cb. bind (gets (\<lambda>w. callback_bodies w cb)) run_callback)))"

text \<open>
  \<^verbatim>\<open>World::SleepUntil\<close> up to its \<^verbatim>\<open>Await\<close>, which ends when the event \<open>ev\<close> is signalled, and the destructor of the
  callback after it. The event and the callback have the same name.
\<close>

definition World_SleepUntil :: "nat \<Rightarrow> Timestamp \<Rightarrow> nat option \<Rightarrow> ('g, 'd, unit) sim" where
  "World_SleepUntil ev wake_up_time stop_token =
     bind (modify (\<lambda>w. w\<lparr>events := (events w)(ev := new_Event), events_queue := insert_event wake_up_time ev (events_queue w)\<rparr>)) (\<lambda>_.
     add_callback stop_token ev (EraseAndSignal wake_up_time ev))"

definition World_SleepUntil_end :: "nat \<Rightarrow> nat option \<Rightarrow> ('g, 'd, unit) sim" where
  "World_SleepUntil_end ev stop_token = delete_callback stop_token ev"

section \<open>Hosts\<close>

definition s64 :: "int \<Rightarrow> (int, panic) Result" where
  "s64 x = (if - (2 ^ 63) \<le> x \<and> x < 2 ^ 63 then Ok x else Err (UndefinedBehaviour ''signed overflow''))"

text \<open>The conversion of the product with the drift, and the two sums.\<close>

definition ToLocalTime :: "('d \<Rightarrow> int \<Rightarrow> int) \<Rightarrow> 'd Host \<Rightarrow> Timestamp \<Rightarrow> (Timestamp, panic) Result" where
  "ToLocalTime mul h global_time =
     AndThen (s64 (mul (drift h) global_time)) (\<lambda>drifted.
     AndThen (s64 (drifted + start_time h)) (\<lambda>shift.
     s64 (global_time + shift)))"

definition Duration_max :: nat where
  "Duration_max = 2 ^ 63 - 1"

definition ToGlobalTime :: "('d \<Rightarrow> int \<Rightarrow> int) \<Rightarrow> 'd Host \<Rightarrow> Timestamp \<Rightarrow> ('g, 'd, Timestamp) sim" where
  "ToGlobalTime mul h local_time =
     bind (lift (BinarySearch_checked 0 Duration_max (\<lambda>val.
       AndThen (ToLocalTime mul h (int val)) (\<lambda>t. Ok (local_time \<le> t))))) (\<lambda>val.
     bind (lift (ToLocalTime mul h (int val))) (\<lambda>t.
     bind (verify (local_time \<le> t) ''ToGlobalTime error'') (\<lambda>_.
     ret (int val))))"

definition GetLocalTime :: "('g, 'd) platform \<Rightarrow> nat \<Rightarrow> ('g, 'd, Timestamp) sim" where
  "GetLocalTime lib this =
     bind GetGlobalTime (\<lambda>t.
     bind (gets (\<lambda>w. host_objs w this)) (\<lambda>h.
     lift (ToLocalTime (scale lib) h t)))"

text \<open>The result is the time of the event.\<close>

definition Host_SleepUntil ::
  "('g, 'd) platform \<Rightarrow> nat \<Rightarrow> nat \<Rightarrow> nat \<Rightarrow> Timestamp \<Rightarrow> nat option \<Rightarrow> ('g, 'd, Timestamp) sim" where
  "Host_SleepUntil lib me this ev local_time stop_token =
     bind (GetCurrentHost me) (\<lambda>current.
     bind (verify (current = this) ''invalid current_host'') (\<lambda>_.
     bind (gets (\<lambda>w. host_objs w this)) (\<lambda>h.
     bind (draw (uniform_int lib 0 (max_sleep_lag h))) (\<lambda>val.
     bind (lift (s64 (local_time + val))) (\<lambda>local_time.
     bind (ToGlobalTime (scale lib) h local_time) (\<lambda>global_timestamp.
     bind GetGlobalTime (\<lambda>now.
     bind (verify (now \<le> global_timestamp) ''invalid timestamp for sleep'') (\<lambda>_.
     bind (World_SleepUntil ev global_timestamp stop_token) (\<lambda>_.
     ret global_timestamp)))))))))"

definition Host_SleepUntil_wake :: "nat \<Rightarrow> Timestamp \<Rightarrow> nat option \<Rightarrow> ('g, 'd, unit) sim" where
  "Host_SleepUntil_wake ev global_timestamp stop_token =
     bind (World_SleepUntil_end ev stop_token) (\<lambda>_.
     bind GetGlobalTime (\<lambda>now.
     bind (stop_requested stop_token) (\<lambda>stopped.
     verify (now = global_timestamp \<or> stopped) ''SleepUntil error'')))"

definition Host_SleepUntil_return :: "nat \<Rightarrow> nat \<Rightarrow> nat option \<Rightarrow> ('g, 'd, bool option) sim" where
  "Host_SleepUntil_return me this stop_token =
     bind (StopFiberIfNecessary me this) (\<lambda>goes_on.
     if goes_on then bind (stop_requested stop_token) (\<lambda>stopped. ret (Some stopped)) else ret None)"

definition RegisterServer :: "nat \<Rightarrow> nat \<Rightarrow> nat \<Rightarrow> nat \<Rightarrow> ('g, 'd, bool) sim" where
  "RegisterServer me this server p =
     bind (StopFiberIfNecessary me this) (\<lambda>goes_on.
     if \<not> goes_on then ret False
     else bind (gets (\<lambda>w. servers (host_objs w this))) (\<lambda>ss.
       bind (verify (ss p = None) ''port is already used'') (\<lambda>_.
       bind (set_host this (\<lambda>h. h\<lparr>servers := (servers h)(p \<mapsto> server)\<rparr>)) (\<lambda>_.
       ret True))))"

definition UnregisterServer :: "nat \<Rightarrow> nat \<Rightarrow> nat \<Rightarrow> ('g, 'd, bool) sim" where
  "UnregisterServer me this p =
     bind (StopFiberIfNecessary me this) (\<lambda>goes_on.
     if \<not> goes_on then ret False
     else bind (gets (\<lambda>w. servers (host_objs w this))) (\<lambda>ss.
       bind (verify (ss p \<noteq> None) ''server was not registered'') (\<lambda>_.
       bind (set_host this (\<lambda>h. h\<lparr>servers := (servers h)(p := None)\<rparr>)) (\<lambda>_.
       ret True))))"

definition Host_PauseHost :: "nat \<Rightarrow> ('g, 'd, unit) sim" where
  "Host_PauseHost this = set_host this (\<lambda>h. h\<lparr>paused := True\<rparr>)"

definition Host_ResumeHost :: "nat \<Rightarrow> ('g, 'd, unit) sim" where
  "Host_ResumeHost this = set_host this (\<lambda>h. h\<lparr>paused := False\<rparr>)"

definition Host_KillHost :: "nat \<Rightarrow> ('g, 'd, unit) sim" where
  "Host_KillHost this =
     bind (gets (\<lambda>w. joinable (host_objs w this))) (\<lambda>j.
     if \<not> j then ret ()
     else set_host this (\<lambda>h. h\<lparr>servers := Map.empty, joinable := False, epoch := u64_inc (epoch h)\<rparr>))"

text \<open>Starting makes a fiber \<open>f\<close> that runs \<^verbatim>\<open>RunMain\<close>, and yields.\<close>

definition Host_StartHost :: "nat \<Rightarrow> nat \<Rightarrow> ('g, 'd, unit) sim" where
  "Host_StartHost f this =
     bind (gets (\<lambda>w. host_objs w this)) (\<lambda>h.
     if joinable h then ret ()
     else bind (set_host this (\<lambda>h. h\<lparr>joinable := True\<rparr>)) (\<lambda>_.
       bind (with_scheduler (awakened False f)) (\<lambda>_.
       with_scheduler (SetCurrentHost f (Some this) (epoch h)))))"

text \<open>The constructor makes the object at \<open>this\<close> and starts the host.\<close>

definition mk_Host ::
  "('g, 'd) platform \<Rightarrow> nat \<Rightarrow> nat \<Rightarrow> string \<Rightarrow> nat \<Rightarrow> 'd HostOptions \<Rightarrow> ('g, 'd, unit) sim" where
  "mk_Host lib f this addr main opts =
     bind (draw (GetRandomFloat (uniform_real lib) (fst (drift_interval opts)) (snd (drift_interval opts)))) (\<lambda>d.
     bind (draw (GetRandomDuration (uniform_int lib) (opt_start_time opts))) (\<lambda>t.
     bind (set_host this (\<lambda>_. \<lparr>start_time = t, drift = d, max_sleep_lag = opt_max_sleep_lag opts, host_main = main,
       joinable = False, host_address = addr, servers = Map.empty, paused = False, epoch = 0\<rparr>)) (\<lambda>_.
     Host_StartHost f this)))"

text \<open>Whether \<^verbatim>\<open>RunMain\<close> sleeps until the start time before it calls \<^verbatim>\<open>Main\<close>.\<close>

definition RunMain :: "('g, 'd) platform \<Rightarrow> nat \<Rightarrow> nat \<Rightarrow> nat \<Rightarrow> ('g, 'd, Timestamp option) sim" where
  "RunMain lib me this ev =
     bind (gets (\<lambda>w. host_objs w this)) (\<lambda>h.
     if epoch h = 0
     then bind (Host_SleepUntil lib me this ev (start_time h) None) (\<lambda>t. ret (Some t))
     else ret None)"

section \<open>The world\<close>

definition World_AddHost :: "string \<Rightarrow> nat \<Rightarrow> ('g, 'd, unit) sim" where
  "World_AddHost addr host =
     bind (gets hosts) (\<lambda>hs.
     bind (verify (map_of hs addr = None) ''address already used'') (\<lambda>_.
     modify (hosts_update (\<lambda>hs. hs @ [(addr, host)]))))"

definition GetHost :: "string \<Rightarrow> ('g, 'd, nat) sim" where
  "GetHost addr =
     bind (gets hosts) (\<lambda>hs.
     bind (verify (map_of hs addr \<noteq> None) (''host <'' @ addr @ ''> is not registered in the world'')) (\<lambda>_.
     ret (the (map_of hs addr))))"

definition World_CloseLink :: "string \<Rightarrow> string \<Rightarrow> ('g, 'd, unit) sim" where
  "World_CloseLink from to = modify (closed_links_update (insert (from, to)))"

definition World_RestoreLink :: "string \<Rightarrow> string \<Rightarrow> ('g, 'd, unit) sim" where
  "World_RestoreLink from to = modify (closed_links_update (\<lambda>ls. ls - {(from, to)}))"

definition GetRpcDelay :: "('g, 'd :: {ord, field}) platform \<Rightarrow> ('g, 'd, Duration) sim" where
  "GetRpcDelay lib =
     bind (gets options) (\<lambda>opts.
     bind (draw (GetProbability (uniform_real lib))) (\<lambda>p.
     if p < long_delivery_time_proba opts
     then draw (GetRandomDuration (uniform_int lib) (long_delivery_time opts))
     else draw (GetRandomDuration (uniform_int lib) (delivery_time opts))))"

definition ShouldMakeNetworkError :: "('g, 'd :: {ord, field}) platform \<Rightarrow> ('g, 'd, bool) sim" where
  "ShouldMakeNetworkError lib =
     bind (draw (uniform_real lib 0 1)) (\<lambda>p. gets (\<lambda>w. p < network_error_proba (options w)))"

text \<open>
  One round of the loop of \<^verbatim>\<open>RunSimulation\<close>, up to its \<^verbatim>\<open>yield\<close>. The argument
  \<open>yield\<close> of the functions below is what the other fibers do until the calling one is resumed.
\<close>

definition next_event_due :: "Duration \<Rightarrow> ('g, 'd) World \<Rightarrow> bool" where
  "next_event_due duration w \<longleftrightarrow> (case events_queue w of [] \<Rightarrow> False | (t, _) # _ \<Rightarrow> t \<le> duration)"

definition fire_event :: "('g, 'd, unit) sim" where
  "fire_event =
     bind (gets events_queue) (\<lambda>q.
     case q of
       [] \<Rightarrow> lift (Err (UndefinedBehaviour ''begin of an empty queue''))
     | (ts, event) # rest \<Rightarrow>
         bind (modify (events_queue_update (\<lambda>_. rest))) (\<lambda>_.
         bind GetGlobalTime (\<lambda>now.
         bind (verify (now \<le> ts) ''invalid event timestamp'') (\<lambda>_.
         bind (modify (current_time_update (\<lambda>_. ts))) (\<lambda>_.
         signal event)))))"

primrec simulation_loop :: "('g, 'd, unit) sim \<Rightarrow> Duration \<Rightarrow> nat \<Rightarrow> ('g, 'd, unit) sim" where
  "simulation_loop yield duration 0 = ret ()"
| "simulation_loop yield duration (Suc iteration_count) =
     bind (gets (next_event_due duration)) (\<lambda>due.
     if \<not> due then ret ()
     else bind fire_event (\<lambda>_. bind yield (\<lambda>_. simulation_loop yield duration iteration_count)))"

definition RunSimulation ::
  "(nat \<Rightarrow> ('g RuntimeSimulationScheduler, unit) exec) \<Rightarrow> ('g, 'd, unit) sim \<Rightarrow> nat \<Rightarrow> Duration \<Rightarrow> nat \<Rightarrow> ('g, 'd, unit) sim" where
  "RunSimulation props_notify yield me duration iteration_count =
     bind (gets initialized) (\<lambda>i.
     bind (verify i ''world in unitialized'') (\<lambda>_.
     bind (with_scheduler (MarkAsMainFiber props_notify me)) (\<lambda>_.
     bind yield (\<lambda>_.
     bind (simulation_loop yield duration iteration_count) (\<lambda>_.
     bind (gets hosts) (\<lambda>hs.
     bind (for_each hs (\<lambda>(_, host). bind (Host_KillHost host) (\<lambda>_. Host_ResumeHost host))) (\<lambda>_.
     bind yield (\<lambda>_.
     modify (\<lambda>w. w\<lparr>hosts := [], events_queue := [], closed_links := {}, current_time := 0, initialized := False\<rparr>)))))))))"

section \<open>The interface of the runtime and of the tests\<close>

definition Now :: "('g, 'd) platform \<Rightarrow> nat \<Rightarrow> ('g, 'd, Timestamp) sim" where
  "Now lib me = bind (GetCurrentHost me) (GetLocalTime lib)"

definition SleepUntil :: "('g, 'd) platform \<Rightarrow> nat \<Rightarrow> nat \<Rightarrow> Timestamp \<Rightarrow> nat option \<Rightarrow> ('g, 'd, Timestamp) sim" where
  "SleepUntil lib me ev timestamp stop_token =
     bind (GetCurrentHost me) (\<lambda>host. Host_SleepUntil lib me host ev timestamp stop_token)"

definition SleepFor :: "('g, 'd) platform \<Rightarrow> nat \<Rightarrow> nat \<Rightarrow> Duration \<Rightarrow> nat option \<Rightarrow> ('g, 'd, Timestamp) sim" where
  "SleepFor lib me ev duration stop_token =
     bind (Now lib me) (\<lambda>now.
     bind (lift (s64 (now + duration))) (\<lambda>timestamp.
     SleepUntil lib me ev timestamp stop_token))"

definition AddHost ::
  "('g, 'd) platform \<Rightarrow> ('g, 'd, unit) sim \<Rightarrow> nat \<Rightarrow> nat \<Rightarrow> string \<Rightarrow> nat \<Rightarrow> 'd HostOptions \<Rightarrow> ('g, 'd, unit) sim" where
  "AddHost lib yield f host addr main opts =
     bind (mk_Host lib f host addr main opts) (\<lambda>_. bind yield (\<lambda>_. World_AddHost addr host))"

definition GetHostUniqueId :: "nat \<Rightarrow> ('g, 'd, nat) sim" where
  "GetHostUniqueId me = GetCurrentHost me"

definition PauseHost :: "string \<Rightarrow> ('g, 'd, unit) sim" where
  "PauseHost addr = bind (GetHost addr) Host_PauseHost"

definition ResumeHost :: "string \<Rightarrow> ('g, 'd, unit) sim" where
  "ResumeHost addr = bind (GetHost addr) Host_ResumeHost"

definition KillHost :: "string \<Rightarrow> ('g, 'd, unit) sim" where
  "KillHost addr = bind (GetHost addr) Host_KillHost"

definition StartHost :: "nat \<Rightarrow> string \<Rightarrow> ('g, 'd, unit) sim" where
  "StartHost f addr = bind (GetHost addr) (Host_StartHost f)"

definition CloseLinkBidirectional :: "string \<Rightarrow> string \<Rightarrow> ('g, 'd, unit) sim" where
  "CloseLinkBidirectional a b = bind (World_CloseLink a b) (\<lambda>_. World_CloseLink b a)"

definition RestoreLinkBidirectional :: "string \<Rightarrow> string \<Rightarrow> ('g, 'd, unit) sim" where
  "RestoreLinkBidirectional a b = bind (World_RestoreLink a b) (\<lambda>_. World_RestoreLink b a)"

end
