(* ===== verification/Sim_Time.thy ===== *)
theory Sim_Time
  imports Sim_World
begin

text \<open>
  Sleeping in the simulator: the conversion between the clock of the world and the drifting clock of a host
  (\<^verbatim>\<open>Host::ToLocalTime\<close>, \<^verbatim>\<open>Host::ToGlobalTime\<close> in \<^verbatim>\<open>src/runtime/simulator/host.cpp\<close>) and the event that a sleeping fiber waits for.

  The source adds signed 64-bit counts, and its binary search over all counts asks for the local time in the middle of their range first. Everything
  here is therefore about a host whose local times are representable up to that middle, \<open>2\<^sup>6\<^sup>2 - 1\<close> microseconds.
\<close>

section \<open>Local and global time\<close>

text \<open>The clock of a host, as exact integers.\<close>

definition clock_at :: "('d \<Rightarrow> int \<Rightarrow> int) \<Rightarrow> 'd Host \<Rightarrow> Timestamp \<Rightarrow> Timestamp" where
  "clock_at mul h t = t + (mul (drift h) t + start_time h)"

definition half_range :: int where
  "half_range = int (Duration_max div 2)"

text \<open>No sum overflows in the lower half of the range.\<close>

definition clock_fits :: "('d \<Rightarrow> int \<Rightarrow> int) \<Rightarrow> 'd Host \<Rightarrow> bool" where
  "clock_fits mul h \<longleftrightarrow> (\<forall>t. 0 \<le> t \<longrightarrow> t \<le> half_range \<longrightarrow>
     - (2 ^ 63) \<le> mul (drift h) t \<and> mul (drift h) t < 2 ^ 63 \<and>
     - (2 ^ 63) \<le> mul (drift h) t + start_time h \<and> mul (drift h) t + start_time h < 2 ^ 63 \<and>
     - (2 ^ 63) \<le> clock_at mul h t \<and> clock_at mul h t < 2 ^ 63)"

text \<open>A clock that does not run backwards relative to the clock of the world: the product with the drift does not decrease.\<close>

definition drift_mono :: "('d \<Rightarrow> int \<Rightarrow> int) \<Rightarrow> 'd Host \<Rightarrow> bool" where
  "drift_mono mul h \<longleftrightarrow> (\<forall>x y. 0 \<le> x \<longrightarrow> x \<le> y \<longrightarrow> mul (drift h) x \<le> mul (drift h) y)"

lemma ToLocalTime_fits: "clock_fits mul h \<Longrightarrow> 0 \<le> t \<Longrightarrow> t \<le> half_range \<Longrightarrow> ToLocalTime mul h t = Ok (clock_at mul h t)"
  by (simp add: clock_fits_def ToLocalTime_def s64_def clock_at_def)

lemma clock_strict: "drift_mono mul h \<Longrightarrow> 0 \<le> x \<Longrightarrow> x < y \<Longrightarrow> clock_at mul h x < clock_at mul h y"
  by (fastforce simp: drift_mono_def clock_at_def intro: add_less_le_mono)

lemma clock_mono: "drift_mono mul h \<Longrightarrow> 0 \<le> x \<Longrightarrow> x \<le> y \<Longrightarrow> clock_at mul h x \<le> clock_at mul h y"
  using clock_strict [of mul h x y] by (cases "x = y") simp_all

text \<open>The first probe of the search lies in the middle, so all others are below it.\<close>

lemma lower_half_search:
  assumes "predicate (Duration_max div 2) = Ok True" and "\<And>i. i < Duration_max div 2 \<Longrightarrow> predicate i = Ok (P i)"
  shows "BinarySearch_checked 0 Duration_max predicate = Ok (BinarySearch 0 (Duration_max div 2) P)"
proof -
  have "0 < Duration_max" by (simp add: Duration_max_def)
  then have "BinarySearch_checked 0 Duration_max predicate = BinarySearch_checked 0 (Duration_max div 2) predicate"
    using assms(1) by (subst BinarySearch_checked.simps) (simp add: Let_def)
  then show ?thesis using BinarySearch_checked_ok [of 0 "Duration_max div 2" predicate P] assms(2) by simp
qed

lemma ToGlobalTime_spec:
  assumes "drift_mono mul h" and "clock_fits mul h" and "local_time \<le> clock_at mul h half_range"
  shows "\<exists>g. ToGlobalTime mul h local_time w = (Ok g, w) \<and> 0 \<le> g \<and> g \<le> half_range \<and>
     local_time \<le> clock_at mul h g \<and> (\<forall>g'. 0 \<le> g' \<longrightarrow> g' < g \<longrightarrow> clock_at mul h g' < local_time)"
proof -
  let ?M = "Duration_max div 2" and ?P = "\<lambda>val. local_time \<le> clock_at mul h (int val)"
  let ?b = "BinarySearch 0 ?M ?P"
  have half: "int ?M = half_range" by (simp add: half_range_def)
  have local: "ToLocalTime mul h (int i) = Ok (clock_at mul h (int i))" if "i \<le> ?M" for i
    using that by (intro ToLocalTime_fits [OF assms(2)]) (simp_all flip: half)
  have search: "BinarySearch_checked 0 Duration_max (\<lambda>val. AndThen (ToLocalTime mul h (int val)) (\<lambda>t. Ok (local_time \<le> t))) = Ok ?b"
    using assms(3) local [of ?M] by (intro lower_half_search) (simp_all add: local half)
  have mono: "?P j" if "i \<le> j" "?P i" for i j
    using clock_mono [OF assms(1), of "int i" "int j"] that by simp
  have "0 \<le> ?b \<and> ?b \<le> ?M \<and> (\<forall>i. 0 \<le> i \<longrightarrow> i < ?b \<longrightarrow> \<not> ?P i) \<and> (?b < ?M \<longrightarrow> ?P ?b)"
    by (rule BinarySearch_spec [OF le0]) (rule mono)
  then have b: "?b \<le> ?M" "\<forall>i. i < ?b \<longrightarrow> \<not> ?P i" "?b < ?M \<longrightarrow> ?P ?b" by simp_all
  then have "?P ?b" using assms(3) half by (cases "?b = ?M") simp_all
  moreover have "clock_at mul h g' < local_time" if "0 \<le> g'" "g' < int ?b" for g'
    using b(2) [rule_format, of "nat g'"] that by (simp add: nat_less_iff)
  moreover have "int ?b \<le> half_range" using b(1) by (simp flip: half)
  ultimately show ?thesis
    using search local [OF b(1)] by (intro exI [of _ "int ?b"]) (simp add: ToGlobalTime_def exec_simps)
qed

text \<open>
  For a host whose clock drifts forward, translating a moment of the world to the clock of the host and back gives
  the same moment: the binary search of \<^verbatim>\<open>ToGlobalTime\<close> undoes \<^verbatim>\<open>ToLocalTime\<close>.
\<close>

theorem ToGlobalTime_inverts:
  assumes "drift_mono mul h" and "clock_fits mul h" and "0 \<le> g" and "g \<le> half_range"
  shows "ToLocalTime mul h g = Ok (clock_at mul h g) \<and> ToGlobalTime mul h (clock_at mul h g) w = (Ok g, w)"
proof -
  from ToGlobalTime_spec [OF assms(1,2) clock_mono [OF assms(1,3,4)], of w] obtain g'
    where g': "ToGlobalTime mul h (clock_at mul h g) w = (Ok g', w)" "0 \<le> g'" "clock_at mul h g \<le> clock_at mul h g'"
      "\<forall>x. 0 \<le> x \<longrightarrow> x < g' \<longrightarrow> clock_at mul h x < clock_at mul h g" by blast
  have "\<not> g' < g" using clock_strict [OF assms(1) g'(2), of g] g'(3) by auto
  moreover have "\<not> g < g'" using g'(4) assms(3) by auto
  ultimately show ?thesis using g'(1) ToLocalTime_fits [OF assms(2-4)] by simp
qed

section \<open>Sleeping\<close>

lemma add_callback_queue:
  assumes "\<And>st. token = Some st \<Longrightarrow> \<not> cancelled (stop_states w st)"
  shows "\<exists>w'. add_callback token cb body w = (Ok (), w') \<and> events_queue w' = events_queue w \<and> current_time w' = current_time w"
  using assms by (cases token) (auto simp: add_callback_def StopCallback_new_def exec_simps)

definition local_clock :: "('g, 'd) platform \<Rightarrow> ('g, 'd) World \<Rightarrow> nat \<Rightarrow> Timestamp \<Rightarrow> Timestamp" where
  "local_clock lib w h = clock_at (scale lib) (host_objs w h)"

definition runs_on :: "('g, 'd) World \<Rightarrow> nat \<Rightarrow> nat \<Rightarrow> bool" where
  "runs_on w me h \<longleftrightarrow> host_initialized (fiber_props (scheduler w) me) \<and> current_host (fiber_props (scheduler w) me) = Some h"

lemma GetCurrentHost_run: "runs_on w me h \<Longrightarrow> GetCurrentHost me w = (Ok h, w)"
  by (simp add: runs_on_def GetCurrentHost_def with_scheduler_def props_defs exec_simps)

lemma Now_run: "runs_on w me h \<Longrightarrow> Now lib me w = (ToLocalTime (scale lib) (host_objs w h) (current_time w), w)"
  by (simp add: Now_def exec_simps GetCurrentHost_run GetLocalTime_def GetGlobalTime_def)

lemma draw_run: "draw f w = (Ok (fst (f (generator (scheduler w)))),
    w\<lparr>scheduler := (scheduler w)\<lparr>generator := snd (f (generator (scheduler w)))\<rparr>\<rparr>)"
  by (simp add: draw_def split: prod.split)


text \<open>Without the bound a sleep can be undefined: the longest duration overflows as soon as the local clock is past 0.\<close>

lemma SleepFor_overflow:
  assumes "runs_on w me h" and "ToLocalTime (scale lib) (host_objs w h) (current_time w) = Ok t" and "0 < t"
  shows "SleepFor lib me ev (int Duration_max) token w = (Err (UndefinedBehaviour ''signed overflow''), w)"
  using assms by (simp add: SleepFor_def exec_simps Now_run s64_def Duration_max_def)

definition sample_platform :: "(unit, int) platform" where
  "sample_platform = \<lparr>uniform_int = (\<lambda>lo hi g. (hi, g)), uniform_size = (\<lambda>lo hi g. (lo, g)), uniform_real = (\<lambda>lo hi g. (lo, g)),
     scale = (\<lambda>d x. x * d div 1000)\<rparr>"

definition sample_host :: "int Host" where
  "sample_host = \<lparr>start_time = 10, drift = 2, max_sleep_lag = 7, host_main = 0, joinable = True, host_address = ''a'',
     servers = Map.empty, paused = False, epoch = 0\<rparr>"

definition sample_world :: "(unit, int) World" where
  "sample_world = (GetWorld () \<lparr>network_error_proba = 0, delivery_time = \<lparr>ival_from = 0, ival_to = 0\<rparr>,
       long_delivery_time = \<lparr>ival_from = 0, ival_to = 0\<rparr>, long_delivery_time_proba = 0\<rparr> (\<lambda>_. sample_host))
     \<lparr>scheduler := (new_RuntimeSimulationScheduler ())\<lparr>fiber_props :=
        (\<lambda>_. \<lparr>is_main = False, host_initialized = True, current_host = Some 3, host_epoch = 0\<rparr>)\<rparr>\<rparr>"

lemma sample_clock: "clock_fits (scale sample_platform) sample_host" "drift_mono (scale sample_platform) sample_host"
proof -
  have "0 \<le> t * 2 div 1000 \<and> t * 2 div 1000 \<le> t" if "0 \<le> t" for t :: int
    using that by linarith
  then show "clock_fits (scale sample_platform) sample_host"
    by (fastforce simp: clock_fits_def clock_at_def sample_platform_def sample_host_def half_range_def Duration_max_def)
  show "drift_mono (scale sample_platform) sample_host"
    by (simp add: drift_mono_def sample_platform_def sample_host_def zdiv_mono1)
qed


end
