(* ===== verification/Sim_Run.thy ===== *)
theory Sim_Run
  imports Sim_Time
begin

text \<open>
  Runs of the simulator: the fiber of the simulation and the fibers of the hosts, one at a time, as the scheduler picks
  them (\<^verbatim>\<open>src/runtime/simulator/world.cpp\<close>, \<^verbatim>\<open>scheduler.cpp\<close>).

  The event on which fiber \<open>f\<close> sleeps is a local variable of that fiber, named \<open>2 * f\<close>, as is its stop callback; the other events and
  callbacks have odd names. A run consists of what the fibers do to the queue of events, to the stop states and to the scheduler; what they do to the
  rest of the world is arbitrary.

  Shown here: in every run, the simulation never meets an event of the past, and a stop callback never erases an event that is no longer in
  the queue, although it keeps the position of the event in the queue without checking it.
\<close>

section \<open>Steps\<close>

record ('g, 'd) sim_state =
  world :: "('g, 'd) World"
  active :: "nat option"
  asleep :: "nat \<Rightarrow> nat option option"

definition sleep_event :: "nat \<Rightarrow> nat" where
  "sleep_event f = 2 * f"

definition request_event :: "nat \<Rightarrow> nat" where
  "request_event r = 2 * r + 1"

text \<open>The fibers whose sleep is ended by the callbacks that a stop runs.\<close>

definition woken :: "nat list \<Rightarrow> nat list" where
  "woken cbs = map (\<lambda>cb. cb div 2) (filter even cbs)"

definition awaken_all :: "nat list \<Rightarrow> ('g, 'd, unit) sim" where
  "awaken_all fs = for_each fs (\<lambda>f. with_scheduler (awakened False f))"

text \<open>Steps that concern neither the clock nor who is ready: the hosts, the links, random draws, the host of a fiber.\<close>

definition same_clock :: "('g, 'd) World \<Rightarrow> ('g, 'd) World \<Rightarrow> bool" where
  "same_clock w w' \<longleftrightarrow> events_queue w' = events_queue w \<and> events w' = events w \<and> current_time w' = current_time w \<and>
     stop_states w' = stop_states w \<and> callback_bodies w' = callback_bodies w \<and>
     ready_fibers (scheduler w') = ready_fibers (scheduler w) \<and> main_fiber (scheduler w') = main_fiber (scheduler w) \<and>
     (\<forall>f. is_main (fiber_props (scheduler w') f) = is_main (fiber_props (scheduler w) f))"

definition marked :: "('g, 'd) sim_state \<Rightarrow> nat \<Rightarrow> bool" where
  "marked s f \<longleftrightarrow> is_main (fiber_props (scheduler (world s)) f)"

text \<open>The fiber runs and is not inside a sleep; the fiber of the simulation is then not yet in \<^verbatim>\<open>RunSimulation\<close>.\<close>

definition free :: "('g, 'd) sim_state \<Rightarrow> nat \<Rightarrow> bool" where
  "free s f \<longleftrightarrow> active s = Some f \<and> asleep s f = None \<and> \<not> marked s f"

text \<open>
  The fiber \<open>main\<close> is the one that calls \<^verbatim>\<open>RunSimulation\<close>. It does not belong to a host, so it cannot sleep.
\<close>

inductive sim_step :: "(nat \<Rightarrow> nat \<Rightarrow> 'g \<Rightarrow> nat \<times> 'g) \<Rightarrow> nat \<Rightarrow> ('g, 'd) sim_state \<Rightarrow> ('g, 'd) sim_state \<Rightarrow> bool"
  for uniform main where
  pick: "active s = None \<Longrightarrow> with_scheduler (pick_next uniform) (world s) = (Ok f, w) \<Longrightarrow>
    sim_step uniform main s (s\<lparr>world := w, active := Some f\<rparr>)"
| begin_simulation: "free s main \<Longrightarrow>
    bind (with_scheduler (MarkAsMainFiber (\<lambda>_. ret ()) main)) (\<lambda>_. awaken_all [main]) (world s) = (Ok (), w) \<Longrightarrow>
    sim_step uniform main s (s\<lparr>world := w, active := None\<rparr>)"
| fire: "active s = Some main \<Longrightarrow> marked s main \<Longrightarrow> events_queue (world s) = (t, ev) # q \<Longrightarrow>
    bind fire_event (\<lambda>_. awaken_all (woken [ev] @ [main])) (world s) = (Ok (), w) \<Longrightarrow>
    sim_step uniform main s (s\<lparr>world := w, active := None\<rparr>)"
| sleep: "free s f \<Longrightarrow> f \<noteq> main \<Longrightarrow> current_time (world s) \<le> t \<Longrightarrow>
    World_SleepUntil (sleep_event f) t token (world s) = (Ok (), w) \<Longrightarrow>
    sim_step uniform main s (s\<lparr>world := w, asleep := (asleep s)(f \<mapsto> token),
      active := (if Event_Await (events w (sleep_event f)) then Some f else None)\<rparr>)"
| resume: "active s = Some f \<Longrightarrow> asleep s f = Some token \<Longrightarrow> Event_Await (events (world s) (sleep_event f)) \<Longrightarrow>
    World_SleepUntil_end (sleep_event f) token (world s) = (Ok (), w) \<Longrightarrow>
    sim_step uniform main s (s\<lparr>world := w, asleep := (asleep s)(f := None)\<rparr>)"
| stop: "free s f \<Longrightarrow>
    bind (gets (\<lambda>w. callbacks (stop_states w st))) (\<lambda>cbs. bind (stop_source st) (\<lambda>_. awaken_all (woken cbs))) (world s) = (Ok (), w) \<Longrightarrow>
    sim_step uniform main s (s\<lparr>world := w\<rparr>)"
| new_source: "free s f \<Longrightarrow> callbacks (stop_states (world s) st) = [] \<Longrightarrow>
    sim_step uniform main s (s\<lparr>world := (world s)\<lparr>stop_states := (stop_states (world s))(st := new_StopState)\<rparr>\<rparr>)"
| request: "free s f \<Longrightarrow> \<forall>st. request_event r \<notin> set (callbacks (stop_states (world s) st)) \<Longrightarrow>
    add_callback token (request_event r) (SignalOnly (request_event r)) (world s) = (Ok (), w) \<Longrightarrow>
    sim_step uniform main s (s\<lparr>world := w\<rparr>)"
| answer: "free s f \<Longrightarrow> signal (request_event r) (world s) = (Ok (), w) \<Longrightarrow> sim_step uniform main s (s\<lparr>world := w\<rparr>)"
| answered: "free s f \<Longrightarrow> delete_callback token (request_event r) (world s) = (Ok (), w) \<Longrightarrow>
    sim_step uniform main s (s\<lparr>world := w\<rparr>)"
| awaken: "free s f \<Longrightarrow> g \<noteq> main \<Longrightarrow> awaken_all [g] (world s) = (Ok (), w) \<Longrightarrow> sim_step uniform main s (s\<lparr>world := w\<rparr>)"
| yield: "free s f \<Longrightarrow> awaken_all [f] (world s) = (Ok (), w) \<Longrightarrow> sim_step uniform main s (s\<lparr>world := w, active := None\<rparr>)"
| suspend: "free s f \<Longrightarrow> sim_step uniform main s (s\<lparr>active := None\<rparr>)"
| other: "free s f \<Longrightarrow> same_clock (world s) w \<Longrightarrow> sim_step uniform main s (s\<lparr>world := w\<rparr>)"

inductive_cases sim_stepE: "sim_step uniform main s s'"

section \<open>Queue and callbacks\<close>

text \<open>What holds of the queue, given which fibers sleep.\<close>

definition queue_ok :: "('g, 'd) World \<Rightarrow> (nat \<Rightarrow> nat option option) \<Rightarrow> bool" where
  "queue_ok w sl \<longleftrightarrow> sorted (map fst (events_queue w)) \<and> distinct (map snd (events_queue w)) \<and>
     (\<forall>(t, ev) \<in> set (events_queue w). current_time w \<le> t \<and> even ev \<and> sl (ev div 2) \<noteq> None \<and> \<not> resumed (events w ev))"

text \<open>
  What holds of a registered callback: that of a sleep names an entry of the queue, unless the
  event of the sleep has been fired and its fiber, which \<open>P\<close> describes, has not gone on yet.
\<close>

definition callback_ok :: "('g, 'd) World \<Rightarrow> (nat \<Rightarrow> nat option option) \<Rightarrow> (nat \<Rightarrow> bool) \<Rightarrow> nat \<Rightarrow> nat \<Rightarrow> bool" where
  "callback_ok w sl P st cb \<longleftrightarrow>
     (if even cb
      then sl (cb div 2) = Some (Some st) \<and>
        (\<exists>t. callback_bodies w cb = EraseAndSignal t cb \<and> ((t, cb) \<in> set (events_queue w) \<or> P (cb div 2)))
      else callback_bodies w cb = SignalOnly cb)"

definition callbacks_ok :: "('g, 'd) World \<Rightarrow> (nat \<Rightarrow> nat option option) \<Rightarrow> (nat \<Rightarrow> bool) \<Rightarrow> bool" where
  "callbacks_ok w sl P \<longleftrightarrow> (\<forall>st. distinct (callbacks (stop_states w st)) \<and>
     (\<forall>cb \<in> set (callbacks (stop_states w st)). callback_ok w sl P st cb))"

lemma remove1_by_name:
  "distinct (map snd q) \<Longrightarrow> (t, ev) \<in> set q \<Longrightarrow> remove1 (t, ev) q = filter (\<lambda>e. snd e \<noteq> ev) q"
proof (induction q)
  case (Cons x q)
  show ?case
  proof (cases "x = (t, ev)")
    case True
    then have "\<forall>e \<in> set q. snd e \<noteq> ev" using Cons.prems(1) by force
    then show ?thesis using True by (simp add: filter_True)
  next
    case False
    then have "(t, ev) \<in> set q" using Cons.prems(2) by simp
    moreover from this have "ev \<in> snd ` set q" by force
    then have "snd x \<noteq> ev" using Cons.prems(1) by auto
    ultimately show ?thesis using Cons.IH Cons.prems(1) False by simp
  qed
qed simp

lemma insert_event_facts:
  shows set_insert_event: "set (insert_event t ev q) = insert (t, ev) (set q)"
    and sorted_insert_event: "sorted (map fst q) \<Longrightarrow> sorted (map fst (insert_event t ev q))"
    and distinct_insert_event: "distinct (map snd (insert_event t ev q)) \<longleftrightarrow> ev \<notin> snd ` set q \<and> distinct (map snd q)"
proof -
  have q: "set q = set (takeWhile (\<lambda>e. fst e \<le> t) q) \<union> set (dropWhile (\<lambda>e. fst e \<le> t) q)"
    by (metis set_append takeWhile_dropWhile_id)
  then show "set (insert_event t ev q) = insert (t, ev) (set q)" by (auto simp: insert_event_def)
  have "map snd q = map snd (takeWhile (\<lambda>e. fst e \<le> t) q) @ map snd (dropWhile (\<lambda>e. fst e \<le> t) q)"
    by (metis map_append takeWhile_dropWhile_id)
  then have "distinct (map snd q) \<longleftrightarrow> distinct (map snd (takeWhile (\<lambda>e. fst e \<le> t) q) @ map snd (dropWhile (\<lambda>e. fst e \<le> t) q))" by simp
  then show "distinct (map snd (insert_event t ev q)) \<longleftrightarrow> ev \<notin> snd ` set q \<and> distinct (map snd q)"
    unfolding insert_event_def q by auto
  assume s: "sorted (map fst q)"
  then have "sorted (map fst (takeWhile (\<lambda>e. fst e \<le> t) q) @ map fst (dropWhile (\<lambda>e. fst e \<le> t) q))"
    by (metis map_append takeWhile_dropWhile_id)
  moreover have "t \<le> fst e" if "e \<in> set (dropWhile (\<lambda>e. fst e \<le> t) q)" for e
  proof -
    from that obtain x xs where x: "dropWhile (\<lambda>e. fst e \<le> t) q = x # xs" by (cases "dropWhile (\<lambda>e. fst e \<le> t) q") auto
    then have "t < fst x" using hd_dropWhile [of "\<lambda>e. fst e \<le> t" q] by auto
    moreover have "fst x \<le> fst e"
      using calculation x that \<open>sorted (map fst (takeWhile _ q) @ _)\<close> by (auto simp: sorted_append)
    ultimately show ?thesis by simp
  qed
  moreover have "fst e \<le> t" if "e \<in> set (takeWhile (\<lambda>e. fst e \<le> t) q)" for e
    using set_takeWhileD [OF that] by simp
  ultimately show "sorted (map fst (insert_event t ev q))"
    by (auto simp: insert_event_def sorted_append intro: order_trans)
qed

lemma run_callbacks:
  assumes "distinct cbs" and "distinct (map snd (events_queue w))" and "\<forall>e \<in> set (events_queue w). even (snd e)"
    and "\<forall>cb \<in> set cbs. if even cb then \<exists>t. callback_bodies w cb = EraseAndSignal t cb \<and> (t, cb) \<in> set (events_queue w)
        else callback_bodies w cb = SignalOnly cb"
  shows "for_each cbs (\<lambda>cb. bind (gets (\<lambda>w. callback_bodies w cb)) run_callback) w =
     (Ok (), w\<lparr>events_queue := filter (\<lambda>e. snd e \<notin> set cbs) (events_queue w),
        events := (\<lambda>e. if e \<in> set cbs then Event_Signal (events w e) else events w e)\<rparr>)"
  using assms
proof (induction cbs arbitrary: w)
  case Nil
  then show ?case by (simp add: exec_simps)
next
  case (Cons cb cbs)
  let ?w = "w\<lparr>events_queue := filter (\<lambda>e. snd e \<noteq> cb) (events_queue w), events := (events w)(cb := Event_Signal (events w cb))\<rparr>"
  have first: "bind (gets (\<lambda>w. callback_bodies w cb)) run_callback w = (Ok (), ?w)"
  proof (cases "even cb")
    case True
    then obtain t where "callback_bodies w cb = EraseAndSignal t cb" "(t, cb) \<in> set (events_queue w)"
      using Cons.prems(4) by auto
    then show ?thesis
      using remove1_by_name [OF Cons.prems(2), of t cb] by (simp add: exec_simps erase_event_def signal_def)
  next
    case False
    then have "filter (\<lambda>e. snd e \<noteq> cb) (events_queue w) = events_queue w" using Cons.prems(3) by (auto intro: filter_True)
    then show ?thesis using Cons.prems(4) False by (simp add: exec_simps signal_def)
  qed
  have rest: "for_each cbs (\<lambda>cb. bind (gets (\<lambda>w. callback_bodies w cb)) run_callback) ?w =
     (Ok (), ?w\<lparr>events_queue := filter (\<lambda>e. snd e \<notin> set cbs) (events_queue ?w),
        events := (\<lambda>e. if e \<in> set cbs then Event_Signal (events ?w e) else events ?w e)\<rparr>)"
  proof (rule Cons.IH)
    show "distinct (map snd (events_queue ?w))" using Cons.prems(2) by (simp add: distinct_map_filter)
    have "cb' \<noteq> cb" if "cb' \<in> set cbs" for cb' using that Cons.prems(1) by auto
    then show "\<forall>cb \<in> set cbs. if even cb then \<exists>t. callback_bodies ?w cb = EraseAndSignal t cb \<and> (t, cb) \<in> set (events_queue ?w)
        else callback_bodies ?w cb = SignalOnly cb"
      using Cons.prems(4) by auto
  qed (use Cons.prems in auto)
  have q: "filter (\<lambda>e. snd e \<notin> set cbs) (filter (\<lambda>e. snd e \<noteq> cb) (events_queue w)) = filter (\<lambda>e. snd e \<notin> set (cb # cbs)) (events_queue w)"
    by (auto intro: filter_cong)
  have e: "(\<lambda>e. if e \<in> set cbs then Event_Signal (events ?w e) else events ?w e) =
      (\<lambda>e. if e \<in> set (cb # cbs) then Event_Signal (events w e) else events w e)"
    using Cons.prems(1) by (auto simp: fun_eq_iff)
  show ?case
    unfolding for_each.simps(2) bind_Ok [where m = "bind (gets (\<lambda>w. callback_bodies w cb)) run_callback", OF first] rest e
    using q by simp
qed

text \<open>The scheduler: who is ready, and which fiber is the main one.\<close>

lemma with_scheduler_run: "m (scheduler w) = (r, sc) \<Longrightarrow> with_scheduler m w = (r, w\<lparr>scheduler := sc\<rparr>)"
  by (simp add: with_scheduler_def)

lemma awakened_other:
  assumes "\<not> is_main (fiber_props s f)"
  shows "\<exists>sc. awakened False f s = (Ok (), sc) \<and> ready_fibers sc = ready_fibers s @ [f] \<and>
     main_fiber sc = main_fiber s \<and> (\<forall>g. is_main (fiber_props sc g) = is_main (fiber_props s g))"
  using assms by (cases "host_initialized (fiber_props s f)") (simp_all add: awakened_def props_defs exec_simps)

lemma awakened_main:
  assumes "is_main (fiber_props s f)" and "main_fiber s = None"
  shows "\<exists>sc. awakened False f s = (Ok (), sc) \<and> ready_fibers sc = ready_fibers s \<and>
     main_fiber sc = Some f \<and> (\<forall>g. is_main (fiber_props sc g) = is_main (fiber_props s g))"
  using assms by (cases "host_initialized (fiber_props s f)") (simp_all add: awakened_def props_defs exec_simps)

lemma awaken_one:
  assumes "\<not> is_main (fiber_props (scheduler w) f)"
  shows "\<exists>sc. with_scheduler (awakened False f) w = (Ok (), w\<lparr>scheduler := sc\<rparr>) \<and> ready_fibers sc = ready_fibers (scheduler w) @ [f] \<and>
     main_fiber sc = main_fiber (scheduler w) \<and> (\<forall>g. is_main (fiber_props sc g) = is_main (fiber_props (scheduler w) g))"
  using awakened_other [OF assms] with_scheduler_run by blast

lemma awaken_main:
  assumes "is_main (fiber_props (scheduler w) f)" and "main_fiber (scheduler w) = None"
  shows "\<exists>sc. awaken_all [f] w = (Ok (), w\<lparr>scheduler := sc\<rparr>) \<and> ready_fibers sc = ready_fibers (scheduler w) \<and>
     main_fiber sc = Some f \<and> (\<forall>g. is_main (fiber_props sc g) = is_main (fiber_props (scheduler w) g))"
proof -
  from awakened_main [OF assms] obtain sc where sc: "awakened False f (scheduler w) = (Ok (), sc)" "ready_fibers sc = ready_fibers (scheduler w)"
     "main_fiber sc = Some f" "\<forall>g. is_main (fiber_props sc g) = is_main (fiber_props (scheduler w) g)" by blast
  show ?thesis
    using sc(2-) with_scheduler_run [of "awakened False f", OF sc(1)] by (intro exI [of _ sc]) (simp add: awaken_all_def exec_simps)
qed

lemma awaken_list:
  assumes "\<forall>f \<in> set fs. \<not> is_main (fiber_props (scheduler w) f)"
  shows "\<exists>sc. awaken_all fs w = (Ok (), w\<lparr>scheduler := sc\<rparr>) \<and> ready_fibers sc = ready_fibers (scheduler w) @ fs \<and>
     main_fiber sc = main_fiber (scheduler w) \<and> (\<forall>g. is_main (fiber_props sc g) = is_main (fiber_props (scheduler w) g))"
  using assms
proof (induction fs arbitrary: w)
  case Nil
  then show ?case by (intro exI [of _ "scheduler w"]) (simp add: awaken_all_def exec_simps)
next
  case (Cons f fs)
  then obtain sc where sc: "with_scheduler (awakened False f) w = (Ok (), w\<lparr>scheduler := sc\<rparr>)"
      "ready_fibers sc = ready_fibers (scheduler w) @ [f]" "main_fiber sc = main_fiber (scheduler w)"
      "\<forall>g. is_main (fiber_props sc g) = is_main (fiber_props (scheduler w) g)"
    using awaken_one [of w f] by auto
  with Cons obtain sc' where "awaken_all fs (w\<lparr>scheduler := sc\<rparr>) = (Ok (), w\<lparr>scheduler := sc'\<rparr>)"
      "ready_fibers sc' = ready_fibers sc @ fs" "main_fiber sc' = main_fiber sc" "\<forall>g. is_main (fiber_props sc' g) = is_main (fiber_props sc g)"
    using Cons.IH [of "w\<lparr>scheduler := sc\<rparr>"] by auto
  with sc show ?case by (intro exI [of _ sc']) (simp add: awaken_all_def exec_simps)
qed

lemma awaken_append: "awaken_all (fs @ gs) = bind (awaken_all fs) (\<lambda>_. awaken_all gs)"
  by (simp add: awaken_all_def for_each_append)

definition fibers_ok :: "nat \<Rightarrow> ('g, 'd) sim_state \<Rightarrow> bool" where
  "fibers_ok main s \<longleftrightarrow> (let sc = scheduler (world s) in
     sched_inv sc \<and> (\<forall>f. is_main (fiber_props sc f) \<longrightarrow> f = main) \<and> asleep s main = None \<and>
     length (filter ((=) main) (ready_fibers sc)) \<le> 1 \<and>
     (active s = Some main \<longrightarrow> main \<notin> set (ready_fibers sc) \<and> main_fiber sc = None) \<and>
     (active s = Some main \<longrightarrow> marked s main \<longrightarrow> ready_fibers sc = []))"

text \<open>The fiber whose event was fired is the only one that can run next.\<close>

definition fired :: "('g, 'd) sim_state \<Rightarrow> nat \<Rightarrow> bool" where
  "fired s f \<longleftrightarrow> active s = Some f \<or> active s = None \<and> ready_fibers (scheduler (world s)) = [f]"

definition sim_inv :: "nat \<Rightarrow> ('g, 'd) sim_state \<Rightarrow> bool" where
  "sim_inv main s \<longleftrightarrow> fibers_ok main s \<and> queue_ok (world s) (asleep s) \<and> callbacks_ok (world s) (asleep s) (fired s)"

lemma callbacks_ok_mono: "callbacks_ok w sl P \<Longrightarrow> (\<And>f. P f \<Longrightarrow> Q f) \<Longrightarrow> callbacks_ok w sl Q"
  unfolding callbacks_ok_def callback_ok_def by (metis (no_types, lifting))

lemma none_fired:
  assumes "sim_inv main s" and "active s = Some f" and "asleep s f = None"
  shows "callbacks_ok (world s) (asleep s) (\<lambda>_. False)"
  using assms unfolding sim_inv_def callbacks_ok_def callback_ok_def fired_def by (metis option.distinct(1) option.inject)

definition clock_eq :: "('g, 'd) World \<Rightarrow> ('g, 'd) World \<Rightarrow> bool" where
  "clock_eq w w' \<longleftrightarrow> events_queue w' = events_queue w \<and> events w' = events w \<and> current_time w' = current_time w \<and>
     stop_states w' = stop_states w \<and> callback_bodies w' = callback_bodies w"

lemma clock_eq_simps:
  assumes "clock_eq w w'"
  shows "queue_ok w' sl = queue_ok w sl" and "callbacks_ok w' sl P = callbacks_ok w sl P"
  using assms by (simp_all add: clock_eq_def queue_ok_def callbacks_ok_def callback_ok_def)

text \<open>Steps of a running fiber that leave the clock alone.\<close>

lemma clock_eq_step:
  assumes "sim_inv main s" and "active s = Some f" and "asleep s f = None" and "clock_eq (world s) (world s')"
    and "asleep s' = asleep s" and "fibers_ok main s'"
  shows "sim_inv main s'"
  using assms none_fired [OF assms(1-3)] callbacks_ok_mono
  by (auto simp: sim_inv_def clock_eq_simps [OF assms(4)])

lemma fibers_okI:
  assumes "fibers_ok main s" and "active s' = active s \<or> active s' = None" and "asleep s' main = asleep s main"
    and "ready_fibers (scheduler (world s')) = ready_fibers (scheduler (world s)) @ fs" and "main_fiber (scheduler (world s')) = main_fiber (scheduler (world s))"
    and "\<forall>g. is_main (fiber_props (scheduler (world s')) g) = is_main (fiber_props (scheduler (world s)) g)" and "main \<notin> set fs"
    and "fs = [] \<or> active s \<noteq> Some main \<or> \<not> marked s main"
  shows "fibers_ok main s'"
proof -
  note eqs = assms(4,5) assms(6)[rule_format]
  have s: "sched_inv (scheduler (world s))" "\<And>f. is_main (fiber_props (scheduler (world s)) f) \<Longrightarrow> f = main" "asleep s main = None"
      "length (filter ((=) main) (ready_fibers (scheduler (world s)))) \<le> 1"
      "active s = Some main \<Longrightarrow> main \<notin> set (ready_fibers (scheduler (world s))) \<and> main_fiber (scheduler (world s)) = None"
      "active s = Some main \<Longrightarrow> marked s main \<Longrightarrow> ready_fibers (scheduler (world s)) = []"
    using assms(1) unfolding fibers_ok_def Let_def by blast+
  have "\<not> is_main (fiber_props (scheduler (world s)) f)" if "f \<in> set fs" for f using s(2) [of f] that assms(7) by blast
  then have "sched_inv (scheduler (world s'))" using s(1) by (simp add: sched_inv_def eqs ball_Un)
  moreover have "filter ((=) main) fs = []" using assms(7) by (auto simp: filter_empty_conv)
  then have "length (filter ((=) main) (ready_fibers (scheduler (world s')))) \<le> 1" using s(4) by (simp add: eqs)
  moreover have "ready_fibers (scheduler (world s')) = []" if "active s' = Some main" "marked s' main"
    using that assms(2,8) s(6) by (auto simp: marked_def eqs)
  ultimately show ?thesis
    using s(2,3,5) assms(2,3,7) unfolding fibers_ok_def Let_def by (auto simp: eqs)
qed

section \<open>Every step keeps the invariant\<close>

lemma pick_inv:
  assumes "sim_inv main s" and "active s = None" and "with_scheduler (pick_next uniform) (world s) = (Ok f, w)"
  shows "sim_inv main (s\<lparr>world := w, active := Some f\<rparr>)"
proof -
  let ?sc = "scheduler (world s)"
  obtain sc where p: "pick_next uniform ?sc = (Ok f, sc)" and w: "w = (world s)\<lparr>scheduler := sc\<rparr>"
    using assms(3) by (auto simp: with_scheduler_def split: prod.splits)
  note props = pick_next_last(1) [OF p]
  have ok: "sched_inv ?sc" "\<And>f. is_main (fiber_props ?sc f) \<Longrightarrow> f = main" "asleep s main = None"
      "length (filter ((=) main) (ready_fibers ?sc)) \<le> 1"
    using assms(1) unfolding sim_inv_def fibers_ok_def Let_def by blast+
  from pick_next_cases [OF p] consider
      (ready) i where "i < length (ready_fibers ?sc)" "f = ready_fibers ?sc ! i" "ready_fibers sc = erase_at i (ready_fibers ?sc)" "main_fiber sc = main_fiber ?sc"
    | (main) "ready_fibers ?sc = []" "main_fiber ?sc = Some f" "ready_fibers sc = []" "main_fiber sc = None" by metis
  then have F: "fibers_ok main (s\<lparr>world := w, active := Some f\<rparr>) \<and> (\<forall>g. fired s g \<longrightarrow> g = f)"
  proof cases
    case ready
    have split: "ready_fibers ?sc = take i (ready_fibers ?sc) @ f # drop (Suc i) (ready_fibers ?sc)"
      using ready(1,2) by (simp add: id_take_nth_drop)
    have len: "length (filter ((=) main) (erase_at i (ready_fibers ?sc))) + (if f = main then 1 else 0) \<le> 1"
      using ok(4) arg_cong [OF split, of "\<lambda>fs. length (filter ((=) main) fs)"] by (simp add: erase_at_def split: if_splits)
    have nm: "\<not> is_main (fiber_props ?sc f)" using ok(1) ready(1,2) by (auto simp: sched_inv_def)
    have "main \<notin> set (erase_at i (ready_fibers ?sc))" if "f = main"
      using len that by (auto simp: filter_empty_conv)
    moreover have "main_fiber ?sc = None" if "f = main"
      using nm that ok(1,2) by (cases "main_fiber ?sc") (auto simp: sched_inv_def)
    moreover have "sched_inv sc" using ok(1) set_erase_at [of i "ready_fibers ?sc"] ready(3,4) by (auto simp: sched_inv_def props)
    ultimately have "fibers_ok main (s\<lparr>world := w, active := Some f\<rparr>)"
      using ok(2,3) len nm ready(3,4) by (auto simp: fibers_ok_def Let_def w marked_def props)
    moreover have "g = f" if "fired s g" for g
      using that assms(2) ready(1,2) by (auto simp: fired_def)
    ultimately show ?thesis by blast
  next
    case main
    have "sched_inv sc" by (simp add: sched_inv_def main(3,4))
    then have "fibers_ok main (s\<lparr>world := w, active := Some f\<rparr>)"
      using ok(2,3) by (simp add: fibers_ok_def Let_def w props main(3,4))
    moreover have "\<not> fired s g" for g using assms(2) main(1) by (simp add: fired_def)
    ultimately show ?thesis by blast
  qed
  have inv: "queue_ok (world s) (asleep s)" "callbacks_ok (world s) (asleep s) (fired s)"
    using assms(1) unfolding sim_inv_def by blast+
  have "fired (s\<lparr>world := w, active := Some f\<rparr>) g" if "fired s g" for g
  proof -
    from F that have "g = f" by blast
    then show ?thesis by (simp add: fired_def)
  qed
  from callbacks_ok_mono [OF inv(2) this]
  have "callbacks_ok (world s) (asleep s) (fired (s\<lparr>world := w, active := Some f\<rparr>))" .
  moreover have "clock_eq (world s) w" by (simp add: clock_eq_def w)
  ultimately show ?thesis using F inv(1) by (simp add: sim_inv_def clock_eq_simps)
qed

lemma begin_inv:
  assumes "sim_inv main s" and "free s main"
    and "bind (with_scheduler (MarkAsMainFiber (\<lambda>_. ret ()) main)) (\<lambda>_. awaken_all [main]) (world s) = (Ok (), w)"
  shows "sim_inv main (s\<lparr>world := w, active := None\<rparr>)"
proof -
  let ?sc = "scheduler (world s)"
  let ?sc1 = "?sc\<lparr>fiber_props := (fiber_props ?sc)(main := (fiber_props ?sc main)\<lparr>is_main := True\<rparr>)\<rparr>"
  have ok: "sched_inv ?sc" "\<And>f. is_main (fiber_props ?sc f) \<Longrightarrow> f = main" "asleep s main = None"
      "active s = Some main" "main \<notin> set (ready_fibers ?sc)" "main_fiber ?sc = None" "\<not> is_main (fiber_props ?sc main)"
    using assms(1,2) unfolding sim_inv_def fibers_ok_def Let_def free_def marked_def by blast+
  have "with_scheduler (MarkAsMainFiber (\<lambda>_. ret ()) main) (world s) = (Ok (), (world s)\<lparr>scheduler := ?sc1\<rparr>)"
    using ok(7) by (intro with_scheduler_run) (simp add: MarkAsMainFiber_def props_defs exec_simps)
  moreover obtain sc where sc: "awaken_all [main] ((world s)\<lparr>scheduler := ?sc1\<rparr>) = (Ok (), (world s)\<lparr>scheduler := sc\<rparr>)"
      "ready_fibers sc = ready_fibers ?sc" "main_fiber sc = Some main" "\<forall>g. is_main (fiber_props sc g) = is_main (fiber_props ?sc1 g)"
    using awaken_main [of "(world s)\<lparr>scheduler := ?sc1\<rparr>" main] ok(6) by auto
  ultimately have w: "w = (world s)\<lparr>scheduler := sc\<rparr>" using assms(3) by (simp add: exec_simps)
  have only: "is_main (fiber_props sc f) \<longleftrightarrow> f = main" for f using ok(2) [of f] sc(4) by (cases "f = main") auto
  have "sched_inv sc" using ok(5) by (auto simp: sched_inv_def only sc(2,3))
  moreover have "filter ((=) main) (ready_fibers ?sc) = []" using ok(5) by (auto simp: filter_empty_conv)
  ultimately have "fibers_ok main (s\<lparr>world := w, active := None\<rparr>)"
    using ok(3) by (simp add: fibers_ok_def Let_def w only sc(2,3))
  then show ?thesis
    by (intro clock_eq_step [OF assms(1) ok(4,3)]) (simp_all add: w clock_eq_def)
qed

lemma fire_event_run:
  assumes "queue_ok w sl" and "events_queue w = (t, ev) # q"
  shows "fire_event w = (Ok (), w\<lparr>events_queue := q, current_time := t, events := (events w)(ev := Event_Signal (events w ev))\<rparr>)"
  using assms by (simp add: fire_event_def signal_def GetGlobalTime_def exec_simps queue_ok_def)

lemma queue_ok_fire:
  assumes "queue_ok w sl" and "events_queue w = (t, ev) # q"
  shows "queue_ok (w\<lparr>events_queue := q, current_time := t, events := (events w)(ev := Event_Signal (events w ev))\<rparr>) sl"
proof -
  have "e \<noteq> ev" if "(t', e) \<in> set q" for t' e
    using assms that imageI [OF that, of snd] by (auto simp: queue_ok_def)
  then show ?thesis using assms by (auto simp: queue_ok_def)
qed

lemma fire_inv:
  assumes "sim_inv main s" and "active s = Some main" and "marked s main" and "events_queue (world s) = (t, ev) # q"
    and "bind fire_event (\<lambda>_. awaken_all (woken [ev] @ [main])) (world s) = (Ok (), w)"
  shows "sim_inv main (s\<lparr>world := w, active := None\<rparr>)"
proof -
  let ?sc = "scheduler (world s)" and ?f = "ev div 2"
  let ?w1 = "(world s)\<lparr>events_queue := q, current_time := t, events := (events (world s))(ev := Event_Signal (events (world s) ev))\<rparr>"
  have ok: "\<And>f. is_main (fiber_props ?sc f) \<Longrightarrow> f = main" "asleep s main = None" "main_fiber ?sc = None" "ready_fibers ?sc = []"
    and q: "queue_ok (world s) (asleep s)"
    using assms(1,2,3) unfolding sim_inv_def fibers_ok_def Let_def by blast+
  have ev: "even ev" "asleep s ?f \<noteq> None" using q assms(4) by (simp_all add: queue_ok_def)
  then have f: "?f \<noteq> main" using ok(2) by metis
  then have nm: "\<not> is_main (fiber_props ?sc ?f)" using ok(1) by blast
  then obtain sc where sc: "awaken_all [?f] ?w1 = (Ok (), ?w1\<lparr>scheduler := sc\<rparr>)" "ready_fibers sc = [?f]" "main_fiber sc = None"
      "\<forall>g. is_main (fiber_props sc g) = is_main (fiber_props ?sc g)"
    using awaken_list [of "[?f]" ?w1] ok(3,4) by auto
  moreover obtain sc' where sc': "awaken_all [main] (?w1\<lparr>scheduler := sc\<rparr>) = (Ok (), ?w1\<lparr>scheduler := sc'\<rparr>)" "ready_fibers sc' = [?f]"
      "main_fiber sc' = Some main" "\<forall>g. is_main (fiber_props sc' g) = is_main (fiber_props ?sc g)"
    using awaken_main [of "?w1\<lparr>scheduler := sc\<rparr>" main] sc assms(3) by (auto simp: marked_def)
  ultimately have w: "w = ?w1\<lparr>scheduler := sc'\<rparr>"
    using assms(5) ev(1) by (simp add: exec_simps fire_event_run [OF q assms(4)] awaken_append woken_def del: append.simps)
  have "sched_inv sc'" using nm assms(3) by (simp add: sched_inv_def marked_def sc'(2,3) sc'(4)[rule_format])
  moreover have "\<forall>f. is_main (fiber_props sc' f) \<longrightarrow> f = main" using ok(1) sc'(4) by blast
  ultimately have "fibers_ok main (s\<lparr>world := w, active := None\<rparr>)"
    using ok(2) f by (simp add: fibers_ok_def Let_def w sc'(2,3))
  moreover have "queue_ok w (asleep s)" using queue_ok_fire [OF q assms(4)] by (simp add: w queue_ok_def)
  moreover have "callbacks_ok w (asleep s) (fired (s\<lparr>world := w, active := None\<rparr>))"
    using none_fired [OF assms(1,2) ok(2)] assms(4) sc'(2)
    by (force simp: callbacks_ok_def callback_ok_def fired_def w)
  ultimately show ?thesis by (simp add: sim_inv_def)
qed

text \<open>A fiber goes to sleep.\<close>

lemma fresh_event: "queue_ok w sl \<Longrightarrow> sl f = None \<Longrightarrow> sleep_event f \<notin> snd ` set (events_queue w)"
  by (force simp: queue_ok_def sleep_event_def)

lemma callbacks_okD: "callbacks_ok w sl P \<Longrightarrow> cb \<in> set (callbacks (stop_states w st)) \<Longrightarrow> callback_ok w sl P st cb"
  by (simp add: callbacks_ok_def)

lemma fresh_callback: "callbacks_ok w sl P \<Longrightarrow> sl f = None \<Longrightarrow> sleep_event f \<notin> set (callbacks (stop_states w st))"
  using callbacks_okD [of w sl P "sleep_event f" st] by (auto simp: callback_ok_def sleep_event_def)

lemma remove_inserted:
  assumes "ev \<notin> snd ` set q"
  shows "filter (\<lambda>e. snd e \<noteq> ev) (insert_event t ev q) = q"
proof -
  have "filter (\<lambda>e. snd e \<noteq> ev) xs = xs" if "set xs \<subseteq> set q" for xs using that assms by (intro filter_True) auto
  moreover have "set (takeWhile (\<lambda>e. fst e \<le> t) q) \<subseteq> set q" "set (dropWhile (\<lambda>e. fst e \<le> t) q) \<subseteq> set q"
    by (auto dest: set_takeWhileD set_dropWhileD)
  ultimately show ?thesis by (simp add: insert_event_def)
qed

lemma sleep_result:
  assumes "sleep_event f \<notin> snd ` set (events_queue w)" and "distinct (map snd (events_queue w))"
    and "World_SleepUntil (sleep_event f) t token w = (Ok (), w')"
  shows "(\<exists>st. token = Some st \<and> cancelled (stop_states w st)) \<and>
       w' = w\<lparr>events := (events w)(sleep_event f := Event_Signal new_Event),
         callback_bodies := (callback_bodies w)(sleep_event f := EraseAndSignal t (sleep_event f))\<rparr> \<or>
     token = None \<and> w' = w\<lparr>events := (events w)(sleep_event f := new_Event), events_queue := insert_event t (sleep_event f) (events_queue w)\<rparr> \<or>
     (\<exists>st. token = Some st \<and> w' = w\<lparr>events := (events w)(sleep_event f := new_Event), events_queue := insert_event t (sleep_event f) (events_queue w),
        stop_states := (stop_states w)(st := (stop_states w st)\<lparr>callbacks := sleep_event f # callbacks (stop_states w st)\<rparr>),
        callback_bodies := (callback_bodies w)(sleep_event f := EraseAndSignal t (sleep_event f))\<rparr>)"
proof (cases token)
  case None
  then show ?thesis using assms(3) by (simp add: World_SleepUntil_def add_callback_def exec_simps)
next
  case (Some st)
  show ?thesis
  proof (cases "cancelled (stop_states w st)")
    case True
    have "remove1 (t, sleep_event f) (insert_event t (sleep_event f) (events_queue w)) = events_queue w"
      using assms(1,2) by (simp add: remove1_by_name distinct_insert_event set_insert_event remove_inserted)
    then have "w' = w\<lparr>events := (events w)(sleep_event f := Event_Signal new_Event),
        callback_bodies := (callback_bodies w)(sleep_event f := EraseAndSignal t (sleep_event f))\<rparr>"
      using assms(3) Some True
      by (cases w) (simp add: World_SleepUntil_def add_callback_def exec_simps StopCallback_new_def erase_event_def signal_def
          set_insert_event comp_def)
    then show ?thesis using Some True by simp
  next
    case False
    then show ?thesis using assms(3) Some
      by (simp add: World_SleepUntil_def add_callback_def exec_simps StopCallback_new_def)
  qed
qed

lemma queue_ok_insert:
  assumes "queue_ok w sl" and "sl f = None" and "current_time w \<le> t"
    and "events_queue w' = insert_event t (sleep_event f) (events_queue w)" and "events w' = (events w)(sleep_event f := new_Event)"
    and "current_time w' = current_time w"
  shows "queue_ok w' (sl(f \<mapsto> token))"
  using assms(1) fresh_event [OF assms(1,2)] assms(3)
  by (auto simp: queue_ok_def assms(4-) set_insert_event sorted_insert_event distinct_insert_event sleep_event_def new_Event_def)

lemma queue_ok_same:
  assumes "queue_ok w sl" and "sl f = None"
    and "events_queue w' = events_queue w" and "events w' = (events w)(sleep_event f := e)" and "current_time w' = current_time w"
  shows "queue_ok w' (sl(f \<mapsto> token))"
  using assms(1) fresh_event [OF assms(1,2)] by (force simp: queue_ok_def assms(3-) sleep_event_def)

text \<open>Registered callbacks are untouched by changes that concern another name and keep the queue.\<close>

lemma callback_ok_frame:
  assumes "callback_ok w sl P st cb" and "set (events_queue w) \<subseteq> set (events_queue w')"
    and "callback_bodies w' cb = callback_bodies w cb" and "even cb \<Longrightarrow> sl' (cb div 2) = sl (cb div 2)"
  shows "callback_ok w' sl' P st cb"
  using assms subsetD [OF assms(2)] by (auto simp: callback_ok_def)

lemma sleep_inv:
  assumes "sim_inv main s" and "free s f" and "f \<noteq> main" and "current_time (world s) \<le> t"
    and "World_SleepUntil (sleep_event f) t token (world s) = (Ok (), w)"
  shows "sim_inv main (s\<lparr>world := w, asleep := (asleep s)(f \<mapsto> token),
      active := (if Event_Await (events w (sleep_event f)) then Some f else None)\<rparr>)" (is "sim_inv main ?s")
proof -
  have act: "active s = Some f" "asleep s f = None" using assms(2) by (simp_all add: free_def)
  have q: "queue_ok (world s) (asleep s)" and fib: "fibers_ok main s" using assms(1) by (simp_all add: sim_inv_def)
  note cbs = none_fired [OF assms(1) act]
  have "distinct (map snd (events_queue (world s)))" using q by (simp add: queue_ok_def)
  note r = sleep_result [OF fresh_event [OF q act(2)] this assms(5)]
  have keep: "callback_ok w ((asleep s)(f \<mapsto> token)) (\<lambda>_. False) st cb"
    if "cb \<in> set (callbacks (stop_states (world s) st))" for st cb
  proof (rule callback_ok_frame [OF callbacks_okD [OF cbs that]])
    have ne: "cb \<noteq> sleep_event f" using fresh_callback [OF cbs act(2)] that by metis
    then show "callback_bodies w cb = callback_bodies (world s) cb" using r by auto
    show "((asleep s)(f \<mapsto> token)) (cb div 2) = asleep s (cb div 2)" if "even cb" using ne that by (auto simp: sleep_event_def)
    show "set (events_queue (world s)) \<subseteq> set (events_queue w)" using r by (auto simp: set_insert_event)
  qed
  have "callbacks_ok w ((asleep s)(f \<mapsto> token)) (\<lambda>_. False)"
    using r
  proof (elim disjE exE conjE)
    fix st
    assume st: "token = Some st" and w: "w = (world s)\<lparr>events := (events (world s))(sleep_event f := new_Event),
        events_queue := insert_event t (sleep_event f) (events_queue (world s)),
        stop_states := (stop_states (world s))(st := (stop_states (world s) st)\<lparr>callbacks := sleep_event f # callbacks (stop_states (world s) st)\<rparr>),
        callback_bodies := (callback_bodies (world s))(sleep_event f := EraseAndSignal t (sleep_event f))\<rparr>"
    have "callback_ok w ((asleep s)(f \<mapsto> token)) (\<lambda>_. False) st (sleep_event f)"
      by (simp add: callback_ok_def sleep_event_def w st set_insert_event)
    then show ?thesis
      using cbs keep fresh_callback [OF cbs act(2)] unfolding callbacks_ok_def by (simp add: w)
  qed (use cbs keep in \<open>simp_all add: callbacks_ok_def\<close>)
  moreover have "queue_ok w ((asleep s)(f \<mapsto> token))"
  proof (cases "events_queue w = events_queue (world s)")
    case True
    have "events w = (events (world s))(sleep_event f := events w (sleep_event f))" "current_time w = current_time (world s)"
      using r by auto
    then show ?thesis by (rule queue_ok_same [OF q act(2) True])
  next
    case False
    have "events_queue w = insert_event t (sleep_event f) (events_queue (world s))" "events w = (events (world s))(sleep_event f := new_Event)"
        "current_time w = current_time (world s)"
      using r False by auto
    then show ?thesis by (rule queue_ok_insert [OF q act(2) assms(4)])
  qed
  moreover have "scheduler w = scheduler (world s)" using r by auto
  then have "fibers_ok main ?s"
    using assms(3) act(1) by (intro fibers_okI [OF fib, where fs = "[]"]) simp_all
  ultimately show ?thesis
    unfolding sim_inv_def by (auto intro: callbacks_ok_mono)
qed

text \<open>A fiber goes on after a sleep, and the callback of the sleep is destroyed.\<close>

lemma resume_inv:
  assumes "sim_inv main s" and "active s = Some f" and "asleep s f = Some token" and "Event_Await (events (world s) (sleep_event f))"
    and "World_SleepUntil_end (sleep_event f) token (world s) = (Ok (), w)"
  shows "sim_inv main (s\<lparr>world := w, asleep := (asleep s)(f := None)\<rparr>)" (is "sim_inv main ?s")
proof -
  let ?w = "world s"
  have q: "queue_ok ?w (asleep s)" and fib: "fibers_ok main s" and cbs: "callbacks_ok ?w (asleep s) (fired s)"
    using assms(1) by (simp_all add: sim_inv_def)
  have st: "stop_states w = (case token of None \<Rightarrow> stop_states ?w
      | Some st \<Rightarrow> (stop_states ?w)(st := StopCallback_delete (sleep_event f) (stop_states ?w st)))"
    and eqs: "events_queue w = events_queue ?w" "events w = events ?w" "current_time w = current_time ?w"
      "callback_bodies w = callback_bodies ?w" "scheduler w = scheduler ?w"
    using assms(5) by (auto simp: World_SleepUntil_end_def delete_callback_def exec_simps split: option.splits)
  have cb: "cb \<in> set (callbacks (stop_states ?w st')) \<and> cb \<noteq> sleep_event f" if "cb \<in> set (callbacks (stop_states w st'))" for cb st'
  proof -
    have in_w: "cb \<in> set (callbacks (stop_states ?w st'))"
      using that st by (auto simp: StopCallback_delete_def split: option.splits if_splits dest: set_remove1_subset [THEN subsetD])
    moreover have "cb \<noteq> sleep_event f"
    proof
      assume [simp]: "cb = sleep_event f"
      have "asleep s f = Some (Some st')"
        using callbacks_okD [OF cbs in_w] by (simp add: callback_ok_def sleep_event_def)
      then show False
        using that st assms(3) cbs by (simp add: StopCallback_delete_def callbacks_ok_def)
    qed
    ultimately show ?thesis ..
  qed
  have "callback_ok w ((asleep s)(f := None)) (fired ?s) st' cb" if "cb \<in> set (callbacks (stop_states w st'))" for st' cb
    using callbacks_okD [OF cbs, of cb st'] cb [OF that] assms(2)
    by (auto simp: callback_ok_def fired_def eqs sleep_event_def)
  moreover have "distinct (callbacks (stop_states w st'))" for st'
    using cbs st by (auto simp: callbacks_ok_def StopCallback_delete_def split: option.splits)
  moreover have "ev div 2 \<noteq> f" if "(t, ev) \<in> set (events_queue ?w)" for t ev
    using q that assms(4) by (fastforce simp: queue_ok_def Event_Await_def sleep_event_def)
  then have "queue_ok w ((asleep s)(f := None))" using q by (auto simp: queue_ok_def eqs)
  moreover have "fibers_ok main ?s"
    using fib assms(3) by (intro fibers_okI [OF fib, where fs = "[]"]) (auto simp: eqs fibers_ok_def Let_def)
  ultimately show ?thesis by (simp add: sim_inv_def callbacks_ok_def)
qed

text \<open>A stop runs the registered callbacks, which erase entries that are in the queue.\<close>

lemma stop_source_run:
  fixes st
  assumes "queue_ok w sl" and "callbacks_ok w sl (\<lambda>_. False)"
  defines "cbs \<equiv> callbacks (stop_states w st)"
  shows "stop_source st w = (Ok (), w\<lparr>stop_states := (stop_states w)(st := (stop_states w st)\<lparr>cancelled := True, callbacks := []\<rparr>),
     events_queue := filter (\<lambda>e. snd e \<notin> set cbs) (events_queue w),
     events := (\<lambda>e. if e \<in> set cbs then Event_Signal (events w e) else events w e)\<rparr>)"
proof -
  let ?w0 = "w\<lparr>stop_states := (stop_states w)(st := (stop_states w st)\<lparr>cancelled := True, callbacks := []\<rparr>)\<rparr>"
  have "for_each cbs (\<lambda>cb. bind (gets (\<lambda>w. callback_bodies w cb)) run_callback) ?w0 =
     (Ok (), ?w0\<lparr>events_queue := filter (\<lambda>e. snd e \<notin> set cbs) (events_queue ?w0),
        events := (\<lambda>e. if e \<in> set cbs then Event_Signal (events ?w0 e) else events ?w0 e)\<rparr>)"
  proof (rule run_callbacks)
    show "distinct cbs" using assms(2) by (simp add: callbacks_ok_def cbs_def)
    show "distinct (map snd (events_queue ?w0))" "\<forall>e \<in> set (events_queue ?w0). even (snd e)"
      using assms(1) by (auto simp: queue_ok_def)
    show "\<forall>cb \<in> set cbs. if even cb then \<exists>t. callback_bodies ?w0 cb = EraseAndSignal t cb \<and> (t, cb) \<in> set (events_queue ?w0)
        else callback_bodies ?w0 cb = SignalOnly cb"
    proof
      fix cb
      assume "cb \<in> set cbs"
      then show "if even cb then \<exists>t. callback_bodies ?w0 cb = EraseAndSignal t cb \<and> (t, cb) \<in> set (events_queue ?w0)
          else callback_bodies ?w0 cb = SignalOnly cb"
        using callbacks_okD [OF assms(2), of cb st] by (simp add: callback_ok_def cbs_def split: if_splits)
    qed
  qed
  then show ?thesis by (simp add: stop_source_def StopSource_Stop_def exec_simps cbs_def cong: if_cong)
qed

lemma stop_inv:
  assumes "sim_inv main s" and "free s f"
    and "bind (gets (\<lambda>w. callbacks (stop_states w st))) (\<lambda>cbs. bind (stop_source st) (\<lambda>_. awaken_all (woken cbs))) (world s) = (Ok (), w)"
  shows "sim_inv main (s\<lparr>world := w\<rparr>)"
proof -
  let ?w = "world s" and ?cbs = "callbacks (stop_states (world s) st)"
  let ?w1 = "?w\<lparr>stop_states := (stop_states ?w)(st := (stop_states ?w st)\<lparr>cancelled := True, callbacks := []\<rparr>),
     events_queue := filter (\<lambda>e. snd e \<notin> set ?cbs) (events_queue ?w),
     events := (\<lambda>e. if e \<in> set ?cbs then Event_Signal (events ?w e) else events ?w e)\<rparr>"
  have act: "active s = Some f" "asleep s f = None" "\<not> marked s f" using assms(2) by (simp_all add: free_def)
  have q: "queue_ok ?w (asleep s)" and fib: "fibers_ok main s" using assms(1) by (simp_all add: sim_inv_def)
  note cbs = none_fired [OF assms(1) act(1,2)]
  have main: "asleep s main = None" "\<And>g. is_main (fiber_props (scheduler ?w) g) \<Longrightarrow> g = main"
    using fib unfolding fibers_ok_def Let_def by blast+
  have "asleep s g \<noteq> None" if "g \<in> set (woken ?cbs)" for g
  proof -
    from that obtain cb where "cb \<in> set ?cbs" "even cb" "g = cb div 2" by (auto simp: woken_def)
    then show ?thesis using callbacks_okD [OF cbs, of cb st] by (simp add: callback_ok_def)
  qed
  then have nm: "main \<notin> set (woken ?cbs)" using main(1) by blast
  then have "\<forall>g \<in> set (woken ?cbs). \<not> is_main (fiber_props (scheduler ?w1) g)" using main(2) by fastforce
  from awaken_list [OF this] obtain sc where sc: "awaken_all (woken ?cbs) ?w1 = (Ok (), ?w1\<lparr>scheduler := sc\<rparr>)"
      "ready_fibers sc = ready_fibers (scheduler ?w) @ woken ?cbs" "main_fiber sc = main_fiber (scheduler ?w)"
      "\<forall>g. is_main (fiber_props sc g) = is_main (fiber_props (scheduler ?w) g)"
    by auto
  have w: "w = ?w1\<lparr>scheduler := sc\<rparr>"
    using assms(3) sc(1) by (simp add: exec_simps stop_source_run [OF q cbs])
  have "queue_ok w (asleep s)"
    using q by (auto simp: queue_ok_def w sorted_filter distinct_map_filter)
  moreover have "callback_ok w (asleep s) (\<lambda>_. False) st' cb" if "cb \<in> set (callbacks (stop_states w st'))" for st' cb
  proof -
    have ne: "st' \<noteq> st" and cb: "cb \<in> set (callbacks (stop_states ?w st'))" using that by (auto simp: w split: if_splits)
    have "cb \<notin> set ?cbs" if "even cb"
      using callbacks_okD [OF cbs, of cb st] callbacks_okD [OF cbs cb] ne that by (auto simp: callback_ok_def)
    then show ?thesis using callbacks_okD [OF cbs cb] by (auto simp: callback_ok_def w)
  qed
  then have "callbacks_ok w (asleep s) (\<lambda>_. False)" using cbs by (auto simp: callbacks_ok_def w)
  moreover have "fibers_ok main (s\<lparr>world := w\<rparr>)"
    using act nm sc(2-4) by (intro fibers_okI [OF fib, where fs = "woken ?cbs"]) (auto simp: w)
  ultimately show ?thesis unfolding sim_inv_def by (auto intro: callbacks_ok_mono)
qed

text \<open>Steps that concern the callbacks and events with odd names.\<close>

lemma odd_step_inv:
  assumes "sim_inv main s" and "free s f" and "events_queue w = events_queue (world s)" and "current_time w = current_time (world s)"
    and "scheduler w = scheduler (world s)" and "\<And>ev. even ev \<Longrightarrow> events w ev = events (world s) ev"
    and "callbacks_ok (world s) (asleep s) (\<lambda>_. False) \<Longrightarrow> callbacks_ok w (asleep s) (\<lambda>_. False)"
  shows "sim_inv main (s\<lparr>world := w\<rparr>)"
proof -
  have act: "active s = Some f" "asleep s f = None" using assms(2) by (simp_all add: free_def)
  have q: "queue_ok (world s) (asleep s)" and fib: "fibers_ok main s" using assms(1) by (simp_all add: sim_inv_def)
  have "queue_ok w (asleep s)" using q by (auto simp: queue_ok_def assms(3,4) assms(6))
  moreover have "fibers_ok main (s\<lparr>world := w\<rparr>)" by (intro fibers_okI [OF fib, where fs = "[]"]) (simp_all add: assms(5))
  ultimately show ?thesis
    using assms(7) [OF none_fired [OF assms(1) act]] unfolding sim_inv_def by (auto intro: callbacks_ok_mono)
qed

lemma callbacks_ok_sub:
  assumes "callbacks_ok w sl P" and "events_queue w' = events_queue w" and "callback_bodies w' = callback_bodies w"
    and "\<And>st. set (callbacks (stop_states w' st)) \<subseteq> set (callbacks (stop_states w st)) \<and> distinct (callbacks (stop_states w' st))"
  shows "callbacks_ok w' sl P"
proof -
  have "callback_ok w' sl P st cb" if "cb \<in> set (callbacks (stop_states w' st))" for st cb
    using callbacks_okD [OF assms(1), of cb st] assms(4) [of st] that by (auto simp: callback_ok_def assms(2,3))
  with assms(4) show ?thesis by (simp add: callbacks_ok_def)
qed

lemma odd_request: "odd (request_event r)"
  by (simp add: request_event_def)

lemma request_inv:
  assumes "sim_inv main s" and "free s f" and "\<forall>st. request_event r \<notin> set (callbacks (stop_states (world s) st))"
    and "add_callback token (request_event r) (SignalOnly (request_event r)) (world s) = (Ok (), w)"
  shows "sim_inv main (s\<lparr>world := w\<rparr>)"
proof (rule odd_step_inv [OF assms(1,2)])
  assume cbs: "callbacks_ok (world s) (asleep s) (\<lambda>_. False)"
  have "callback_ok w (asleep s) (\<lambda>_. False) st cb" if "cb \<in> set (callbacks (stop_states w st))" for st cb
    using assms(3,4) that callbacks_okD [OF cbs, of cb st] odd_request [of r]
    by (auto simp: add_callback_def exec_simps StopCallback_new_def signal_def callback_ok_def split: option.splits if_splits)
  moreover have "distinct (callbacks (stop_states w st))" for st
    using assms(3,4) cbs
    by (auto simp: add_callback_def exec_simps StopCallback_new_def signal_def callbacks_ok_def split: option.splits if_splits)
  ultimately show "callbacks_ok w (asleep s) (\<lambda>_. False)" by (simp add: callbacks_ok_def)
qed (use assms(4) odd_request [of r] in \<open>auto simp: add_callback_def exec_simps StopCallback_new_def signal_def split: option.splits if_splits\<close>)

lemma answer_inv:
  assumes "sim_inv main s" and "free s f" and "signal (request_event r) (world s) = (Ok (), w)"
  shows "sim_inv main (s\<lparr>world := w\<rparr>)"
proof (rule odd_step_inv [OF assms(1,2)])
  assume cbs: "callbacks_ok (world s) (asleep s) (\<lambda>_. False)"
  show "callbacks_ok w (asleep s) (\<lambda>_. False)"
    using assms(3) cbs by (intro callbacks_ok_sub [OF cbs]) (auto simp: signal_def exec_simps callbacks_ok_def)
qed (use assms(3) odd_request [of r] in \<open>auto simp: signal_def exec_simps\<close>)

lemma answered_inv:
  assumes "sim_inv main s" and "free s f" and "delete_callback token (request_event r) (world s) = (Ok (), w)"
  shows "sim_inv main (s\<lparr>world := w\<rparr>)"
proof (rule odd_step_inv [OF assms(1,2)])
  assume cbs: "callbacks_ok (world s) (asleep s) (\<lambda>_. False)"
  have "set (callbacks (stop_states w st)) \<subseteq> set (callbacks (stop_states (world s) st)) \<and> distinct (callbacks (stop_states w st))" for st
    using assms(3) cbs
    by (auto simp: delete_callback_def exec_simps StopCallback_delete_def callbacks_ok_def split: option.splits if_splits
        dest: set_remove1_subset [THEN subsetD])
  moreover have "events_queue w = events_queue (world s)" "callback_bodies w = callback_bodies (world s)"
    using assms(3) by (auto simp: delete_callback_def exec_simps split: option.splits)
  ultimately show "callbacks_ok w (asleep s) (\<lambda>_. False)" by (intro callbacks_ok_sub [OF cbs])
qed (use assms(3) in \<open>auto simp: delete_callback_def exec_simps split: option.splits\<close>)

text \<open>Steps of the scheduler alone.\<close>

lemma awaken_inv:
  assumes "sim_inv main s" and "free s f" and "g \<noteq> main" and "awaken_all [g] (world s) = (Ok (), w)"
    and "act = active s \<or> act = None"
  shows "sim_inv main (s\<lparr>world := w, active := act\<rparr>)"
proof -
  have act: "active s = Some f" "asleep s f = None" "\<not> marked s f" using assms(2) by (simp_all add: free_def)
  have fib: "fibers_ok main s" using assms(1) by (simp add: sim_inv_def)
  then have "\<not> is_main (fiber_props (scheduler (world s)) g)" using assms(3) unfolding fibers_ok_def Let_def by blast
  then obtain sc where sc: "w = (world s)\<lparr>scheduler := sc\<rparr>" "ready_fibers sc = ready_fibers (scheduler (world s)) @ [g]"
      "main_fiber sc = main_fiber (scheduler (world s))" "\<forall>g. is_main (fiber_props sc g) = is_main (fiber_props (scheduler (world s)) g)"
    using awaken_list [of "[g]" "world s"] assms(4) by auto
  have "fibers_ok main (s\<lparr>world := w, active := act\<rparr>)"
    using act assms(3,5) sc by (intro fibers_okI [OF fib, where fs = "[g]"]) auto
  then show ?thesis
    by (intro clock_eq_step [OF assms(1) act(1,2)]) (simp_all add: sc(1) clock_eq_def)
qed

lemma yield_main_inv:
  assumes "sim_inv main s" and "free s main" and "awaken_all [main] (world s) = (Ok (), w)"
  shows "sim_inv main (s\<lparr>world := w, active := None\<rparr>)"
proof -
  let ?sc = "scheduler (world s)"
  have act: "active s = Some main" "asleep s main = None" "\<not> is_main (fiber_props ?sc main)" using assms(2) by (simp_all add: free_def marked_def)
  have ok: "sched_inv ?sc" "\<And>f. is_main (fiber_props ?sc f) \<Longrightarrow> f = main" "main \<notin> set (ready_fibers ?sc)"
    using assms(1) act(1) unfolding sim_inv_def fibers_ok_def Let_def by blast+
  obtain sc where sc: "w = (world s)\<lparr>scheduler := sc\<rparr>" "ready_fibers sc = ready_fibers ?sc @ [main]"
      "main_fiber sc = main_fiber ?sc" "\<forall>g. is_main (fiber_props sc g) = is_main (fiber_props ?sc g)"
    using awaken_list [of "[main]" "world s"] act(3) assms(3) by auto
  have "sched_inv sc" using ok(1) act(3) by (auto simp: sched_inv_def sc(2,3) sc(4)[rule_format])
  moreover have "filter ((=) main) (ready_fibers ?sc) = []" using ok(3) by (auto simp: filter_empty_conv)
  moreover have "\<forall>f. is_main (fiber_props sc f) \<longrightarrow> f = main" using ok(2) sc(4) by blast
  ultimately have "fibers_ok main (s\<lparr>world := w, active := None\<rparr>)"
    using act(2) by (simp add: fibers_ok_def Let_def sc(1,2))
  then show ?thesis
    by (intro clock_eq_step [OF assms(1) act(1,2)]) (simp_all add: sc(1) clock_eq_def)
qed

lemma quiet_inv:
  assumes "sim_inv main s" and "free s f" and "same_clock (world s) w" and "act = active s \<or> act = None"
  shows "sim_inv main (s\<lparr>world := w, active := act\<rparr>)"
proof -
  have act: "active s = Some f" "asleep s f = None" using assms(2) by (simp_all add: free_def)
  have fib: "fibers_ok main s" using assms(1) by (simp add: sim_inv_def)
  have "fibers_ok main (s\<lparr>world := w, active := act\<rparr>)"
    using assms(3,4) by (intro fibers_okI [OF fib, where fs = "[]"]) (auto simp: same_clock_def)
  then show ?thesis
    using assms(3) by (intro clock_eq_step [OF assms(1) act]) (simp_all add: same_clock_def clock_eq_def)
qed

lemma new_source_inv:
  assumes "sim_inv main s" and "free s f" and "callbacks (stop_states (world s) st) = []"
  shows "sim_inv main (s\<lparr>world := (world s)\<lparr>stop_states := (stop_states (world s))(st := new_StopState)\<rparr>\<rparr>)"
proof (rule odd_step_inv [OF assms(1,2)])
  assume cbs: "callbacks_ok (world s) (asleep s) (\<lambda>_. False)"
  show "callbacks_ok ((world s)\<lparr>stop_states := (stop_states (world s))(st := new_StopState)\<rparr>) (asleep s) (\<lambda>_. False)"
    using cbs by (intro callbacks_ok_sub [OF cbs]) (simp_all add: new_StopState_def callbacks_ok_def)
qed simp_all

lemma sim_step_inv: "sim_step uniform main s s' \<Longrightarrow> sim_inv main s \<Longrightarrow> sim_inv main s'"
proof (induction rule: sim_step.induct)
  case (awaken s f g w)
  from awaken_inv [OF awaken.prems awaken.hyps, of "active s"] show ?case by simp
next
  case (yield s f w)
  then show ?case using awaken_inv [of main s f f w None] yield_main_inv [of main s w] by (cases "f = main") simp_all
next
  case (suspend s f)
  have "same_clock (world s) (world s)" by (simp add: same_clock_def)
  from quiet_inv [OF suspend.prems suspend.hyps this, of None] show ?case by simp
next
  case (other s f w)
  from quiet_inv [OF other.prems other.hyps, of "active s"] show ?case by simp
qed (blast intro: pick_inv begin_inv fire_inv sleep_inv resume_inv stop_inv new_source_inv request_inv answer_inv answered_inv)+

section \<open>Runs from a new world\<close>

definition sim_start :: "nat \<Rightarrow> 'g \<Rightarrow> 'd WorldOptions \<Rightarrow> (nat \<Rightarrow> 'd Host) \<Rightarrow> ('g, 'd) sim_state" where
  "sim_start main gen opts objs =
     \<lparr>world = snd (Initialize gen opts (GetWorld gen opts objs)), active = Some main, asleep = (\<lambda>_. None)\<rparr>"

lemma sim_start_inv: "sim_inv main (sim_start main gen opts objs)"
  by (simp add: sim_inv_def sim_start_def Initialize_def GetWorld_def exec_simps fibers_ok_def sched_inv_def marked_def
      new_RuntimeSimulationScheduler_def new_RuntimeSimulationProps_def queue_ok_def callbacks_ok_def new_StopState_def)

lemma sim_steps_inv: "(sim_step uniform main)\<^sup>*\<^sup>* s s' \<Longrightarrow> sim_inv main s \<Longrightarrow> sim_inv main s'"
  by (induction rule: rtranclp_induct) (auto intro: sim_step_inv)

text \<open>
  C34. The clock and the event queue of the simulator stay consistent in every run, whatever the fibers do and whichever the
  scheduler picks: when the simulation takes the next event, the event is not of the past, so the clock never goes back and the check of
  the source never fails, and when a fiber stops a stop source, every sleep that this ends still has its event in the queue, so no callback
  erases an entry that is gone. Fibers sleep until moments that are not in the past: \<^verbatim>\<open>Host::SleepUntil\<close> checks this itself, and
  \<^verbatim>\<open>World::MakeRequest\<close>, which does not, sleeps for the delay of the network, which is taken to be non-negative.
\<close>

theorem simulation_consistent:
  assumes "(sim_step uniform main)\<^sup>*\<^sup>* (sim_start main gen opts objs) s"
  shows "(active s = Some main \<longrightarrow> marked s main \<longrightarrow> events_queue (world s) \<noteq> [] \<longrightarrow>
       fst (fire_event (world s)) = Ok () \<and> current_time (world s) \<le> current_time (snd (fire_event (world s)))) \<and>
     (free s f \<longrightarrow> fst (stop_source st (world s)) = Ok ())"
proof -
  note inv = sim_steps_inv [OF assms sim_start_inv]
  then have q: "queue_ok (world s) (asleep s)" by (simp add: sim_inv_def)
  have "fst (fire_event (world s)) = Ok () \<and> current_time (world s) \<le> current_time (snd (fire_event (world s)))"
    if "events_queue (world s) \<noteq> []"
  proof -
    from that obtain t ev q' where ev: "events_queue (world s) = (t, ev) # q'" by (cases "events_queue (world s)") auto
    then have "current_time (world s) \<le> t" using q by (simp add: queue_ok_def)
    then show ?thesis by (simp add: fire_event_run [OF q ev])
  qed
  moreover have "fst (stop_source st (world s)) = Ok ()" if "free s f"
    using stop_source_run [OF q none_fired [OF inv]] that by (simp add: free_def)
  ultimately show ?thesis by blast
qed

text \<open>A fiber that the main one has made goes to sleep, and the simulation comes to its event.\<close>

definition sample_start :: "(unit, int) sim_state" where
  "sample_start = sim_start 0 () (options sample_world) (\<lambda>_. sample_host)"

theorem simulation_consistent_witness:
  "\<exists>s. (sim_step pick_last 0)\<^sup>*\<^sup>* sample_start s \<and> events_queue (world s) = [(5, 2)] \<and> fst (fire_event (world s)) = Ok ()"
proof -
  define s1 where "s1 = sample_start\<lparr>world := snd (awaken_all [1] (world sample_start))\<rparr>"
  define s2 where "s2 = s1\<lparr>world := snd (bind (with_scheduler (MarkAsMainFiber (\<lambda>_. ret ()) 0)) (\<lambda>_. awaken_all [0]) (world s1)), active := None\<rparr>"
  define s3 where "s3 = s2\<lparr>world := snd (with_scheduler (pick_next pick_last) (world s2)), active := Some 1\<rparr>"
  define s4 where "s4 = s3\<lparr>world := snd (World_SleepUntil 2 5 None (world s3)), asleep := (asleep s3)(1 \<mapsto> None), active := None\<rparr>"
  define s5 where "s5 = s4\<lparr>world := snd (with_scheduler (pick_next pick_last) (world s4)), active := Some 0\<rparr>"
  note defs = s1_def s2_def s3_def s4_def s5_def sample_start_def sim_start_def Initialize_def GetWorld_def sample_world_def exec_simps
    new_RuntimeSimulationScheduler_def new_RuntimeSimulationProps_def awaken_all_def with_scheduler_def awakened_def props_defs
    MarkAsMainFiber_def pick_next_def take_next_def has_ready_fibers_def pick_last_def erase_at_def World_SleepUntil_def
    add_callback_def insert_event_def free_def marked_def Event_Await_def new_Event_def sleep_event_def
  have "sim_step pick_last 0 sample_start s1" unfolding s1_def
    by (rule sim_step.awaken [where f = 0 and g = 1]) (simp_all add: defs)
  moreover have "sim_step pick_last 0 s1 s2" unfolding s2_def
    by (rule sim_step.begin_simulation) (simp_all add: defs)
  moreover have "sim_step pick_last 0 s2 s3" unfolding s3_def
    by (rule sim_step.pick) (simp_all add: defs)
  moreover have "sim_step pick_last 0 s3 s4"
    using sim_step.sleep [of s3 1 0 5 None "snd (World_SleepUntil 2 5 None (world s3))" pick_last] by (simp add: defs)
  moreover have "sim_step pick_last 0 s4 s5" unfolding s5_def
    by (rule sim_step.pick) (simp_all add: defs)
  ultimately have run: "(sim_step pick_last 0)\<^sup>*\<^sup>* sample_start s5"
    by (meson converse_rtranclp_into_rtranclp rtranclp.rtrancl_refl)
  have at: "active s5 = Some 0" "marked s5 0" "events_queue (world s5) = [(5, 2)]" by (simp_all add: defs)
  with simulation_consistent [OF run [unfolded sample_start_def]] run show ?thesis by fastforce
qed

end
