(* ===== verification/Sim_Rpc.thy ===== *)
theory Sim_Rpc
  imports Complex_Main Sim_Run
begin

text \<open>
  Remote calls in the simulator: servers (\<^verbatim>\<open>src/runtime/simulator/rpc_server.cpp\<close>), the network
  (\<^verbatim>\<open>World::MakeRequest\<close> in \<^verbatim>\<open>world.cpp\<close>) and the typed wrappers of clients and services
  (\<^verbatim>\<open>rpc_client_base.h\<close>, \<^verbatim>\<open>rpc_service_base.h\<close>).

  A call has a number \<open>r\<close>, which names its shared state, and a fiber of its own that carries it to the server and back. The
  handler of a service, the dispatch to it that the code generator writes, and the encoding of messages are parameters.

  Shown here: a call runs its handler at most once, and succeeds only with what the handler returned; a server that has shut down
  runs no handler; a typed call over a link that delivers it returns what the handler returns.
\<close>

section \<open>Servers\<close>

definition Register :: "nat \<Rightarrow> string \<Rightarrow> nat \<Rightarrow> ('g, 'd, unit) sim" where
  "Register this service_name service =
     bind (gets (\<lambda>w. services (server_objs w this))) (\<lambda>ss.
     bind (verify (ss service_name = None) ''service is already registered'') (\<lambda>_.
     set_server this (\<lambda>s. s\<lparr>services := (services s)(service_name \<mapsto> service)\<rparr>)))"

definition Start :: "nat \<Rightarrow> nat \<Rightarrow> nat \<Rightarrow> ('g, 'd, bool) sim" where
  "Start me this p =
     bind (gets (\<lambda>w. running (server_objs w this))) (\<lambda>was_running.
     bind (set_server this (\<lambda>s. s\<lparr>running := True\<rparr>)) (\<lambda>_.
     bind (verify (\<not> was_running) ''RpcServer is already running'') (\<lambda>_.
     bind (set_server this (\<lambda>s. s\<lparr>server_port := p\<rparr>)) (\<lambda>_.
     bind (GetCurrentHost me) (\<lambda>host.
     RegisterServer me host this p)))))"

text \<open>\<^verbatim>\<open>Run\<close> signals that a worker has started and waits for the shutdown event; it returns when this has been signalled.\<close>

definition Run :: "nat \<Rightarrow> ('g, 'd, unit) sim" where
  "Run this = set_server this (\<lambda>s. s\<lparr>worker_started := Event_Signal (worker_started s)\<rparr>)"

definition Run_end :: "nat \<Rightarrow> ('g, 'd, bool) sim" where
  "Run_end this = gets (\<lambda>w. Event_Await (shutdown_event (server_objs w this)))"

text \<open>\<^verbatim>\<open>ShutDown\<close> up to its wait for the requests in progress, and after it.\<close>

definition ShutDown :: "nat \<Rightarrow> nat \<Rightarrow> ('g, 'd, bool) sim" where
  "ShutDown me this =
     bind (gets (\<lambda>w. server_objs w this)) (\<lambda>s.
     bind (verify (running s) ''RpcServer is not running'') (\<lambda>_.
     bind (set_server this (\<lambda>s. s\<lparr>finished := True\<rparr>)) (\<lambda>_.
     bind (verify (\<not> finished s) ''RpcServer is already finished'') (\<lambda>_.
     bind (GetCurrentHost me) (\<lambda>host.
     UnregisterServer me host (server_port s))))))"

definition ShutDown_end :: "nat \<Rightarrow> ('g, 'd, bool) sim" where
  "ShutDown_end this =
     bind (gets (\<lambda>w. AwaitZero (requests_latch (server_objs w this)))) (\<lambda>zero.
     if zero
     then bind (set_server this (\<lambda>s. s\<lparr>shutdown_event := Event_Signal (shutdown_event s)\<rparr>)) (\<lambda>_. ret True)
     else ret False)"

definition ServerImpl_dtor :: "nat \<Rightarrow> ('g, 'd, unit) sim" where
  "ServerImpl_dtor this =
     bind (gets (\<lambda>w. finished (server_objs w this))) (\<lambda>f. verify f ''Destruction of running server'')"

text \<open>
  \<^verbatim>\<open>ProcessRequest\<close> of a server takes a guard of the latch, waits for a worker, finds the service, runs its handler
  and gives the guard back. The result of the lookup is an error or the service to call.
\<close>

definition Server_ProcessRequest :: "nat \<Rightarrow> nat \<Rightarrow> ('g, 'd, unit) sim" where
  "Server_ProcessRequest this g = set_server this (\<lambda>s. s\<lparr>requests_latch := MakeGuard g (requests_latch s)\<rparr>)"

definition Server_ProcessRequest_dispatch :: "nat \<Rightarrow> string \<Rightarrow> ('g, 'd, (nat, RpcError) Result option) sim" where
  "Server_ProcessRequest_dispatch this service_name =
     bind (gets (\<lambda>w. server_objs w this)) (\<lambda>s.
     if \<not> Event_Await (worker_started s) then ret None
     else case services s service_name of
         None \<Rightarrow> ret (Some (Err (mk_RpcError HandlerNotFound (''Unknown service: '' @ service_name))))
       | Some service \<Rightarrow> ret (Some (Ok service)))"

definition Server_ProcessRequest_end :: "nat \<Rightarrow> nat \<Rightarrow> ('g, 'd, unit) sim" where
  "Server_ProcessRequest_end this g = set_server this (\<lambda>s. s\<lparr>requests_latch := LatchGuard_dtor g (requests_latch s)\<rparr>)"

text \<open>
  \<^verbatim>\<open>Host::ProcessRequest\<close> up to the server: nothing while the fiber is suspended, an error, or the server that
  now processes the request. When the server is done, the host looks again whether the fiber may go on with the result.
\<close>

definition Host_ProcessRequest :: "nat \<Rightarrow> nat \<Rightarrow> nat \<Rightarrow> nat \<Rightarrow> ('g, 'd, (nat, RpcError) Result option) sim" where
  "Host_ProcessRequest me this p g =
     bind (GetCurrentHost me) (\<lambda>current.
     bind (verify (current = this) ''invalid current_host'') (\<lambda>_.
     bind (StopFiberIfNecessary me this) (\<lambda>goes_on.
     if \<not> goes_on then ret None
     else bind (gets (\<lambda>w. servers (host_objs w this) p)) (\<lambda>server.
       case server of
         None \<Rightarrow> ret (Some (Err (mk_RpcError ConnectionRefused '''')))
       | Some sv \<Rightarrow> bind (Server_ProcessRequest sv g) (\<lambda>_. ret (Some (Ok sv)))))))"

definition Host_ProcessRequest_return ::
  "nat \<Rightarrow> nat \<Rightarrow> (nat list, RpcError) Result \<Rightarrow> ('g, 'd, (nat list, RpcError) Result option) sim" where
  "Host_ProcessRequest_return me this result =
     bind (StopFiberIfNecessary me this) (\<lambda>goes_on. ret (if goes_on then Some result else None))"

section \<open>The network\<close>

definition set_result :: "nat \<Rightarrow> (nat list, RpcError) Result \<Rightarrow> ('g, 'd, unit) sim" where
  "set_result r result = modify (\<lambda>w. w\<lparr>request_results := (request_results w)(r := result)\<rparr>)"

text \<open>The caller: it makes the shared state, a stop callback and the fiber \<open>f\<close>, and waits for the event.\<close>

definition World_MakeRequest :: "nat \<Rightarrow> nat \<Rightarrow> nat option \<Rightarrow> ('g, 'd, unit) sim" where
  "World_MakeRequest f r stop_token =
     bind (set_result r (Err (mk_RpcError Cancelled ''''))) (\<lambda>_.
     bind (modify (\<lambda>w. w\<lparr>events := (events w)(request_event r := new_Event)\<rparr>)) (\<lambda>_.
     bind (add_callback stop_token (request_event r) (SignalOnly (request_event r))) (\<lambda>_.
     with_scheduler (awakened False f))))"

definition World_MakeRequest_end :: "nat \<Rightarrow> nat option \<Rightarrow> ('g, 'd, (nat list, RpcError) Result option) sim" where
  "World_MakeRequest_end r stop_token =
     bind (gets (\<lambda>w. Event_Await (events w (request_event r)))) (\<lambda>signalled.
     if \<not> signalled then ret None
     else bind (gets (\<lambda>w. request_results w r)) (\<lambda>result.
       bind (delete_callback stop_token (request_event r)) (\<lambda>_.
       ret (Some result))))"

text \<open>The fiber of the call: travelling in both directions is a sleep.\<close>

definition travel :: "('g, 'd :: {ord, field}) platform \<Rightarrow> nat \<Rightarrow> nat option \<Rightarrow> ('g, 'd, unit) sim" where
  "travel lib me stop_token =
     bind GetGlobalTime (\<lambda>now.
     bind (GetRpcDelay lib) (\<lambda>delay.
     bind (lift (s64 (now + delay))) (\<lambda>until.
     World_SleepUntil (sleep_event me) until stop_token)))"

definition answer_call :: "nat \<Rightarrow> (nat list, RpcError) Result \<Rightarrow> ('g, 'd, unit) sim" where
  "answer_call r result = bind (set_result r result) (\<lambda>_. signal (request_event r))"

text \<open>The arrival: whether the answer will be a network error, and the target host, unless the call ends here.\<close>

definition arrive ::
  "('g, 'd :: {ord, field}) platform \<Rightarrow> nat \<Rightarrow> nat \<Rightarrow> string \<Rightarrow> Endpoint \<Rightarrow> nat option \<Rightarrow> ('g, 'd, (bool \<times> nat) option) sim" where
  "arrive lib me r from endpoint stop_token =
     bind (World_SleepUntil_end (sleep_event me) stop_token) (\<lambda>_.
     bind (ShouldMakeNetworkError lib) (\<lambda>is_network_error.
     bind (if is_network_error then bind (draw (uniform_real lib 0 1)) (\<lambda>p. ret (p < 1 / 2)) else ret False) (\<lambda>lost.
     if lost then bind (answer_call r (Err (mk_RpcError NetworkError ''''))) (\<lambda>_. ret None)
     else
     bind (gets (\<lambda>w. map_of (hosts w) (address endpoint))) (\<lambda>target.
     case target of
       None \<Rightarrow> bind (answer_call r (Err (mk_RpcError ConnectionRefused ''''))) (\<lambda>_. ret None)
     | Some target_host \<Rightarrow>
         bind (gets (\<lambda>w. (from, address endpoint) \<in> closed_links w)) (\<lambda>closed.
         if closed then bind (answer_call r (Err (mk_RpcError NetworkError ''''))) (\<lambda>_. ret None)
         else
         bind (gets (\<lambda>w. epoch (host_objs w target_host))) (\<lambda>e.
         bind (with_scheduler (SetCurrentHost me (Some target_host) e)) (\<lambda>_.
         bind (stop_requested stop_token) (\<lambda>stopped.
         if stopped then ret None else ret (Some (is_network_error, target_host))))))))))"

definition deliver_result ::
  "nat \<Rightarrow> nat \<Rightarrow> string \<Rightarrow> Endpoint \<Rightarrow> nat option \<Rightarrow> bool \<Rightarrow> (nat list, RpcError) Result \<Rightarrow> ('g, 'd, unit) sim" where
  "deliver_result me r from endpoint stop_token is_network_error result =
     bind (World_SleepUntil_end (sleep_event me) stop_token) (\<lambda>_.
     bind (gets (\<lambda>w. (from, address endpoint) \<in> closed_links w)) (\<lambda>closed.
     if closed then answer_call r (Err (mk_RpcError NetworkError ''''))
     else answer_call r (if is_network_error then Err (mk_RpcError NetworkError '''') else result)))"

text \<open>
  The caller on its host: the address from which it calls, unless its fiber is suspended, and the result of the call, again unless
  the fiber is suspended.
\<close>

definition Host_MakeRequest :: "nat \<Rightarrow> nat \<Rightarrow> ('g, 'd, string option) sim" where
  "Host_MakeRequest me this =
     bind (GetCurrentHost me) (\<lambda>current.
     bind (verify (current = this) ''invalid current_host'') (\<lambda>_.
     bind (StopFiberIfNecessary me this) (\<lambda>goes_on.
     if \<not> goes_on then ret None else gets (\<lambda>w. Some (host_address (host_objs w this))))))"

definition Host_MakeRequest_return ::
  "nat \<Rightarrow> nat \<Rightarrow> (nat list, RpcError) Result \<Rightarrow> ('g, 'd, (nat list, RpcError) Result option) sim" where
  "Host_MakeRequest_return me this result =
     bind (StopFiberIfNecessary me this) (\<lambda>goes_on. ret (if goes_on then Some result else None))"

definition ClientBase_send :: "nat \<Rightarrow> ('g, 'd, string option) sim" where
  "ClientBase_send me = bind (GetCurrentHost me) (Host_MakeRequest me)"

section \<open>Typed calls\<close>

text \<open>A service decodes the request, runs its handler, and encodes the reply.\<close>

definition ProcessRequestWrapper ::
  "(nat list \<Rightarrow> 'req option) \<Rightarrow> ('resp \<Rightarrow> nat list option) \<Rightarrow> nat list \<Rightarrow> ('req \<Rightarrow> ('s, ('resp, RpcError) Result) exec) \<Rightarrow>
   ('s, (nat list, RpcError) Result) exec" where
  "ProcessRequestWrapper parse serialize bytes handler =
     (case parse bytes of
        None \<Rightarrow> ret (Err (mk_RpcError ParseError ''''))
      | Some request \<Rightarrow>
          bind (handler request) (\<lambda>result.
          case result of
            Err e \<Rightarrow> ret (Err e)
          | Ok value \<Rightarrow>
              bind (verify (serialize value \<noteq> None) ''serialization error'') (\<lambda>_.
              ret (Ok (the (serialize value))))))"

text \<open>A client encodes the request, sends it with the function \<open>send\<close>, and decodes the reply.\<close>

definition ClientBase_MakeRequest ::
  "('req \<Rightarrow> nat list option) \<Rightarrow> (nat list \<Rightarrow> 'resp option) \<Rightarrow> (nat list \<Rightarrow> ('s, (nat list, RpcError) Result) exec) \<Rightarrow> 'req \<Rightarrow>
   ('s, ('resp, RpcError) Result) exec" where
  "ClientBase_MakeRequest serialize parse send request =
     bind (verify (serialize request \<noteq> None) ''serialization error'') (\<lambda>_.
     bind (send (the (serialize request))) (\<lambda>result.
     case result of
       Err e \<Rightarrow> ret (Err e)
     | Ok bytes \<Rightarrow>
         (case parse bytes of
            None \<Rightarrow> ret (Err (mk_RpcError ParseError ''''))
          | Some proto_result \<Rightarrow> ret (Ok proto_result))))"

text \<open>
  C40. A typed call over a connection that delivers it returns what the handler returns, value or error, and has the effect of the
  handler, provided that decoding undoes encoding for the two messages.
\<close>

theorem typed_call_returns:
  assumes "\<And>m. \<exists>bytes. serialize_request m = Some bytes \<and> parse_request bytes = Some m"
    and "\<And>m. \<exists>bytes. serialize_reply m = Some bytes \<and> parse_reply bytes = Some m"
  shows "ClientBase_MakeRequest serialize_request parse_reply (\<lambda>bytes. ProcessRequestWrapper parse_request serialize_reply bytes handler) m =
     handler m"
proof
  fix s
  obtain bytes where m: "serialize_request m = Some bytes" "parse_request bytes = Some m" using assms(1) by blast
  obtain x s' where h: "handler m s = (x, s')" by fastforce
  show "ClientBase_MakeRequest serialize_request parse_reply (\<lambda>bytes. ProcessRequestWrapper parse_request serialize_reply bytes handler) m s = handler m s"
  proof (cases x)
    case x: (Ok result)
    show ?thesis
    proof (cases result)
      case result: (Ok v)
      obtain reply where "serialize_reply v = Some reply" "parse_reply reply = Some v" using assms(2) by blast
      then show ?thesis using m h x result by (simp add: ClientBase_MakeRequest_def ProcessRequestWrapper_def exec_simps)
    next
      case (Err e)
      then show ?thesis using m h x by (simp add: ClientBase_MakeRequest_def ProcessRequestWrapper_def exec_simps)
    qed
  next
    case (Err p)
    then show ?thesis using m h by (simp add: ClientBase_MakeRequest_def ProcessRequestWrapper_def exec_simps)
  qed
qed

definition sample_handler :: "nat \<Rightarrow> (nat, (nat, RpcError) Result) exec" where
  "sample_handler m n = (Ok (Ok (m + n)), Suc n)"

theorem typed_call_returns_witness:
  "ClientBase_MakeRequest (\<lambda>m. Some [m]) (\<lambda>bytes. case bytes of [m] \<Rightarrow> Some m | _ \<Rightarrow> None)
     (\<lambda>bytes. ProcessRequestWrapper (\<lambda>bytes. case bytes of [m] \<Rightarrow> Some m | _ \<Rightarrow> None) (\<lambda>m. Some [m]) bytes sample_handler) 7 5 = (Ok (Ok 12), 6)"
  by (subst typed_call_returns) (simp_all add: sample_handler_def)

section \<open>A call runs its handler at most once\<close>

datatype call_phase = Travelling | Arrived bool nat | InServer bool nat nat | Leaving bool nat "(nat list, RpcError) Result" | Returning bool "(nat list, RpcError) Result" | Over

text \<open>A call: the world, where its fiber is, and what its handler has returned so far, each time it ran.\<close>

record ('g, 'd) call =
  call_world :: "('g, 'd) World"
  phase :: call_phase
  replies :: "(nat list, RpcError) Result list"

text \<open>
  The fiber \<open>me\<close> of call \<open>r\<close>. In between, the rest of the program does anything but write to the shared state
  of this call, and so does the handler, whose result is arbitrary.
\<close>

inductive call_step ::
  "('g, 'd :: {ord, field}) platform \<Rightarrow> nat \<Rightarrow> nat \<Rightarrow> string \<Rightarrow> Endpoint \<Rightarrow> string \<Rightarrow> nat option \<Rightarrow> ('g, 'd) call \<Rightarrow> ('g, 'd) call \<Rightarrow> bool"
  for lib me r origin endpoint service token where
  arrives: "phase c = Travelling \<Longrightarrow> arrive lib me r origin endpoint token (call_world c) = (Ok x, w) \<Longrightarrow>
    call_step lib me r origin endpoint service token c (c\<lparr>call_world := w, phase := (case x of None \<Rightarrow> Over | Some (e, h) \<Rightarrow> Arrived e h)\<rparr>)"
| enters: "phase c = Arrived e h \<Longrightarrow> Host_ProcessRequest me h (port endpoint) r (call_world c) = (Ok (Some (Ok sv)), w) \<Longrightarrow>
    call_step lib me r origin endpoint service token c (c\<lparr>call_world := w, phase := InServer e h sv\<rparr>)"
| refused: "phase c = Arrived e h \<Longrightarrow> Host_ProcessRequest me h (port endpoint) r (call_world c) = (Ok (Some (Err er)), w) \<Longrightarrow>
    travel lib me token w = (Ok (), w') \<Longrightarrow>
    call_step lib me r origin endpoint service token c (c\<lparr>call_world := w', phase := Returning e (Err er)\<rparr>)"
| unknown: "phase c = InServer e h sv \<Longrightarrow> Server_ProcessRequest_dispatch sv service (call_world c) = (Ok (Some (Err er)), w) \<Longrightarrow>
    Server_ProcessRequest_end sv r w = (Ok (), w') \<Longrightarrow>
    call_step lib me r origin endpoint service token c (c\<lparr>call_world := w', phase := Leaving e h (Err er)\<rparr>)"
| handles: "phase c = InServer e h sv \<Longrightarrow> Server_ProcessRequest_dispatch sv service (call_world c) = (Ok (Some (Ok svc)), w) \<Longrightarrow>
    request_results w' r = request_results w r \<Longrightarrow> Server_ProcessRequest_end sv r w' = (Ok (), w'') \<Longrightarrow>
    call_step lib me r origin endpoint service token c (c\<lparr>call_world := w'', phase := Leaving e h res, replies := replies c @ [res]\<rparr>)"
| leaves: "phase c = Leaving e h res \<Longrightarrow> Host_ProcessRequest_return me h res (call_world c) = (Ok (Some res'), w) \<Longrightarrow>
    travel lib me token w = (Ok (), w') \<Longrightarrow>
    call_step lib me r origin endpoint service token c (c\<lparr>call_world := w', phase := Returning e res'\<rparr>)"
| delivers: "phase c = Returning e res \<Longrightarrow> deliver_result me r origin endpoint token e res (call_world c) = (Ok (), w) \<Longrightarrow>
    call_step lib me r origin endpoint service token c (c\<lparr>call_world := w, phase := Over\<rparr>)"
| others: "request_results w r = request_results (call_world c) r \<Longrightarrow>
    call_step lib me r origin endpoint service token c (c\<lparr>call_world := w\<rparr>)"

inductive_cases call_stepE: "call_step lib me r origin endpoint service token c c'"

text \<open>Only answering a call writes to its shared state.\<close>

definition same_results :: "nat \<Rightarrow> ('g, 'd) World \<Rightarrow> ('g, 'd) World \<Rightarrow> bool" where
  "same_results r w w' \<longleftrightarrow> request_results w' r = request_results w r"

definition error_results :: "nat \<Rightarrow> ('g, 'd) World \<Rightarrow> ('g, 'd) World \<Rightarrow> bool" where
  "error_results r w w' \<longleftrightarrow> request_results w' r = request_results w r \<or> HasError (request_results w' r)"

lemma results_rel [simp]: "reflp (same_results r)" "transp (same_results r)" "reflp (error_results r)" "transp (error_results r)"
  by (auto simp: reflp_def transp_def same_results_def error_results_def)

lemma keeps_weaken: "keeps R m \<Longrightarrow> (\<And>s s'. R s s' \<Longrightarrow> R' s s') \<Longrightarrow> keeps R' m"
  by (simp add: keeps_def)

lemma same_error: "same_results r w w' \<Longrightarrow> error_results r w w'"
  by (simp add: same_results_def error_results_def)

lemma keeps_same_results [keeps_intros]:
  "keeps (same_results r) (with_scheduler m)" "keeps (same_results r) (draw f)" "keeps (same_results r) (signal ev)"
  "keeps (same_results r) (set_server sv sf)" "keeps (same_results r) (set_host h hf)" "keeps (same_results r) GetGlobalTime"
  "keeps (same_results r) (delete_callback token cb)" "keeps (same_results r) (stop_requested token)" "keeps (same_results r) (erase_event t ev)"
  by (auto simp: keeps_def same_results_def with_scheduler_def draw_def signal_def set_server_def set_host_def GetGlobalTime_def
      delete_callback_def stop_requested_def erase_event_def exec_simps split: prod.split option.split)

lemma keeps_run_callback [keeps_intros]: "keeps (same_results r) (run_callback body)"
  by (cases body) (auto intro!: keeps_intros)

lemma keeps_add_callback [keeps_intros]: "keeps (same_results r) (add_callback token cb body)"
  unfolding add_callback_def by (auto intro!: keeps_intros keeps_modify simp: same_results_def split: option.split prod.split)

lemma keeps_travel [keeps_intros]: "keeps (same_results r) (travel lib me token)"
  unfolding travel_def GetRpcDelay_def World_SleepUntil_def by (auto intro!: keeps_intros keeps_modify simp: same_results_def)

lemma keeps_current [keeps_intros]:
  "keeps (same_results r) (GetCurrentHost me)" "keeps (same_results r) (GetCurrentEpoch me)" "keeps (same_results r) (StopFiberIfNecessary me h)"
  unfolding StopFiberIfNecessary_def GetCurrentHost_def GetCurrentEpoch_def by (auto intro!: keeps_intros)

lemma keeps_process [keeps_intros]:
  "keeps (same_results r) (Host_ProcessRequest me h p g)" "keeps (same_results r) (Server_ProcessRequest_dispatch sv name)"
  "keeps (same_results r) (Server_ProcessRequest_end sv g)" "keeps (same_results r) (Host_ProcessRequest_return me h res)"
  unfolding Host_ProcessRequest_def Host_ProcessRequest_return_def Server_ProcessRequest_dispatch_def Server_ProcessRequest_end_def Server_ProcessRequest_def
  by (auto intro!: keeps_intros split: option.split)

lemma keeps_error_results [keeps_intros]: "keeps (same_results r) m \<Longrightarrow> keeps (error_results r) m"
  by (erule keeps_weaken) (rule same_error)

lemma keeps_answer: "HasError res \<Longrightarrow> keeps (error_results r) (answer_call r res)"
  by (auto simp: keeps_def answer_call_def set_result_def signal_def exec_simps error_results_def)

lemma keeps_arrive: "keeps (error_results r) (arrive lib me r origin endpoint token)"
  unfolding arrive_def ShouldMakeNetworkError_def World_SleepUntil_end_def
  by (intro keeps_bind keeps_if keeps_option keeps_answer keeps_error_results keeps_intros results_rel) (auto intro!: keeps_intros)

lemma deliver_result_run:
  assumes "deliver_result me r origin endpoint token e res w = (Ok (), w')"
  shows "request_results w' r = res \<or> HasError (request_results w' r)"
  using assms
  by (auto simp: deliver_result_def World_SleepUntil_end_def delete_callback_def answer_call_def set_result_def signal_def exec_simps
      split: option.splits if_splits)

definition call_inv :: "nat \<Rightarrow> ('g, 'd) call \<Rightarrow> bool" where
  "call_inv r c \<longleftrightarrow>
     (case phase c of
        Returning e res \<Rightarrow> HasError (request_results (call_world c) r) \<and> (replies c = [res] \<or> replies c = [] \<and> HasError res)
      | Leaving e h res \<Rightarrow> HasError (request_results (call_world c) r) \<and> (replies c = [res] \<or> replies c = [] \<and> HasError res)
      | Over \<Rightarrow> length (replies c) \<le> 1 \<and> (HasError (request_results (call_world c) r) \<or> replies c = [request_results (call_world c) r])
      | _ \<Rightarrow> HasError (request_results (call_world c) r) \<and> replies c = [])"

lemma Host_ProcessRequest_return_Some: "Host_ProcessRequest_return me h res w = (Ok (Some res'), w') \<Longrightarrow> res' = res"
  by (cases "fst (StopFiberIfNecessary me h w)"; cases "StopFiberIfNecessary me h w")
     (auto simp: Host_ProcessRequest_return_def exec_simps split: if_splits)

lemma call_step_inv: "call_step lib me r origin endpoint service token c c' \<Longrightarrow> call_inv r c \<Longrightarrow> call_inv r c'"
proof (induction rule: call_step.induct)
  case (arrives c x w)
  then show ?case
    using keepsD [OF keeps_arrive arrives(2)] by (auto simp: call_inv_def error_results_def split: option.splits)
next
  case (enters c e h sv w)
  then show ?case using keepsD [OF keeps_process(1) enters(2), of r] by (auto simp: call_inv_def same_results_def)
next
  case (refused c e h er w w')
  then show ?case
    using keepsD [OF keeps_process(1) refused(2), of r] keepsD [OF keeps_travel refused(3), of r] by (auto simp: call_inv_def same_results_def)
next
  case (unknown c e h sv er w w')
  then show ?case
    using keepsD [OF keeps_process(2) unknown(2), of r] keepsD [OF keeps_process(3) unknown(3), of r] by (auto simp: call_inv_def same_results_def)
next
  case (handles c e h sv svc w w' w'' res)
  then show ?case
    using keepsD [OF keeps_process(2) handles(2), of r] keepsD [OF keeps_process(3) handles(4), of r] by (auto simp: call_inv_def same_results_def)
next
  case (leaves c e h res res' w w')
  then show ?case
    using keepsD [OF keeps_process(4) leaves(2), of r] keepsD [OF keeps_travel leaves(3), of r] Host_ProcessRequest_return_Some [OF leaves(2)]
    by (auto simp: call_inv_def same_results_def)
next
  case (delivers c e res w)
  then show ?case using deliver_result_run [OF delivers(2)] by (auto simp: call_inv_def)
next
  case (others w c)
  then show ?case by (auto simp: call_inv_def split: call_phase.splits)
qed

lemma MakeRequest_result:
  assumes "World_MakeRequest f r token w = (Ok (), w')"
  shows "HasError (request_results w' r)"
proof -
  let ?w1 = "snd (set_result r (Err (mk_RpcError Cancelled [])) w)"
  let ?m = "bind (modify (\<lambda>w. w\<lparr>events := (events w)(request_event r := new_Event)\<rparr>)) (\<lambda>_.
     bind (add_callback token (request_event r) (SignalOnly (request_event r))) (\<lambda>_. with_scheduler (awakened False f)))"
  have "keeps (same_results r) ?m" by (intro keeps_intros keeps_modify results_rel) (simp add: same_results_def)
  moreover have "?m ?w1 = (Ok (), w')" using assms by (simp add: World_MakeRequest_def set_result_def exec_simps)
  ultimately have "same_results r ?w1 w'" by (rule keepsD)
  then show ?thesis by (simp add: same_results_def set_result_def exec_simps)
qed

text \<open>
  C35. A call has the semantics "at most once": whatever the network, the hosts and the other fibers do, its handler runs at most once,
  and the call has a value as its result only if the handler ran and returned this value. An error says nothing about the handler.
\<close>

theorem call_at_most_once:
  assumes "(call_step lib me r origin endpoint service token)\<^sup>*\<^sup>* \<lparr>call_world = w, phase = Travelling, replies = []\<rparr> c"
    and "World_MakeRequest me r token w0 = (Ok (), w)"
  shows "length (replies c) \<le> 1 \<and> (\<forall>bytes. request_results (call_world c) r = Ok bytes \<longrightarrow> replies c = [Ok bytes])"
proof -
  have "call_inv r \<lparr>call_world = w, phase = Travelling, replies = []\<rparr>" using MakeRequest_result [OF assms(2)] by (simp add: call_inv_def)
  with assms(1) have "call_inv r c" by (induction rule: rtranclp_induct) (auto intro: call_step_inv)
  then show ?thesis by (auto simp: call_inv_def split: call_phase.splits)
qed

text \<open>A world with a host that serves, and a call to it that succeeds.\<close>

definition serving_world :: "(unit, real) World" where
  "serving_world = (GetWorld () \<lparr>network_error_proba = 0, delivery_time = \<lparr>ival_from = 5, ival_to = 5\<rparr>,
       long_delivery_time = \<lparr>ival_from = 0, ival_to = 0\<rparr>, long_delivery_time_proba = 0\<rparr>
       (\<lambda>_. \<lparr>start_time = 0, drift = 0, max_sleep_lag = 0, host_main = 0, joinable = True, host_address = ''srv'',
          servers = [42 \<mapsto> 5], paused = False, epoch = 0\<rparr>))
     \<lparr>hosts := [(''srv'', 3)],
      server_objs := (\<lambda>_. new_ServerImpl\<lparr>services := [''Echo'' \<mapsto> 9], running := True, worker_started := \<lparr>resumed = True\<rparr>\<rparr>)\<rparr>"

definition serving_platform :: "(unit, real) platform" where
  "serving_platform = \<lparr>uniform_int = (\<lambda>lo hi g. (lo, g)), uniform_size = (\<lambda>lo hi g. (lo, g)), uniform_real = (\<lambda>lo hi g. (lo, g)),
     scale = (\<lambda>d x. 0)\<rparr>"

theorem call_at_most_once_witness:
  "\<exists>c w. (call_step serving_platform 1 0 ''cli'' \<lparr>address = ''srv'', port = 42\<rparr> ''Echo'' None)\<^sup>*\<^sup>*
       \<lparr>call_world = w, phase = Travelling, replies = []\<rparr> c \<and>
     World_MakeRequest 1 0 None serving_world = (Ok (), w) \<and>
     request_results (call_world c) 0 = Ok [7] \<and> replies c = [Ok [7]]"
proof -
  let ?ep = "\<lparr>address = ''srv'', port = 42\<rparr>"
  let ?step = "call_step serving_platform 1 0 ''cli'' ?ep ''Echo'' None"
  define w where "w = snd (World_MakeRequest 1 0 None serving_world)"
  define w1 where "w1 = snd (arrive serving_platform 1 0 ''cli'' ?ep None w)"
  define w2 where "w2 = snd (Host_ProcessRequest 1 3 42 0 w1)"
  define w2' where "w2' = snd (Server_ProcessRequest_end 5 0 w2)"
  define w3 where "w3 = snd (travel serving_platform 1 None w2')"
  define w4 where "w4 = snd (deliver_result 1 0 ''cli'' ?ep None False (Ok [7]) w3)"
  note defs = w_def w1_def w2_def w2'_def w3_def w4_def serving_world_def serving_platform_def GetWorld_def exec_simps
    new_RuntimeSimulationScheduler_def new_RuntimeSimulationProps_def with_scheduler_def awakened_def props_defs
    World_MakeRequest_def set_result_def add_callback_def arrive_def World_SleepUntil_end_def delete_callback_def
    ShouldMakeNetworkError_def draw_def stop_requested_def Host_ProcessRequest_def GetCurrentHost_def GetCurrentEpoch_def
    StopFiberIfNecessary_def Server_ProcessRequest_def set_server_def Server_ProcessRequest_dispatch_def Event_Await_def
    Server_ProcessRequest_end_def travel_def GetGlobalTime_def GetRpcDelay_def GetProbability_def GetRandomFloat_def GetRandomDuration_def
    Host_ProcessRequest_return_def s64_def World_SleepUntil_def insert_event_def deliver_result_def answer_call_def signal_def
  have start: "World_MakeRequest 1 0 None serving_world = (Ok (), w)" by (simp add: defs)
  have "?step \<lparr>call_world = w, phase = Travelling, replies = []\<rparr> \<lparr>call_world = w1, phase = Arrived False 3, replies = []\<rparr>"
    using call_step.arrives [where c = "\<lparr>call_world = w, phase = Travelling, replies = []\<rparr>" and x = "Some (False, 3)" and w = w1
        and me = 1 and endpoint = ?ep and r = 0 and lib = serving_platform and origin = "''cli''" and service = "''Echo''" and token = None]
    by (simp add: defs)
  moreover have "?step \<lparr>call_world = w1, phase = Arrived False 3, replies = []\<rparr> \<lparr>call_world = w2, phase = InServer False 3 5, replies = []\<rparr>"
    using call_step.enters [where c = "\<lparr>call_world = w1, phase = Arrived False 3, replies = []\<rparr>" and e = False and h = 3 and sv = 5 and w = w2 and me = 1 and
        endpoint = ?ep and r = 0 and lib = serving_platform and origin = "''cli''" and service = "''Echo''" and token = None] by (simp add: defs)
  moreover have "?step \<lparr>call_world = w2, phase = InServer False 3 5, replies = []\<rparr> \<lparr>call_world = w2', phase = Leaving False 3 (Ok [7]), replies = [Ok [7]]\<rparr>"
    using call_step.handles [where c = "\<lparr>call_world = w2, phase = InServer False 3 5, replies = []\<rparr>" and e = False and h = 3 and sv = 5 and svc = 9 and w = w2
        and w' = w2 and w'' = w2' and res = "Ok [7]" and me = 1 and endpoint = ?ep and r = 0 and lib = serving_platform and origin = "''cli''"
        and service = "''Echo''" and token = None]
    by (simp add: defs)
  moreover have "?step \<lparr>call_world = w2', phase = Leaving False 3 (Ok [7]), replies = [Ok [7]]\<rparr>
      \<lparr>call_world = w3, phase = Returning False (Ok [7]), replies = [Ok [7]]\<rparr>"
    using call_step.leaves [where c = "\<lparr>call_world = w2', phase = Leaving False 3 (Ok [7]), replies = [Ok [7]]\<rparr>" and e = False and h = 3 and res = "Ok [7]"
        and res' = "Ok [7]" and w = w2' and w' = w3 and me = 1 and endpoint = ?ep and r = 0 and lib = serving_platform and origin = "''cli''"
        and service = "''Echo''" and token = None]
    by (simp add: defs)
  moreover have "?step \<lparr>call_world = w3, phase = Returning False (Ok [7]), replies = [Ok [7]]\<rparr> \<lparr>call_world = w4, phase = Over, replies = [Ok [7]]\<rparr>"
    using call_step.delivers [where c = "\<lparr>call_world = w3, phase = Returning False (Ok [7]), replies = [Ok [7]]\<rparr>" and e = False and res = "Ok [7]" and w = w4
        and me = 1 and endpoint = ?ep and r = 0 and lib = serving_platform and origin = "''cli''" and service = "''Echo''" and token = None]
    by (simp add: defs)
  ultimately have run: "?step\<^sup>*\<^sup>* \<lparr>call_world = w, phase = Travelling, replies = []\<rparr> \<lparr>call_world = w4, phase = Over, replies = [Ok [7]]\<rparr>"
    by (meson converse_rtranclp_into_rtranclp rtranclp.rtrancl_refl)
  have "request_results w4 0 = Ok [7]" by (simp add: defs)
  with call_at_most_once [OF run start] run start show ?thesis by fastforce
qed

end
