(* ===== verification/Sim_Servers.thy ===== *)
theory Sim_Servers
  imports Sim_Rpc
begin

text \<open>
  Shutting down a server and killing a host of the simulator (\<^verbatim>\<open>src/runtime/simulator/rpc_server.cpp\<close>,
  \<^verbatim>\<open>host.cpp\<close>).

  Shown here: when \<^verbatim>\<open>ShutDown\<close> of a server has finished, no handler of the server is running and none can start, and its workers return; a fiber
  of a host that has been killed never gets past a call of the runtime that checks its host.
\<close>

section \<open>What the checks of a host do\<close>

lemma StopFiberIfNecessary_same: "snd (StopFiberIfNecessary me h w) = w"
  by (simp add: StopFiberIfNecessary_def GetCurrentEpoch_def with_scheduler_def props_defs exec_simps)

lemma GetCurrentHost_same: "snd (GetCurrentHost me w) = w"
  by (simp add: GetCurrentHost_def with_scheduler_def props_defs exec_simps)

lemma GetCurrentHost_Ok: "GetCurrentHost me w = (Ok h, w') \<Longrightarrow> runs_on w me h \<and> w' = w"
  by (auto simp: GetCurrentHost_def with_scheduler_def props_defs exec_simps runs_on_def split: if_splits)

lemma RegisterServer_Ok:
  assumes "RegisterServer me h sv p w = (Ok b, w')"
  shows "w' = (if b then w\<lparr>host_objs := (host_objs w)(h := (host_objs w h)\<lparr>servers := (servers (host_objs w h))(p \<mapsto> sv)\<rparr>)\<rparr> else w)"
proof -
  obtain x where x: "StopFiberIfNecessary me h w = (x, w)" by (metis StopFiberIfNecessary_same prod.collapse)
  from assms show ?thesis
    unfolding RegisterServer_def by (cases x) (auto simp: exec_simps x set_host_def split: if_splits)
qed

lemma UnregisterServer_Ok:
  assumes "UnregisterServer me h p w = (Ok b, w')"
  shows "w' = (if b then w\<lparr>host_objs := (host_objs w)(h := (host_objs w h)\<lparr>servers := (servers (host_objs w h))(p := None)\<rparr>)\<rparr> else w)"
proof -
  obtain x where x: "StopFiberIfNecessary me h w = (x, w)" by (metis StopFiberIfNecessary_same prod.collapse)
  from assms show ?thesis
    unfolding UnregisterServer_def by (cases x) (auto simp: exec_simps x set_host_def split: if_splits)
qed

lemma Host_ProcessRequest_Ok:
  assumes "Host_ProcessRequest me h p g w = (Ok (Some (Ok sv)), w')"
  shows "servers (host_objs w h) p = Some sv \<and>
    w' = w\<lparr>server_objs := (server_objs w)(sv := (server_objs w sv)\<lparr>requests_latch := MakeGuard g (requests_latch (server_objs w sv))\<rparr>)\<rparr>"
proof -
  obtain x where x: "StopFiberIfNecessary me h w = (x, w)" by (metis StopFiberIfNecessary_same prod.collapse)
  obtain y where y: "GetCurrentHost me w = (y, w)" by (metis GetCurrentHost_same prod.collapse)
  from assms show ?thesis
    unfolding Host_ProcessRequest_def
    by (cases x; cases y) (auto simp: exec_simps x y Server_ProcessRequest_def set_server_def split: if_splits option.splits)
qed

section \<open>Shutting down a server\<close>

record ('g, 'd) server_state =
  srv_world :: "('g, 'd) World"
  busy :: "nat set"
  closing :: bool

text \<open>
  A server \<open>sv\<close> of the host \<open>home\<close>: the calls of its owner, which runs on that host, the requests in
  progress, each with a guard of its own, and anything else that does not change the server or register it.
  The owner calls \<^verbatim>\<open>ShutDown\<close> when its \<^verbatim>\<open>Start\<close> has returned: a registration that a paused host has delayed does not
  come after the end of the server, which is why \<open>register\<close> asks for a server that is not finished.
\<close>

inductive server_step :: "nat \<Rightarrow> nat \<Rightarrow> ('g, 'd) server_state \<Rightarrow> ('g, 'd) server_state \<Rightarrow> bool"
  for sv home where
  start: "runs_on (srv_world s) me home \<Longrightarrow> Start me sv p (srv_world s) = (Ok b, w) \<Longrightarrow>
    server_step sv home s (s\<lparr>srv_world := w\<rparr>)"
| register: "running (server_objs (srv_world s) sv) \<Longrightarrow> \<not> finished (server_objs (srv_world s) sv) \<Longrightarrow>
    RegisterServer me home sv (server_port (server_objs (srv_world s) sv)) (srv_world s) = (Ok b, w) \<Longrightarrow>
    server_step sv home s (s\<lparr>srv_world := w\<rparr>)"
| run: "Run sv (srv_world s) = (Ok (), w) \<Longrightarrow> server_step sv home s (s\<lparr>srv_world := w\<rparr>)"
| request: "Host_ProcessRequest me h p g (srv_world s) = (Ok (Some (Ok sv)), w) \<Longrightarrow>
    guards (requests_latch (server_objs (srv_world s) sv)) g = None \<Longrightarrow> count (requests_latch (server_objs (srv_world s) sv)) < u64_max \<Longrightarrow>
    server_step sv home s (s\<lparr>srv_world := w, busy := insert g (busy s)\<rparr>)"
| reply: "g \<in> busy s \<Longrightarrow> Server_ProcessRequest_end sv g (srv_world s) = (Ok (), w) \<Longrightarrow>
    server_step sv home s (s\<lparr>srv_world := w, busy := busy s - {g}\<rparr>)"
| shut_down: "runs_on (srv_world s) me home \<Longrightarrow> ShutDown me sv (srv_world s) = (Ok b, w) \<Longrightarrow>
    server_step sv home s (s\<lparr>srv_world := w, closing := b\<rparr>)"
| unregister: "finished (server_objs (srv_world s) sv) \<Longrightarrow> \<not> closing s \<Longrightarrow>
    UnregisterServer me home (server_port (server_objs (srv_world s) sv)) (srv_world s) = (Ok b, w) \<Longrightarrow>
    server_step sv home s (s\<lparr>srv_world := w, closing := b\<rparr>)"
| shut_down_end: "closing s \<Longrightarrow> ShutDown_end sv (srv_world s) = (Ok b, w) \<Longrightarrow> server_step sv home s (s\<lparr>srv_world := w\<rparr>)"
| others: "server_objs w sv = server_objs (srv_world s) sv \<Longrightarrow>
    \<forall>h p. servers (host_objs w h) p = Some sv \<longrightarrow> servers (host_objs (srv_world s) h) p = Some sv \<Longrightarrow>
    server_step sv home s (s\<lparr>srv_world := w\<rparr>)"

definition server_inv :: "nat \<Rightarrow> nat \<Rightarrow> ('g, 'd) server_state \<Rightarrow> bool" where
  "server_inv sv home s \<longleftrightarrow> (let w = srv_world s; o' = server_objs w sv in
     latch_inv (requests_latch o') \<and> holders (requests_latch o') = busy s \<and>
     (\<forall>h p. servers (host_objs w h) p = Some sv \<longrightarrow> h = home \<and> p = server_port o' \<and> running o' \<and> \<not> closing s) \<and>
     (closing s \<longrightarrow> finished o') \<and> (finished o' \<longrightarrow> running o') \<and>
     (resumed (shutdown_event o') \<longrightarrow> closing s \<and> busy s = {}))"

lemma Start_Ok:
  assumes "Start me sv p w = (Ok b, w')" and "runs_on w me home"
  shows "\<not> running (server_objs w sv) \<and> (let w1 = w\<lparr>server_objs := (server_objs w)(sv := (server_objs w sv)\<lparr>running := True, server_port := p\<rparr>)\<rparr> in
     w' = (if b then w1\<lparr>host_objs := (host_objs w)(home := (host_objs w home)\<lparr>servers := (servers (host_objs w home))(p \<mapsto> sv)\<rparr>)\<rparr> else w1))"
proof -
  let ?w1 = "w\<lparr>server_objs := (server_objs w)(sv := (server_objs w sv)\<lparr>running := True, server_port := p\<rparr>)\<rparr>"
  have "runs_on ?w1 me home" using assms(2) by (simp add: runs_on_def)
  then have "\<not> running (server_objs w sv) \<and> RegisterServer me home sv p ?w1 = (Ok b, w')"
    using assms(1) by (auto simp: Start_def exec_simps set_server_def GetCurrentHost_run split: if_splits)
  then show ?thesis using RegisterServer_Ok by (fastforce simp: Let_def)
qed

lemma ShutDown_Ok:
  assumes "ShutDown me sv w = (Ok b, w')" and "runs_on w me home"
  shows "running (server_objs w sv) \<and> \<not> finished (server_objs w sv) \<and>
    (let w1 = w\<lparr>server_objs := (server_objs w)(sv := (server_objs w sv)\<lparr>finished := True\<rparr>)\<rparr> in
     w' = (if b then w1\<lparr>host_objs := (host_objs w)(home := (host_objs w home)
         \<lparr>servers := (servers (host_objs w home))(server_port (server_objs w sv) := None)\<rparr>)\<rparr> else w1))"
proof -
  let ?w1 = "w\<lparr>server_objs := (server_objs w)(sv := (server_objs w sv)\<lparr>finished := True\<rparr>)\<rparr>"
  have "runs_on ?w1 me home" using assms(2) by (simp add: runs_on_def)
  then have "running (server_objs w sv) \<and> \<not> finished (server_objs w sv) \<and> UnregisterServer me home (server_port (server_objs w sv)) ?w1 = (Ok b, w')"
    using assms(1) by (auto simp: ShutDown_def exec_simps set_server_def GetCurrentHost_run split: if_splits)
  then show ?thesis using UnregisterServer_Ok by (fastforce simp: Let_def)
qed

lemma server_step_inv: "server_step sv home s s' \<Longrightarrow> server_inv sv home s \<Longrightarrow> server_inv sv home s'"
proof (induction rule: server_step.induct)
  case (start s me p b w)
  then show ?case
    using Start_Ok [OF start(2,1)] by (auto simp: server_inv_def Let_def split: if_splits)
next
  case (register s me b w)
  then show ?case
    using RegisterServer_Ok [OF register(3)] by (auto simp: server_inv_def Let_def split: if_splits)
next
  case (run s w)
  then show ?case by (auto simp: server_inv_def Run_def set_server_def exec_simps Let_def)
next
  case (request me h p g s w)
  let ?l = "requests_latch (server_objs (srv_world s) sv)"
  have "latch_step ?l (MakeGuard g ?l)" using request(2,3) by (rule latch_step.make)
  moreover have "holders (MakeGuard g ?l) = insert g (holders ?l)" by (auto simp: holders_def MakeGuard_def)
  ultimately show ?case
    using request(4) Host_ProcessRequest_Ok [OF request(1)] latch_step_inv by (auto simp: server_inv_def Let_def)
next
  case (reply g s w)
  let ?l = "requests_latch (server_objs (srv_world s) sv)"
  have g: "guards ?l g = Some True" using reply(1,3) by (auto simp: server_inv_def holders_def Let_def)
  then have "latch_step ?l (LatchGuard_dtor g ?l)" by (intro latch_step.destroy) simp
  moreover have "holders (LatchGuard_dtor g ?l) = holders ?l - {g}" using g by (auto simp: holders_def LatchGuard_dtor_def)
  ultimately show ?case
    using reply(2,3) latch_step_inv by (auto simp: server_inv_def Let_def Server_ProcessRequest_end_def set_server_def exec_simps)
next
  case (shut_down s me b w)
  then show ?case
    using ShutDown_Ok [OF shut_down(2,1)] by (auto simp: server_inv_def Let_def split: if_splits)
next
  case (unregister s me b w)
  then show ?case
    using UnregisterServer_Ok [OF unregister(3)] by (auto simp: server_inv_def Let_def split: if_splits)
next
  case (shut_down_end s b w)
  then show ?case
    by (auto simp: server_inv_def Let_def ShutDown_end_def set_server_def exec_simps AwaitZero_def latch_inv_def split: if_splits)
next
  case (others w s)
  then show ?case unfolding server_inv_def Let_def by simp blast
qed

text \<open>
  C36. When \<^verbatim>\<open>ShutDown\<close> of a server is over, so that it has signalled its workers, no request of the server is in progress, and no
  host hands the server another one: from then on its handlers do not run, its workers return from \<^verbatim>\<open>Run\<close>, and the server can be destroyed.
\<close>

theorem shut_down_is_final:
  assumes "(server_step sv home)\<^sup>*\<^sup>* \<lparr>srv_world = w, busy = {}, closing = False\<rparr> s" and "server_objs w sv = new_ServerImpl"
    and "\<forall>h p. servers (host_objs w h) p \<noteq> Some sv" and "Event_Await (shutdown_event (server_objs (srv_world s) sv))"
  shows "busy s = {} \<and> fst (Host_ProcessRequest me h p g (srv_world s)) \<noteq> Ok (Some (Ok sv)) \<and>
     fst (Run_end sv (srv_world s)) = Ok True \<and> fst (ServerImpl_dtor sv (srv_world s)) = Ok ()"
proof -
  have "server_inv sv home \<lparr>srv_world = w, busy = {}, closing = False\<rparr>"
    using assms(2,3) by (simp add: server_inv_def Let_def new_ServerImpl_def new_Latch_def new_Event_def latch_inv_def holders_def)
  with assms(1) have inv: "server_inv sv home s" by (induction rule: rtranclp_induct) (auto intro: server_step_inv)
  have "fst (Host_ProcessRequest me h p g (srv_world s)) \<noteq> Ok (Some (Ok sv))"
  proof
    assume "fst (Host_ProcessRequest me h p g (srv_world s)) = Ok (Some (Ok sv))"
    then have "servers (host_objs (srv_world s) h) p = Some sv" by (metis Host_ProcessRequest_Ok prod.collapse)
    with inv assms(4) show False by (auto simp: server_inv_def Let_def Event_Await_def)
  qed
  with inv assms(4) show ?thesis by (simp add: server_inv_def Let_def Event_Await_def ServerImpl_dtor_def Run_end_def exec_simps)
qed

text \<open>A server that starts, processes a request, and is shut down.\<close>

definition idle_world :: "(unit, real) World" where
  "idle_world = serving_world\<lparr>server_objs := (\<lambda>_. new_ServerImpl),
     host_objs := (\<lambda>_. (host_objs serving_world 3)\<lparr>servers := Map.empty\<rparr>),
     scheduler := (new_RuntimeSimulationScheduler ())\<lparr>fiber_props :=
        (\<lambda>_. \<lparr>is_main = False, host_initialized = True, current_host = Some 3, host_epoch = 0\<rparr>)\<rparr>\<rparr>"

theorem shut_down_is_final_witness:
  "\<exists>s. (server_step 5 3)\<^sup>*\<^sup>* \<lparr>srv_world = idle_world, busy = {}, closing = False\<rparr> s \<and> Event_Await (shutdown_event (server_objs (srv_world s) 5)) \<and>
     busy s = {} \<and> fst (Host_ProcessRequest 1 3 42 7 (srv_world s)) \<noteq> Ok (Some (Ok 5))"
proof -
  let ?step = "server_step 5 3 :: (unit, real) server_state \<Rightarrow> _"
  define s0 :: "(unit, real) server_state" where "s0 = \<lparr>srv_world = idle_world, busy = {}, closing = False\<rparr>"
  define s1 where "s1 = s0\<lparr>srv_world := snd (Start 1 5 42 (srv_world s0))\<rparr>"
  define s2 where "s2 = s1\<lparr>srv_world := snd (Host_ProcessRequest 1 3 42 7 (srv_world s1)), busy := insert 7 (busy s1)\<rparr>"
  define s3 where "s3 = s2\<lparr>srv_world := snd (Server_ProcessRequest_end 5 7 (srv_world s2)), busy := busy s2 - {7}\<rparr>"
  define s4 where "s4 = s3\<lparr>srv_world := snd (ShutDown 1 5 (srv_world s3)), closing := True\<rparr>"
  define s5 where "s5 = s4\<lparr>srv_world := snd (ShutDown_end 5 (srv_world s4))\<rparr>"
  note defs = s0_def s1_def s2_def s3_def s4_def s5_def idle_world_def serving_world_def GetWorld_def exec_simps new_RuntimeSimulationScheduler_def
    with_scheduler_def props_defs runs_on_def Start_def set_server_def set_host_def GetCurrentHost_def GetCurrentEpoch_def RegisterServer_def
    StopFiberIfNecessary_def Host_ProcessRequest_def Server_ProcessRequest_def Server_ProcessRequest_end_def ShutDown_def UnregisterServer_def
    ShutDown_end_def new_ServerImpl_def new_Latch_def MakeGuard_def LatchGuard_dtor_def AwaitZero_def Event_Signal_def Event_Await_def new_Event_def
    u64_inc_def u64_dec_def u64_add_def u64_sub_def u64_max_def
  have "?step s0 s1" unfolding s1_def by (rule server_step.start [where me = 1 and b = True]) (simp_all add: defs)
  moreover have "?step s1 s2" unfolding s2_def by (rule server_step.request [where me = 1 and h = 3 and p = 42]) (simp_all add: defs)
  moreover have "?step s2 s3" unfolding s3_def by (rule server_step.reply) (simp_all add: defs)
  moreover have "?step s3 s4" unfolding s4_def by (rule server_step.shut_down [where me = 1]) (simp_all add: defs)
  moreover have "?step s4 s5" unfolding s5_def by (rule server_step.shut_down_end [where b = True]) (simp_all add: defs)
  ultimately have run: "?step\<^sup>*\<^sup>* s0 s5" by (meson converse_rtranclp_into_rtranclp rtranclp.rtrancl_refl)
  have "server_objs idle_world 5 = new_ServerImpl" "\<forall>h p. servers (host_objs idle_world h) p \<noteq> Some 5" by (simp_all add: idle_world_def)
  moreover have "Event_Await (shutdown_event (server_objs (srv_world s5) 5))" by (simp add: defs)
  ultimately show ?thesis
    using shut_down_is_final [OF run [unfolded s0_def], of 1 3 42 7] run [unfolded s0_def] by blast
qed

section \<open>Killing a host\<close>

text \<open>What can happen to the hosts, seen from fiber \<open>me\<close>, which keeps its host and its epoch.\<close>

inductive host_step :: "nat \<Rightarrow> ('g, 'd) World \<Rightarrow> ('g, 'd) World \<Rightarrow> bool" for me where
  kill: "Host_KillHost h w = (Ok (), w') \<Longrightarrow> epoch (host_objs w h) < u64_max \<Longrightarrow> host_step me w w'"
| start: "Host_StartHost f h w = (Ok (), w') \<Longrightarrow> f \<noteq> me \<Longrightarrow> host_step me w w'"
| pause: "Host_PauseHost h w = (Ok (), w') \<Longrightarrow> host_step me w w'"
| resume: "Host_ResumeHost h w = (Ok (), w') \<Longrightarrow> host_step me w w'"
| others: "\<forall>h. epoch (host_objs w' h) = epoch (host_objs w h) \<Longrightarrow>
    fiber_props (scheduler w') me = fiber_props (scheduler w) me \<Longrightarrow> host_step me w w'"

definition outlived :: "nat \<Rightarrow> nat \<Rightarrow> ('g, 'd) World \<Rightarrow> bool" where
  "outlived me h w \<longleftrightarrow> host_initialized (fiber_props (scheduler w) me) \<and> host_epoch (fiber_props (scheduler w) me) < epoch (host_objs w h)"

text \<open>The fiber keeps its host.\<close>

definition outlived_on :: "nat \<Rightarrow> nat \<Rightarrow> ('g, 'd) World \<Rightarrow> bool" where
  "outlived_on me h w \<longleftrightarrow> outlived me h w \<and> runs_on w me h"

lemma awakened_props: "f \<noteq> me \<Longrightarrow> fiber_props (snd (awakened False f s)) me = fiber_props s me"
  by (simp add: awakened_def props_defs exec_simps)

lemma StartHost_facts:
  assumes "Host_StartHost f h w = (Ok (), w')" and "f \<noteq> me"
  shows "fiber_props (scheduler w') me = fiber_props (scheduler w) me" and "epoch (host_objs w' h') = epoch (host_objs w h')"
proof -
  obtain x sc where a: "awakened False f (scheduler w) = (x, sc)" by fastforce
  then have "fiber_props sc me = fiber_props (scheduler w) me" using awakened_props [OF assms(2), of "scheduler w"] by simp
  then show "fiber_props (scheduler w') me = fiber_props (scheduler w) me" and "epoch (host_objs w' h') = epoch (host_objs w h')"
    using assms a
    by (cases x; auto simp: Host_StartHost_def set_host_def with_scheduler_def SetCurrentHost_def exec_simps split: if_splits)+
qed

lemma host_step_outlived: "host_step me w w' \<Longrightarrow> outlived_on me h w \<Longrightarrow> outlived_on me h w'"
proof (induction rule: host_step.induct)
  case (start f h' w w')
  then show ?case using StartHost_facts [OF start(1,2)] by (simp add: outlived_on_def outlived_def runs_on_def)
qed (auto simp: outlived_on_def outlived_def runs_on_def Host_KillHost_def Host_PauseHost_def Host_ResumeHost_def set_host_def exec_simps
    u64_inc_exact split: if_splits)

text \<open>
  C37. A killed host stays dead for its fibers: from the moment a running host is killed, whatever is paused, resumed, killed or started
  afterwards, a fiber that belonged to it gets past none of the checks of the host again and changes nothing there. Its sleeps do not
  return, it registers and unregisters no server, it hands no request to a server and returns the result of none, and it neither sends a request nor
  sees the result of one it has sent. (Calls without the check stay possible: such a fiber can still read its clock and go to sleep.)
\<close>

theorem killed_fiber_stops:
  assumes "runs_on w me h" and "host_epoch (fiber_props (scheduler w) me) = epoch (host_objs w h)" and "epoch (host_objs w h) < u64_max"
    and "joinable (host_objs w h)" and "Host_KillHost h w = (Ok (), w1)" and "(host_step me)\<^sup>*\<^sup>* w1 w2"
  shows "StopFiberIfNecessary me h w2 = (Ok False, w2) \<and> Host_SleepUntil_return me h token w2 = (Ok None, w2) \<and>
     RegisterServer me h sv p w2 = (Ok False, w2) \<and> UnregisterServer me h p w2 = (Ok False, w2) \<and>
     Host_ProcessRequest me h p g w2 = (Ok None, w2) \<and> Host_ProcessRequest_return me h res w2 = (Ok None, w2) \<and>
     Host_MakeRequest me h w2 = (Ok None, w2) \<and> Host_MakeRequest_return me h res w2 = (Ok None, w2)"
proof -
  have "outlived_on me h w1"
    using assms(1-5) by (auto simp: outlived_on_def outlived_def runs_on_def Host_KillHost_def set_host_def exec_simps u64_inc_exact)
  with assms(6) have dead: "outlived_on me h w2" by (induction rule: rtranclp_induct) (auto intro: host_step_outlived)
  then have "StopFiberIfNecessary me h w2 = (Ok False, w2)"
    by (auto simp: outlived_on_def outlived_def StopFiberIfNecessary_def GetCurrentEpoch_def with_scheduler_def props_defs exec_simps)
  moreover have "GetCurrentHost me w2 = (Ok h, w2)" using dead by (simp add: outlived_on_def GetCurrentHost_run)
  ultimately show ?thesis
    by (simp add: Host_SleepUntil_return_def RegisterServer_def UnregisterServer_def Host_ProcessRequest_def Host_ProcessRequest_return_def
        Host_MakeRequest_def Host_MakeRequest_return_def exec_simps)
qed

theorem killed_fiber_stops_witness:
  "\<exists>w1 w2. Host_KillHost 3 idle_world = (Ok (), w1) \<and> Host_StartHost 8 3 w1 = (Ok (), w2) \<and>
     Host_MakeRequest 1 3 w2 = (Ok None, w2) \<and> Host_ProcessRequest_return 1 3 (Ok [7]) w2 = (Ok None, w2)"
proof -
  let ?w1 = "snd (Host_KillHost 3 idle_world)"
  let ?w2 = "snd (Host_StartHost 8 3 ?w1)"
  note defs = idle_world_def serving_world_def GetWorld_def exec_simps new_RuntimeSimulationScheduler_def with_scheduler_def props_defs
    runs_on_def set_host_def Host_KillHost_def Host_StartHost_def awakened_def u64_inc_def u64_add_def u64_max_def
  have k: "Host_KillHost 3 idle_world = (Ok (), ?w1)" by (simp add: defs)
  have s: "Host_StartHost 8 3 ?w1 = (Ok (), ?w2)" by (simp add: defs)
  have "(host_step 1)\<^sup>*\<^sup>* ?w1 ?w2" using host_step.start [OF s, of 1] by simp
  moreover have "runs_on idle_world 1 3" "host_epoch (fiber_props (scheduler idle_world) 1) = epoch (host_objs idle_world 3)"
      "epoch (host_objs idle_world 3) < u64_max" "joinable (host_objs idle_world 3)"
    by (simp_all add: defs)
  ultimately have "Host_MakeRequest 1 3 ?w2 = (Ok None, ?w2) \<and> Host_ProcessRequest_return 1 3 (Ok [7]) ?w2 = (Ok None, ?w2)"
    using killed_fiber_stops [of idle_world 1 3 ?w1 ?w2] k by blast
  with k s show ?thesis by blast
qed

end
