(* ===== verification/Raft_Core.thy ===== *)
theory Raft_Core
  imports KV Stop_States
begin

text \<open>
  The state and the operations that the two consensus nodes share. The classes
  \<^verbatim>\<open>RaftNode\<close> (\<^verbatim>\<open>src/raft/node/node.cpp\<close>) and
  \<^verbatim>\<open>MetamorphosisNode\<close> (\<^verbatim>\<open>src/metamorphosis/node/node.cpp\<close>) repeat this
  code; it is given here over an extensible record, follows the text of the Raft node, and each
  node's theory extends the record with the fields of its own.

  All fibers of a node run on one thread, so the code between two suspension points (an await, a
  sleep, a join or a remote call) is one atomic step. A function of the source that suspends is
  modelled by one definition per such stretch: \<open>StartFollower\<close> and
  \<open>StartFollower_wake\<close> around the sleep, \<open>StartCandidate\<close> and
  \<open>RequestVote_response\<close> around the remote call.

  Pointers to the \<^verbatim>\<open>PendingRequest\<close> objects, which live on the stacks of the
  waiting fibers, are numbers handed out by \<open>next_request\<close>; the \<^verbatim>\<open>Event\<close> in
  each of them is the flag \<open>replication_finished\<close>.
\<close>

section \<open>Messages and state\<close>

datatype State = Leader | Follower | Candidate

record node_config =
  node_id :: nat
  cluster_nodes :: "(string \<times> nat) list"

record log_entry =
  entry_term :: nat

record 'e AppendEntriesRequest =
  ae_term :: nat
  ae_leader_id :: nat
  ae_prev_log_index :: nat
  ae_prev_log_term :: nat
  ae_entries :: "'e list"
  ae_leader_commit :: nat

record AppendEntriesResult =
  aer_term :: nat
  aer_success :: bool

record RequestVoteRequest =
  rv_term :: nat
  rv_candidate_id :: nat
  rv_last_log_index :: nat
  rv_last_log_term :: nat

record RequestVoteResult =
  rvr_term :: nat
  rvr_vote_granted :: bool

record 'e node =
  state :: State
  raft_state :: "(string, nat) omap"
  raft_log :: "(nat, 'e) omap"
  commit_index :: nat
  match_index :: "nat list"
  next_index :: "nat list"
  current_term_start_index :: nat
  pending_requests :: "nat \<rightharpoonup> nat"
  pending_log :: "'e list"
  replication_finished :: "nat \<Rightarrow> bool"
  next_request :: nat
  stop_election :: StopState
  stop_leader :: StopState
  reset_election_timeout :: StopState
  reset_heartbeat_timeout :: StopState

section \<open>Databases of the node\<close>

definition with_state :: "((string, nat) omap, 'a) exec \<Rightarrow> (('e, 'm) node_scheme, 'a) exec" where
  "with_state m s = (let (r, x) = m (raft_state s) in (r, s\<lparr>raft_state := x\<rparr>))"

definition with_log :: "((nat, 'e) omap, 'a) exec \<Rightarrow> (('e, 'm) node_scheme, 'a) exec" where
  "with_log m s = (let (r, x) = m (raft_log s) in (r, s\<lparr>raft_log := x\<rparr>))"

definition expect_ok :: "(unit, DBError) Result \<Rightarrow> ('s, unit) exec" where
  "expect_ok r = lift (ExpectOk DBError_Message r)"

definition raft_log_Get :: "nat \<Rightarrow> (('e, 'm) node_scheme, 'e) exec" where
  "raft_log_Get index =
     bind (gets (\<lambda>s. kv_Get index (raft_log s))) (\<lambda>r. lift (GetValue DBError_Message r))"

section \<open>Accessors\<close>

definition MajorityCount :: "node_config \<Rightarrow> nat" where
  "MajorityCount config = length (cluster_nodes config) div 2 + 1"

definition GetCurrentTerm :: "(('e, 'm) node_scheme, nat) exec" where
  "GetCurrentTerm =
     bind (gets (\<lambda>s. kv_Get ''current_term'' (raft_state s))) (\<lambda>r. lift (GetValue DBError_Message r))"

definition GetVotedFor :: "(('e, 'm) node_scheme, nat option) exec" where
  "GetVotedFor =
     bind (gets (\<lambda>s. kv_Get ''voted_for'' (raft_state s))) (\<lambda>result.
     if HasError result then ret None
     else bind (lift (GetValue DBError_Message result)) (\<lambda>v. ret (Some v)))"

definition GetSavedLogSize :: "(('e, 'm) node_scheme, nat) exec" where
  "GetSavedLogSize =
     bind (gets (\<lambda>s. SeekToLast (NewIterator (raft_log s)))) (\<lambda>iterator.
     bind (lift (Valid iterator)) (\<lambda>valid.
     if valid then lift (GetKey iterator) else ret 0))"

definition GetLastSavedLogTerm :: "(('e log_entry_scheme, 'm) node_scheme, nat) exec" where
  "GetLastSavedLogTerm =
     bind (gets (\<lambda>s. SeekToLast (NewIterator (raft_log s)))) (\<lambda>iterator.
     bind (lift (Valid iterator)) (\<lambda>valid.
     if valid then bind (lift (IterValue iterator)) (\<lambda>e. ret (entry_term e)) else ret 0))"

definition GetLogEntry :: "nat \<Rightarrow> (('e, 'm) node_scheme, 'e) exec" where
  "GetLogEntry index =
     bind GetSavedLogSize (\<lambda>saved_log_size.
     bind (gets pending_log) (\<lambda>pending.
     bind (verify (0 < index \<and> index \<le> u64_add saved_log_size (length pending)) ''Invalid log index'') (\<lambda>_.
     if index \<le> saved_log_size then raft_log_Get index
     else at pending (u64_sub (u64_sub index saved_log_size) 1))))"

definition UpdateTerm :: "nat \<Rightarrow> nat option \<Rightarrow> (('e, 'm) node_scheme, unit) exec" where
  "UpdateTerm term voted_for =
     bind GetCurrentTerm (\<lambda>current_term.
     bind (verify (term > current_term) ''Invalid update term'') (\<lambda>_.
     let write_batch = WriteBatch_Put ''current_term'' term MakeWriteBatch;
         write_batch = (case voted_for of
             Some v \<Rightarrow> WriteBatch_Put ''voted_for'' v write_batch
           | None \<Rightarrow> WriteBatch_Delete ''voted_for'' write_batch)
     in bind (with_state (kv_Write write_batch)) expect_ok))"

section \<open>Changing state\<close>

text \<open>Stopping \<^verbatim>\<open>stop_leader\<close> runs the callbacks of all waiting requests.\<close>

definition signal_all :: "nat list \<Rightarrow> (nat \<Rightarrow> bool) \<Rightarrow> (nat \<Rightarrow> bool)" where
  "signal_all ids f = fold (\<lambda>i g. g(i := True)) ids f"

definition Stop_stop_leader :: "('e, 'm) node_scheme \<Rightarrow> ('e, 'm) node_scheme" where
  "Stop_stop_leader s =
     (let (ids, st) = StopSource_Stop (stop_leader s)
      in s\<lparr>stop_leader := st, replication_finished := signal_all ids (replication_finished s)\<rparr>)"

definition Stop_stop_election :: "('e, 'm) node_scheme \<Rightarrow> ('e, 'm) node_scheme" where
  "Stop_stop_election s = s\<lparr>stop_election := snd (StopSource_Stop (stop_election s))\<rparr>"

definition Stop_reset_election_timeout :: "('e, 'm) node_scheme \<Rightarrow> ('e, 'm) node_scheme" where
  "Stop_reset_election_timeout s =
     s\<lparr>reset_election_timeout := snd (StopSource_Stop (reset_election_timeout s))\<rparr>"

definition BecomeLeader :: "node_config \<Rightarrow> (('e, 'm) node_scheme, unit) exec" where
  "BecomeLeader config =
     bind GetCurrentTerm (\<lambda>_.
     bind (gets state) (\<lambda>st.
     bind (verify (st = Candidate) ''Invalid state'') (\<lambda>_.
     bind (modify (pending_log_update (\<lambda>_. []))) (\<lambda>_.
     bind GetSavedLogSize (\<lambda>size.
     bind (modify (\<lambda>s. s\<lparr>current_term_start_index := u64_inc size,
         next_index := replicate (length (cluster_nodes config)) (u64_inc size),
         match_index := replicate (length (cluster_nodes config)) 0,
         reset_heartbeat_timeout := new_StopState,
         stop_leader := new_StopState\<rparr>)) (\<lambda>_.
     bind (modify Stop_stop_election) (\<lambda>_.
     modify (state_update (\<lambda>_. Leader)))))))))"

definition BecomeFollower :: "(('e, 'm) node_scheme, unit) exec" where
  "BecomeFollower =
     bind GetCurrentTerm (\<lambda>_.
     bind (gets state) (\<lambda>st.
     bind (verify (st \<noteq> Follower) ''Invalid state'') (\<lambda>_.
     bind (if st = Leader then modify Stop_stop_leader
           else if st = Candidate then modify Stop_stop_election else ret ()) (\<lambda>_.
     modify (state_update (\<lambda>_. Follower))))))"

definition BecomeCandidate :: "(('e, 'm) node_scheme, unit) exec" where
  "BecomeCandidate =
     bind GetCurrentTerm (\<lambda>_.
     bind (gets state) (\<lambda>st.
     bind (verify (st = Follower) ''Invalid state'') (\<lambda>_.
     bind (modify Stop_reset_election_timeout) (\<lambda>_.
     modify (state_update (\<lambda>_. Candidate))))))"

text \<open>The repeated \<^verbatim>\<open>if (state != State::Follower) BecomeFollower();\<close>.\<close>

definition BecomeFollower_if_needed :: "(('e, 'm) node_scheme, unit) exec" where
  "BecomeFollower_if_needed =
     bind (gets state) (\<lambda>st. if st \<noteq> Follower then BecomeFollower else ret ())"

section \<open>Elections\<close>

definition RequestVote ::
  "RequestVoteRequest \<Rightarrow> (('e log_entry_scheme, 'm) node_scheme, RequestVoteResult) exec" where
  "RequestVote request =
     bind GetCurrentTerm (\<lambda>current_term.
     let result = (\<lambda>granted. \<lparr>rvr_term = current_term, rvr_vote_granted = granted\<rparr>) in
     if rv_term request < current_term then ret (result False)
     else
     bind (if rv_term request > current_term
           then bind (UpdateTerm (rv_term request) None) (\<lambda>_. BecomeFollower_if_needed)
           else ret ()) (\<lambda>_.
     bind GetVotedFor (\<lambda>voted_for.
     if voted_for = Some (rv_candidate_id request) then ret (result True)
     else if voted_for \<noteq> None then ret (result False)
     else
     bind GetLastSavedLogTerm (\<lambda>last_log_term.
     bind (if last_log_term > rv_last_log_term request then ret False
           else if last_log_term = rv_last_log_term request
           then bind GetSavedLogSize (\<lambda>size. ret (size \<le> rv_last_log_index request))
           else ret True) (\<lambda>granted.
     bind (if granted
           then bind (with_state (run_db (kv_Put ''voted_for'' (rv_candidate_id request)))) expect_ok
           else ret ()) (\<lambda>_.
     ret (result granted)))))))"

definition StartFollower :: "(('e, 'm) node_scheme, unit) exec" where
  "StartFollower = modify (reset_election_timeout_update (\<lambda>_. new_StopState))"

text \<open>The sleep returns whether its token was stopped.\<close>

definition StartFollower_wake :: "(('e, 'm) node_scheme, unit) exec" where
  "StartFollower_wake =
     bind (gets (\<lambda>s. cancelled (reset_election_timeout s))) (\<lambda>stopped.
     if \<not> stopped then BecomeCandidate else ret ())"

text \<open>
  The request sent to every other node and the initial number of votes. The local variable
  \<^verbatim>\<open>votes_count\<close> is shared by the fibers that wait for the answers.
\<close>

definition StartCandidate ::
  "node_config \<Rightarrow> (('e log_entry_scheme, 'm) node_scheme, RequestVoteRequest \<times> nat) exec" where
  "StartCandidate config =
     bind (modify (stop_election_update (\<lambda>_. new_StopState))) (\<lambda>_.
     bind GetCurrentTerm (\<lambda>term.
     bind (UpdateTerm (u64_inc term) (Some (node_id config))) (\<lambda>_.
     bind GetCurrentTerm (\<lambda>term'.
     bind GetLastSavedLogTerm (\<lambda>last_log_term.
     bind GetSavedLogSize (\<lambda>last_log_index.
     ret (\<lparr>rv_term = term', rv_candidate_id = node_id config, rv_last_log_index = last_log_index,
           rv_last_log_term = last_log_term\<rparr>, 1)))))))"

text \<open>The fiber \<^verbatim>\<open>election_timer\<close> after its sleep.\<close>

definition election_timer :: "(('e, 'm) node_scheme, unit) exec" where
  "election_timer = modify Stop_stop_election"

text \<open>
  What the fiber of one \<^verbatim>\<open>RequestVote\<close> call does with its result; \<open>become_leader\<close>
  is the node's own \<^verbatim>\<open>BecomeLeader\<close>. The new value of \<^verbatim>\<open>votes_count\<close> is
  returned.
\<close>

definition RequestVote_response ::
  "node_config \<Rightarrow> (('e, 'm) node_scheme, unit) exec \<Rightarrow> (RequestVoteResult, 'err) Result \<Rightarrow> nat \<Rightarrow>
   (('e, 'm) node_scheme, nat) exec" where
  "RequestVote_response config become_leader result votes_count =
     (case result of
        Err _ \<Rightarrow> ret votes_count
      | Ok v \<Rightarrow>
          bind GetCurrentTerm (\<lambda>current_term.
          if current_term < rvr_term v
          then bind (UpdateTerm (rvr_term v) None) (\<lambda>_.
               bind BecomeFollower_if_needed (\<lambda>_. ret votes_count))
          else if \<not> rvr_vote_granted v then ret votes_count
          else let votes_count = u64_inc votes_count in
            bind (gets state) (\<lambda>st.
            bind (if votes_count = MajorityCount config \<and> st = Candidate
                  then become_leader else ret ()) (\<lambda>_.
            ret votes_count))))"

section \<open>Commitment\<close>

text \<open>How many of the nodes \<open>0, \<dots>, n - 1\<close> hold the entry at \<open>index\<close>.\<close>

definition match_count :: "nat \<Rightarrow> nat list \<Rightarrow> nat \<Rightarrow> nat" where
  "match_count n match index = length (filter (\<lambda>node_id. match ! node_id \<ge> index) [0..<n])"

text \<open>The loop of \<^verbatim>\<open>UpdateCommitIndex\<close>, from the end of the log downwards.\<close>

primrec find_commit_index :: "node_config \<Rightarrow> nat list \<Rightarrow> nat \<Rightarrow> nat \<Rightarrow> nat \<Rightarrow> nat" where
  "find_commit_index config match commit start 0 = commit"
| "find_commit_index config match commit start (Suc i) =
     (if Suc i > commit \<and> Suc i \<ge> start
      then if match_count (length (cluster_nodes config)) match (Suc i) \<ge> MajorityCount config then Suc i
           else find_commit_index config match commit start i
      else commit)"

text \<open>
  The loop reads \<^verbatim>\<open>match_index\<close> at every node, unless it ends before its first round.
\<close>

definition FindCommitIndex :: "node_config \<Rightarrow> (('e, 'm) node_scheme, nat) exec" where
  "FindCommitIndex config =
     bind GetSavedLogSize (\<lambda>log_size.
     bind (gets (\<lambda>s. (match_index s, commit_index s, current_term_start_index s))) (\<lambda>(match, commit, start).
     if log_size > commit \<and> log_size \<ge> start \<and> length match < length (cluster_nodes config)
     then lift (Err (UndefinedBehaviour ''vector index''))
     else ret (find_commit_index config match commit start log_size)))"

section \<open>Writing entries\<close>

text \<open>
  The loops of \<^verbatim>\<open>AppendEntries\<close> over the entries of the request: the check against
  the committed part of the log, and the write batch.
\<close>

primrec check_committed :: "nat \<Rightarrow> nat \<Rightarrow> 'e list \<Rightarrow> (('e, 'm) node_scheme, unit) exec" where
  "check_committed commit index [] = ret ()"
| "check_committed commit index (e # es) =
     (if index \<le> commit
      then bind (raft_log_Get index) (\<lambda>value_from_log.
           bind (verify (e = value_from_log) ''invalid state: committed log is inconsistent'') (\<lambda>_.
           check_committed commit (u64_inc index) es))
      else ret ())"

primrec put_entries :: "nat \<Rightarrow> 'e list \<Rightarrow> (nat, 'e) WriteBatch \<Rightarrow> (nat, 'e) WriteBatch" where
  "put_entries index [] write_batch = write_batch"
| "put_entries index (e # es) write_batch =
     put_entries (u64_inc index) es (WriteBatch_Put index e write_batch)"

text \<open>
  The first part of \<^verbatim>\<open>AppendEntries\<close>: a request that is not dismissed for its term
  makes the node a follower of that term.
\<close>

definition follow_leader :: "nat \<Rightarrow> nat \<Rightarrow> (('e, 'm) node_scheme, unit) exec" where
  "follow_leader request_term current_term =
     bind (modify Stop_reset_election_timeout) (\<lambda>_.
     bind (gets state) (\<lambda>st.
     bind (if request_term \<ge> current_term \<and> st \<noteq> Follower then BecomeFollower else ret ()) (\<lambda>_.
     bind GetCurrentTerm (\<lambda>term.
     if request_term > term then UpdateTerm request_term None else ret ()))))"

text \<open>The second part: whether the log holds the entry before the sent ones.\<close>

definition check_prev_log :: "nat \<Rightarrow> nat \<Rightarrow> (('e log_entry_scheme, 'm) node_scheme, bool) exec" where
  "check_prev_log prev prev_term =
     bind (verify (prev \<noteq> 0 \<or> prev_term = 0) ''invalid prev_log_term'') (\<lambda>_.
     bind GetSavedLogSize (\<lambda>log_size.
     if prev > log_size then ret False
     else if prev \<noteq> 0 then bind (raft_log_Get prev) (\<lambda>e. ret (entry_term e = prev_term))
     else ret True))"

section \<open>What the databases hold\<close>

definition term_of :: "('e, 'm) node_scheme \<Rightarrow> nat" where
  "term_of s = (case om_find (<) ''current_term'' (raft_state s) of Some t \<Rightarrow> t | None \<Rightarrow> 0)"

definition vote_of :: "('e, 'm) node_scheme \<Rightarrow> nat option" where
  "vote_of s = om_find (<) ''voted_for'' (raft_state s)"

definition log_of :: "('e, 'm) node_scheme \<Rightarrow> 'e list" where
  "log_of s = map snd (raft_log s)"

definition last_term :: "'e log_entry_scheme list \<Rightarrow> nat" where
  "last_term es = (if es = [] then 0 else entry_term (last es))"

text \<open>The shape of the databases that every operation keeps.\<close>

definition wf_db :: "('e, 'm) node_scheme \<Rightarrow> bool" where
  "wf_db s \<longleftrightarrow> keys_ordered (raft_state s) \<and> om_find (<) ''current_term'' (raft_state s) \<noteq> None \<and>
     is_log (raft_log s)"

definition set_term :: "nat \<Rightarrow> nat option \<Rightarrow> ('e, 'm) node_scheme \<Rightarrow> ('e, 'm) node_scheme" where
  "set_term t v s = s\<lparr>raft_state := (case v of
       Some c \<Rightarrow> om_assign (<) ''voted_for'' c (om_assign (<) ''current_term'' t (raft_state s))
     | None \<Rightarrow> om_erase (<) ''voted_for'' (om_assign (<) ''current_term'' t (raft_state s)))\<rparr>"

definition set_vote :: "nat \<Rightarrow> ('e, 'm) node_scheme \<Rightarrow> ('e, 'm) node_scheme" where
  "set_vote c s = s\<lparr>raft_state := om_assign (<) ''voted_for'' c (raft_state s)\<rparr>"

text \<open>The other fields do not matter.\<close>

lemma term_of_update [simp]:
  "term_of (state_update f0 s) = term_of s"
  "term_of (commit_index_update f1 s) = term_of s"
  "term_of (match_index_update f2 s) = term_of s"
  "term_of (next_index_update f3 s) = term_of s"
  "term_of (current_term_start_index_update f4 s) = term_of s"
  "term_of (pending_requests_update f5 s) = term_of s"
  "term_of (pending_log_update f6 s) = term_of s"
  "term_of (replication_finished_update f7 s) = term_of s"
  "term_of (next_request_update f8 s) = term_of s"
  "term_of (stop_election_update f9 s) = term_of s"
  "term_of (stop_leader_update f10 s) = term_of s"
  "term_of (reset_election_timeout_update f11 s) = term_of s"
  "term_of (reset_heartbeat_timeout_update f12 s) = term_of s"
  by (simp_all add: term_of_def)

lemma vote_of_update [simp]:
  "vote_of (state_update f0 s) = vote_of s"
  "vote_of (commit_index_update f1 s) = vote_of s"
  "vote_of (match_index_update f2 s) = vote_of s"
  "vote_of (next_index_update f3 s) = vote_of s"
  "vote_of (current_term_start_index_update f4 s) = vote_of s"
  "vote_of (pending_requests_update f5 s) = vote_of s"
  "vote_of (pending_log_update f6 s) = vote_of s"
  "vote_of (replication_finished_update f7 s) = vote_of s"
  "vote_of (next_request_update f8 s) = vote_of s"
  "vote_of (stop_election_update f9 s) = vote_of s"
  "vote_of (stop_leader_update f10 s) = vote_of s"
  "vote_of (reset_election_timeout_update f11 s) = vote_of s"
  "vote_of (reset_heartbeat_timeout_update f12 s) = vote_of s"
  by (simp_all add: vote_of_def)

lemma log_of_update [simp]:
  "log_of (state_update f0 s) = log_of s"
  "log_of (commit_index_update f1 s) = log_of s"
  "log_of (match_index_update f2 s) = log_of s"
  "log_of (next_index_update f3 s) = log_of s"
  "log_of (current_term_start_index_update f4 s) = log_of s"
  "log_of (pending_requests_update f5 s) = log_of s"
  "log_of (pending_log_update f6 s) = log_of s"
  "log_of (replication_finished_update f7 s) = log_of s"
  "log_of (next_request_update f8 s) = log_of s"
  "log_of (stop_election_update f9 s) = log_of s"
  "log_of (stop_leader_update f10 s) = log_of s"
  "log_of (reset_election_timeout_update f11 s) = log_of s"
  "log_of (reset_heartbeat_timeout_update f12 s) = log_of s"
  by (simp_all add: log_of_def)

lemma wf_db_update [simp]:
  "wf_db (state_update f0 s) = wf_db s"
  "wf_db (commit_index_update f1 s) = wf_db s"
  "wf_db (match_index_update f2 s) = wf_db s"
  "wf_db (next_index_update f3 s) = wf_db s"
  "wf_db (current_term_start_index_update f4 s) = wf_db s"
  "wf_db (pending_requests_update f5 s) = wf_db s"
  "wf_db (pending_log_update f6 s) = wf_db s"
  "wf_db (replication_finished_update f7 s) = wf_db s"
  "wf_db (next_request_update f8 s) = wf_db s"
  "wf_db (stop_election_update f9 s) = wf_db s"
  "wf_db (stop_leader_update f10 s) = wf_db s"
  "wf_db (reset_election_timeout_update f11 s) = wf_db s"
  "wf_db (reset_heartbeat_timeout_update f12 s) = wf_db s"
  by (simp_all add: wf_db_def)

lemma keys_ordered_log: "is_log m \<Longrightarrow> keys_ordered m"
  by (simp add: keys_ordered_def is_log_sorted)

lemma length_log_of [simp]: "length (log_of s) = length (raft_log s)"
  by (simp add: log_of_def)

lemma GetCurrentTerm_run [exec_simps]: "wf_db s \<Longrightarrow> GetCurrentTerm s = (Ok (term_of s), s)"
  by (auto simp: GetCurrentTerm_def Database_Get_def wf_db_def term_of_def exec_simps)

lemma GetVotedFor_run [exec_simps]: "GetVotedFor s = (Ok (vote_of s), s)"
  by (auto simp: GetVotedFor_def Database_Get_def vote_of_def exec_simps split: option.splits)

lemma GetSavedLogSize_run [exec_simps]:
  "wf_db s \<Longrightarrow> GetSavedLogSize s = (Ok (length (raft_log s)), s)"
  using is_log_nth [of "raft_log s" "length (raft_log s) - 1"]
  by (auto simp: GetSavedLogSize_def wf_db_def exec_simps last_conv_nth)

lemma GetLastSavedLogTerm_run [exec_simps]:
  "GetLastSavedLogTerm s = (Ok (last_term (log_of s)), s)"
  by (simp add: GetLastSavedLogTerm_def exec_simps last_term_def log_of_def last_map)

lemma kv_Get_log:
  assumes "wf_db s"
  shows "kv_Get i (raft_log s) =
    (if 1 \<le> i \<and> i \<le> length (raft_log s) then Ok (log_of s ! (i - 1)) else Err (mk_DBError NotFound ''''))"
proof -
  have "is_log (raft_log s)" using assms by (simp add: wf_db_def)
  then have "om_find (<) i (raft_log s) =
      (if 1 \<le> i \<and> i \<le> length (raft_log s) then Some (snd (raft_log s ! (i - 1))) else None)"
    by (intro oml.log_get keys_ordered_log)
  then show ?thesis by (auto simp: Database_Get_def log_of_def)
qed

lemma raft_log_Get_run [exec_simps]:
  assumes "wf_db s"
  shows "raft_log_Get i s = (if 1 \<le> i \<and> i \<le> length (raft_log s) then (Ok (log_of s ! (i - 1)), s)
     else (Err (VerifyFailed ''Result does not hold value: NotFound''), s))"
  using assms by (simp add: raft_log_Get_def exec_simps kv_Get_log DBError_Message_def mk_DBError_def)

lemma UpdateTerm_run [exec_simps]:
  "wf_db s \<Longrightarrow> UpdateTerm t v s =
     (if t > term_of s then (Ok (), set_term t v s) else (Err (VerifyFailed ''Invalid update term''), s))"
  by (auto simp: UpdateTerm_def exec_simps Let_def with_state_def Database_Write_def expect_ok_def
      WriteBatch_Put_def WriteBatch_Delete_def MakeWriteBatch_def Database_Put_def Database_Delete_def
      ExpectOk_def set_term_def split: option.splits)

lemma put_vote_run [exec_simps]:
  "with_state (run_db (kv_Put ''voted_for'' c)) s = (Ok (Ok ()), set_vote c s)"
  by (simp add: with_state_def run_db_def Database_Put_def set_vote_def)

lemma expect_ok_run [exec_simps]: "expect_ok (Ok ()) s = (Ok (), s)"
  by (simp add: expect_ok_def ExpectOk_def exec_simps)

lemma set_term_facts [simp]:
  assumes "wf_db s"
  shows "term_of (set_term t v s) = t" and "vote_of (set_term t v s) = v"
    and "wf_db (set_term t v s)" and "raft_log (set_term t v s) = raft_log s"
    and "state (set_term t v s) = state s"
proof -
  have ord: "keys_ordered (om_assign (<) ''current_term'' t (raft_state s))"
    using assms by (simp add: wf_db_def om.invar_put)
  then show "term_of (set_term t v s) = t" "vote_of (set_term t v s) = v" "wf_db (set_term t v s)"
    using assms
    by (auto simp: term_of_def vote_of_def wf_db_def set_term_def om.get_put om.get_erase om.invar_put
        om.invar_erase om_find_assign split: option.splits)
qed (simp_all add: set_term_def)

lemma set_vote_facts [simp]:
  assumes "wf_db s"
  shows "term_of (set_vote c s) = term_of s" and "vote_of (set_vote c s) = Some c"
    and "wf_db (set_vote c s)" and "raft_log (set_vote c s) = raft_log s"
    and "state (set_vote c s) = state s"
  using assms
  by (auto simp: term_of_def vote_of_def wf_db_def set_vote_def om_find_assign om.invar_put)

section \<open>Changes of state\<close>

definition follower_of :: "('e, 'm) node_scheme \<Rightarrow> ('e, 'm) node_scheme" where
  "follower_of s = (if state s = Leader then Stop_stop_leader s else Stop_stop_election s)\<lparr>state := Follower\<rparr>"

definition step_down :: "('e, 'm) node_scheme \<Rightarrow> ('e, 'm) node_scheme" where
  "step_down s = (if state s \<noteq> Follower then follower_of s else s)"

text \<open>Two states with the same databases.\<close>

definition same_db :: "('e, 'm) node_scheme \<Rightarrow> ('e, 'm) node_scheme \<Rightarrow> bool" where
  "same_db s s' \<longleftrightarrow> raft_state s' = raft_state s \<and> raft_log s' = raft_log s"

lemma same_dbD:
  assumes "same_db s s'"
  shows "term_of s' = term_of s" and "vote_of s' = vote_of s" and "log_of s' = log_of s"
    and "wf_db s' \<longleftrightarrow> wf_db s" and "raft_log s' = raft_log s" and "raft_state s' = raft_state s"
  using assms by (simp_all add: same_db_def term_of_def vote_of_def log_of_def wf_db_def)

lemma same_db_Stop:
  "same_db s (Stop_stop_leader s)" "same_db s (Stop_stop_election s)" "same_db s (Stop_reset_election_timeout s)"
  by (simp_all add: same_db_def Stop_stop_leader_def Stop_stop_election_def
      Stop_reset_election_timeout_def split: prod.splits)

lemma same_db_follower: "same_db s (follower_of s)" "same_db s (step_down s)"
  using same_db_Stop [of s] by (simp_all add: same_db_def follower_of_def step_down_def)

lemmas step_down_db [simp] = same_dbD [OF same_db_follower(2)]
lemmas follower_of_db [simp] = same_dbD [OF same_db_follower(1)]

lemma state_step_down [simp]: "state (step_down s) = Follower"
  by (simp add: step_down_def follower_of_def)

lemma BecomeFollower_run [exec_simps]:
  "wf_db s \<Longrightarrow> BecomeFollower s =
     (if state s \<noteq> Follower then (Ok (), follower_of s) else (Err (VerifyFailed ''Invalid state''), s))"
  by (cases "state s") (simp_all add: BecomeFollower_def exec_simps follower_of_def)

lemma BecomeFollower_if_needed_run [exec_simps]:
  "wf_db s \<Longrightarrow> BecomeFollower_if_needed s = (Ok (), step_down s)"
  by (simp add: BecomeFollower_if_needed_def exec_simps step_down_def)

definition candidate_of :: "('e, 'm) node_scheme \<Rightarrow> ('e, 'm) node_scheme" where
  "candidate_of s = (Stop_reset_election_timeout s)\<lparr>state := Candidate\<rparr>"

lemma same_db_candidate: "same_db s (candidate_of s)"
  using same_db_Stop(3) [of s] by (simp add: same_db_def candidate_of_def)

lemmas candidate_of_db [simp] = same_dbD [OF same_db_candidate]

lemma state_candidate_of [simp]: "state (candidate_of s) = Candidate"
  by (simp add: candidate_of_def)

lemma BecomeCandidate_run [exec_simps]:
  "wf_db s \<Longrightarrow> BecomeCandidate s =
     (if state s = Follower then (Ok (), candidate_of s) else (Err (VerifyFailed ''Invalid state''), s))"
  by (simp add: BecomeCandidate_def exec_simps candidate_of_def)

definition leader_of :: "node_config \<Rightarrow> ('e, 'm) node_scheme \<Rightarrow> ('e, 'm) node_scheme" where
  "leader_of config s = (Stop_stop_election (s\<lparr>pending_log := [],
      current_term_start_index := u64_inc (length (raft_log s)),
      next_index := replicate (length (cluster_nodes config)) (u64_inc (length (raft_log s))),
      match_index := replicate (length (cluster_nodes config)) 0,
      reset_heartbeat_timeout := new_StopState,
      stop_leader := new_StopState\<rparr>))\<lparr>state := Leader\<rparr>"

lemma same_db_leader: "same_db s (leader_of config s)"
  by (simp add: same_db_def leader_of_def Stop_stop_election_def)

lemmas leader_of_db [simp] = same_dbD [OF same_db_leader]

lemma state_leader_of [simp]: "state (leader_of config s) = Leader"
  by (simp add: leader_of_def)

lemma BecomeLeader_run [exec_simps]:
  assumes "wf_db s"
  shows "BecomeLeader config s =
     (if state s = Candidate then (Ok (), leader_of config s) else (Err (VerifyFailed ''Invalid state''), s))"
proof -
  have "wf_db (s\<lparr>pending_log := []\<rparr>)"
    using assms by (simp add: wf_db_def)
  then show ?thesis
    using assms by (simp add: BecomeLeader_def exec_simps leader_of_def)
qed

section \<open>Voting\<close>

text \<open>
  The voting rule of Raft on the persistent part of a node: term, vote, last log term and log
  length. A candidate's log is up to date when its last term is greater, or equal with a log at
  least as long.
\<close>

definition up_to_date :: "nat \<Rightarrow> nat \<Rightarrow> RequestVoteRequest \<Rightarrow> bool" where
  "up_to_date lt sz request \<longleftrightarrow>
     lt < rv_last_log_term request \<or> lt = rv_last_log_term request \<and> sz \<le> rv_last_log_index request"

definition vote_spec ::
  "nat \<Rightarrow> nat option \<Rightarrow> nat \<Rightarrow> nat \<Rightarrow> RequestVoteRequest \<Rightarrow> nat \<times> nat option \<times> bool" where
  "vote_spec t v lt sz request =
     (let c = rv_candidate_id request;
          v' = (if rv_term request > t then None else v);
          t' = max t (rv_term request)
      in if rv_term request < t then (t, v, False)
         else if v' = Some c \<or> v' = None \<and> up_to_date lt sz request then (t', Some c, True)
         else (t', v', False))"

definition vote_entry :: "RequestVoteRequest \<Rightarrow> ('e, 'm) node_scheme \<Rightarrow> ('e, 'm) node_scheme" where
  "vote_entry request s =
     (if rv_term request > term_of s then step_down (set_term (rv_term request) None s) else s)"

lemma vote_entry_facts:
  assumes "wf_db s"
  shows "wf_db (vote_entry request s)" and "log_of (vote_entry request s) = log_of s"
    and "raft_log (vote_entry request s) = raft_log s"
    and "term_of (vote_entry request s) = max (term_of s) (rv_term request)"
    and "vote_of (vote_entry request s) = (if rv_term request > term_of s then None else vote_of s)"
    and "state (vote_entry request s) = (if rv_term request > term_of s then Follower else state s)"
  using assms by (auto simp: vote_entry_def log_of_def)

lemma RequestVote_run:
  assumes "wf_db s"
  shows "RequestVote request s =
    (if rv_term request < term_of s then (Ok \<lparr>rvr_term = term_of s, rvr_vote_granted = False\<rparr>, s)
     else let s1 = vote_entry request s in
       if vote_of s1 = Some (rv_candidate_id request)
       then (Ok \<lparr>rvr_term = term_of s, rvr_vote_granted = True\<rparr>, s1)
       else if vote_of s1 = None \<and> up_to_date (last_term (log_of s)) (length (log_of s)) request
       then (Ok \<lparr>rvr_term = term_of s, rvr_vote_granted = True\<rparr>, set_vote (rv_candidate_id request) s1)
       else (Ok \<lparr>rvr_term = term_of s, rvr_vote_granted = False\<rparr>, s1))"
proof (cases "rv_term request < term_of s")
  case True
  then show ?thesis using assms by (simp add: RequestVote_def exec_simps)
next
  case False
  let ?s1 = "vote_entry request s"
  have s1: "wf_db ?s1" "log_of ?s1 = log_of s" "raft_log ?s1 = raft_log s"
    using vote_entry_facts [OF assms] by auto
  have entry: "(if rv_term request > term_of s
           then bind (UpdateTerm (rv_term request) None) (\<lambda>_. BecomeFollower_if_needed)
           else ret ()) s = (Ok (), ?s1)"
    using assms by (simp add: exec_simps vote_entry_def)
  show ?thesis
    using False assms s1
    by (auto simp: RequestVote_def exec_simps entry Let_def up_to_date_def not_less)
qed

text \<open>The handler implements the voting rule and never panics on well-formed databases.\<close>

lemma RequestVote_refines:
  assumes "wf_db s"
    and "vote_spec (term_of s) (vote_of s) (last_term (log_of s)) (length (log_of s)) request = (t, v, g)"
  obtains s' where "RequestVote request s = (Ok \<lparr>rvr_term = term_of s, rvr_vote_granted = g\<rparr>, s')"
    and "term_of s' = t" and "vote_of s' = v" and "wf_db s'" and "raft_log s' = raft_log s"
    and "state s' = (if rv_term request > term_of s then Follower else state s)"
  using assms vote_entry_facts [OF assms(1), of request]
  by (fastforce simp: RequestVote_run [OF assms(1)] vote_spec_def Let_def split: if_splits)

section \<open>Writing entries\<close>

definition append_log :: "(nat, 'e) omap \<Rightarrow> 'e list \<Rightarrow> (nat, 'e) omap" where
  "append_log m es = m @ zip [Suc (length m)..<Suc (length m) + length es] es"

lemma append_log_Nil [simp]: "append_log m [] = m"
  by (simp add: append_log_def)

lemma append_log_Cons: "append_log m (e # es) = append_log (m @ [(Suc (length m), e)]) es"
  by (simp add: append_log_def upt_conv_Cons del: upt_Suc)

lemma length_append_log [simp]: "length (append_log m es) = length m + length es"
  by (simp add: append_log_def del: upt_Suc)

lemma snd_append_log [simp]: "map snd (append_log m es) = map snd m @ es"
  by (simp add: append_log_def del: upt_Suc)

lemma is_log_append_log: "is_log m \<Longrightarrow> is_log (append_log m es)"
proof (induction es arbitrary: m)
  case Nil
  then show ?case by simp
next
  case (Cons e es)
  then show ?case by (simp add: append_log_Cons is_log_append)
qed

lemma put_entries_commands:
  "put_entries i es (b @ b') = b @ put_entries i es b'"
  by (induction es arbitrary: i b') (simp_all add: WriteBatch_Put_def)

lemma Write_put_entries:
  assumes "is_log m" and "length m + length es \<le> u64_max"
  shows "for_each (put_entries (Suc (length m)) es []) (Write_cmd (<)) m = (Ok (), append_log m es)"
  using assms
proof (induction es arbitrary: m)
  case Nil
  then show ?case by (simp add: ret_run)
next
  case (Cons e es)
  have put: "om_assign (<) (Suc (length m)) e m = m @ [(Suc (length m), e)]"
    using Cons.prems(1) by (intro oml.log_put keys_ordered_log)
  have log: "is_log (m @ [(Suc (length m), e)])"
    using Cons.prems(1) by (rule is_log_append)
  have inc: "es \<noteq> [] \<Longrightarrow> u64_inc (Suc (length m)) = Suc (Suc (length m))"
    using Cons.prems(2) by (cases es) (simp_all add: u64_inc_exact)
  have eq: "put_entries (u64_inc (Suc (length m))) es [] = put_entries (Suc (length (m @ [(Suc (length m), e)]))) es []"
    using inc by (cases es) simp_all
  have "put_entries (Suc (length m)) (e # es) [] = PutCmd (Suc (length m)) e # put_entries (u64_inc (Suc (length m))) es []"
    using put_entries_commands [of _ es "[PutCmd (Suc (length m)) e]" "[]"]
    by (simp add: WriteBatch_Put_def)
  then show ?case
    using Cons.IH [OF log] Cons.prems(2)
    by (simp add: exec_simps Database_Put_def ExpectOk_def put eq append_log_Cons)
qed

lemma Write_replace_tail:
  assumes "is_log m" and "k \<le> length m" and "length m < u64_max" and "k + length es \<le> u64_max"
  shows "kv_Write (put_entries (Suc k) es (WriteBatch_DeleteRange (Suc k) u64_max MakeWriteBatch)) m =
     (Ok (Ok ()), append_log (take k m) es)"
proof -
  have le: "Suc k \<le> u64_max" using assms(2,3) by simp
  have cut: "om_cut (Suc k) u64_max m = take k m"
    using assms by (intro oml.log_cut keys_ordered_log) auto
  have log: "is_log (take k m)" using assms(1) by (rule is_log_take)
  have len: "length (take k m) = k" using assms(2) by simp
  show ?thesis
    using put_entries_commands [of "Suc k" es "[DeleteRangeCmd (Suc k) u64_max]" "[]"]
      Write_put_entries [OF log, of es] assms(4) len
    by (simp add: Database_Write_def WriteBatch_DeleteRange_def MakeWriteBatch_def exec_simps
        Database_DeleteRange_ok [OF le] cut ExpectOk_def)
qed

lemma Write_append:
  assumes "is_log m" and "length m + length es \<le> u64_max"
  shows "kv_Write (put_entries (Suc (length m)) es MakeWriteBatch) m = (Ok (Ok ()), append_log m es)"
  using Write_put_entries [OF assms]
  by (simp add: Database_Write_def MakeWriteBatch_def exec_simps)

text \<open>The check passes exactly when the entries repeat the committed part of the log.\<close>

lemma check_committed_run:
  assumes "wf_db s" and "1 \<le> i" and "commit \<le> length (raft_log s)" and "length (raft_log s) < u64_max"
  shows "check_committed commit i es s =
     (if \<forall>j < length es. i + j \<le> commit \<longrightarrow> es ! j = log_of s ! (i + j - 1) then (Ok (), s)
      else (Err (VerifyFailed ''invalid state: committed log is inconsistent''), s))"
  using assms(2)
proof (induction es arbitrary: i)
  case Nil
  then show ?case by (simp add: ret_run)
next
  case (Cons e es)
  show ?case
  proof (cases "i \<le> commit")
    case True
    have inc: "u64_inc i = Suc i" using True assms(3,4) by (simp add: u64_inc_exact)
    have all: "(\<forall>j < length (e # es). i + j \<le> commit \<longrightarrow> (e # es) ! j = log_of s ! (i + j - 1)) \<longleftrightarrow>
        e = log_of s ! (i - 1) \<and>
        (\<forall>j < length es. Suc i + j \<le> commit \<longrightarrow> es ! j = log_of s ! (Suc i + j - 1))"
      using True all_less_Suc_nth_Cons [of e es "\<lambda>j x. i + j \<le> commit \<longrightarrow> x = log_of s ! (i + j - 1)"]
      by simp
    have get: "raft_log_Get i s = (Ok (log_of s ! (i - 1)), s)"
      using True Cons.prems assms(1,3) by (simp add: raft_log_Get_run)
    show ?thesis
      using True Cons.prems Cons.IH [of "Suc i"] unfolding all
      by (simp add: bind_run get verify_run inc)
  next
    case False
    then show ?thesis by (auto simp: ret_run)
  qed
qed

section \<open>Candidates\<close>

lemma StartCandidate_run:
  assumes "wf_db s" and "term_of s < u64_max"
  shows "StartCandidate config s =
     (Ok (\<lparr>rv_term = Suc (term_of s), rv_candidate_id = node_id config,
           rv_last_log_index = length (log_of s), rv_last_log_term = last_term (log_of s)\<rparr>, 1),
      set_term (Suc (term_of s)) (Some (node_id config)) (s\<lparr>stop_election := new_StopState\<rparr>))"
proof -
  let ?s = "s\<lparr>stop_election := new_StopState\<rparr>"
  have db: "same_db s ?s" by (simp add: same_db_def)
  have wf: "wf_db ?s" and t: "term_of ?s = term_of s" and l: "log_of ?s = log_of s"
    using assms(1) same_dbD [OF db] by simp_all
  have log: "log_of (set_term t v ?s) = log_of s" for t v
    using set_term_facts(4) [OF wf] l by (simp add: log_of_def)
  show ?thesis
    using assms(2) wf t log set_term_facts(4) [OF wf]
    by (simp add: StartCandidate_def exec_simps u64_inc_exact)
qed

text \<open>The counter of votes and the state after one answer.\<close>

lemma RequestVote_response_run:
  assumes "wf_db s" and "votes < u64_max" and bl: "\<And>s. wf_db s \<Longrightarrow> state s = Candidate \<Longrightarrow> become_leader s = (Ok (), L s)"
  shows "RequestVote_response config become_leader (Ok v) votes s =
     (if rvr_term v > term_of s then (Ok votes, step_down (set_term (rvr_term v) None s))
      else if \<not> rvr_vote_granted v then (Ok votes, s)
      else if Suc votes = MajorityCount config \<and> state s = Candidate then (Ok (Suc votes), L s)
      else (Ok (Suc votes), s))"
  using assms(1,2) by (simp add: RequestVote_response_def exec_simps u64_inc_exact bl Let_def)

section \<open>Commitment\<close>

definition majority_at :: "node_config \<Rightarrow> nat list \<Rightarrow> nat \<Rightarrow> bool" where
  "majority_at config match i \<longleftrightarrow> match_count (length (cluster_nodes config)) match i \<ge> MajorityCount config"

lemma find_commit_index_bounds:
  "commit \<le> find_commit_index config match commit start n"
  "find_commit_index config match commit start n \<le> max commit n"
  by (induction n) auto

text \<open>A new index is held by a majority, belongs to the current term, and is the greatest such index.\<close>

lemma find_commit_index_new:
  "find_commit_index config match commit start n \<noteq> commit \<Longrightarrow>
     majority_at config match (find_commit_index config match commit start n) \<and>
     start \<le> find_commit_index config match commit start n"
  by (induction n) (auto simp: majority_at_def split: if_splits)

lemma find_commit_index_greatest:
  "find_commit_index config match commit start n < i \<Longrightarrow> i \<le> n \<Longrightarrow> start \<le> i \<Longrightarrow>
     \<not> majority_at config match i"
proof (induction n)
  case 0
  then show ?case by simp
next
  case (Suc n)
  then show ?case
    using find_commit_index_bounds(1) [of commit config match start "Suc n"]
    by (cases "i = Suc n") (auto simp: majority_at_def split: if_splits)
qed

lemma FindCommitIndex_run [exec_simps]:
  assumes "wf_db s" and "length (cluster_nodes config) \<le> length (match_index s)"
  shows "FindCommitIndex config s =
     (Ok (find_commit_index config (match_index s) (commit_index s) (current_term_start_index s) (length (raft_log s))), s)"
  using assms by (simp add: FindCommitIndex_def exec_simps)

section \<open>AppendEntries: the shared part\<close>

text \<open>
  A node that gets entries of a term that is not older than its own becomes a follower of that
  term. The log is accepted when it holds the entry before the sent ones.
\<close>

definition ae_entry :: "'e AppendEntriesRequest \<Rightarrow> ('e, 'm) node_scheme \<Rightarrow> ('e, 'm) node_scheme" where
  "ae_entry request s =
     (let s1 = step_down (Stop_reset_election_timeout s)
      in if ae_term request > term_of s then set_term (ae_term request) None s1 else s1)"

definition log_matches :: "'e log_entry_scheme AppendEntriesRequest \<Rightarrow> 'e log_entry_scheme list \<Rightarrow> bool" where
  "log_matches request es \<longleftrightarrow> ae_prev_log_index request \<le> length es \<and>
     (ae_prev_log_index request \<noteq> 0 \<longrightarrow>
        entry_term (es ! (ae_prev_log_index request - 1)) = ae_prev_log_term request)"

definition committed_agree :: "nat \<Rightarrow> nat \<Rightarrow> 'e list \<Rightarrow> 'e list \<Rightarrow> bool" where
  "committed_agree prev commit sent es \<longleftrightarrow>
     (\<forall>j < length sent. Suc prev + j \<le> commit \<longrightarrow> sent ! j = es ! (prev + j))"

definition new_log :: "nat \<Rightarrow> nat \<Rightarrow> 'e list \<Rightarrow> 'e list \<Rightarrow> 'e list" where
  "new_log prev commit sent es = take (max prev commit) es @ drop (max prev commit - prev) sent"

lemma ae_entry_facts:
  assumes "wf_db s"
  shows "wf_db (ae_entry request s)" and "raft_log (ae_entry request s) = raft_log s"
    and "log_of (ae_entry request s) = log_of s"
    and "term_of (ae_entry request s) = max (term_of s) (ae_term request)"
    and "vote_of (ae_entry request s) = (if ae_term request > term_of s then None else vote_of s)"
    and "state (ae_entry request s) = Follower"
    and "commit_index (ae_entry request s) = commit_index s"
proof -
  let ?s1 = "step_down (Stop_reset_election_timeout s)"
  note db = same_dbD [OF same_db_Stop(3) [of s]]
  have wf: "wf_db ?s1" and log: "raft_log ?s1 = raft_log s" and t: "term_of ?s1 = term_of s"
    and v: "vote_of ?s1 = vote_of s" and st: "state ?s1 = Follower"
    using assms by (simp_all add: db)
  show "wf_db (ae_entry request s)" "raft_log (ae_entry request s) = raft_log s"
    "log_of (ae_entry request s) = log_of s"
    "term_of (ae_entry request s) = max (term_of s) (ae_term request)"
    "vote_of (ae_entry request s) = (if ae_term request > term_of s then None else vote_of s)"
    "state (ae_entry request s) = Follower"
    using wf log t v st by (simp_all add: ae_entry_def Let_def log_of_def)
  show "commit_index (ae_entry request s) = commit_index s"
    by (simp add: ae_entry_def set_term_def step_down_def follower_of_def Stop_stop_leader_def
        Stop_stop_election_def Stop_reset_election_timeout_def Let_def split: prod.splits)
qed

lemma follow_leader_run:
  assumes "wf_db s" and "term_of s \<le> ae_term request"
  shows "follow_leader (ae_term request) (term_of s) s = (Ok (), ae_entry request s)"
proof -
  let ?s0 = "Stop_reset_election_timeout s"
  note db = same_dbD [OF same_db_Stop(3) [of s]]
  have wf: "wf_db ?s0" and t: "term_of ?s0 = term_of s"
    using assms(1) by (simp_all add: db)
  have st: "(if ae_term request \<ge> term_of s \<and> state ?s0 \<noteq> Follower then BecomeFollower else ret ()) ?s0 =
      (Ok (), step_down ?s0)"
    using wf assms(2) by (simp add: exec_simps step_down_def)
  show ?thesis
    unfolding follow_leader_def
    using wf t by (simp add: bind_run modify_run gets_run st GetCurrentTerm_run UpdateTerm_run ret_run
        ae_entry_def Let_def)
qed

lemma check_prev_log_run:
  assumes "wf_db s"
  shows "check_prev_log (ae_prev_log_index request) (ae_prev_log_term request) s =
    (if ae_prev_log_index request = 0 \<and> ae_prev_log_term request \<noteq> 0
     then (Err (VerifyFailed ''invalid prev_log_term''), s)
     else (Ok (log_matches request (log_of s)), s))"
  using assms by (auto simp: check_prev_log_def exec_simps log_matches_def)

lemma length_new_log:
  "max prev commit \<le> length es \<Longrightarrow>
     length (new_log prev commit sent es) = max (max prev commit) (prev + length sent)"
  by (auto simp: new_log_def)

text \<open>The write of the accepted entries.\<close>

lemma accept_entries_run:
  assumes "wf_db s" and "prev \<le> length (raft_log s)" and "commit_index s \<le> length (raft_log s)"
    and "length (raft_log s) < u64_max" and "prev + length sent < u64_max"
  shows "with_log (kv_Write (put_entries (u64_inc (max prev (commit_index s)))
       (drop (u64_sub (u64_sub (u64_inc (max prev (commit_index s))) prev) 1) sent)
       (WriteBatch_DeleteRange (u64_inc (max prev (commit_index s))) u64_max MakeWriteBatch))) s =
     (Ok (Ok ()), s\<lparr>raft_log := append_log (take (max prev (commit_index s)) (raft_log s))
       (drop (max prev (commit_index s) - prev) sent)\<rparr>)"
proof -
  let ?m = "max prev (commit_index s)"
  have m: "?m \<le> length (raft_log s)" "?m < u64_max" using assms by simp_all
  have inc: "u64_inc ?m = Suc ?m" using m by (simp add: u64_inc_exact)
  have "u64_sub (Suc ?m) prev = Suc ?m - prev"
    using m by (intro u64_sub_exact) auto
  moreover have "u64_sub (Suc ?m - prev) 1 = Suc ?m - prev - 1"
    using m by (intro u64_sub_exact) auto
  ultimately have sub: "u64_sub (u64_sub (Suc ?m) prev) 1 = ?m - prev" by simp
  have log: "is_log (raft_log s)" using assms(1) by (simp add: wf_db_def)
  have "?m + length (drop (?m - prev) sent) \<le> u64_max"
    using assms m by simp
  from Write_replace_tail [OF log m(1) assms(4) this] show ?thesis
    unfolding inc sub by (simp add: with_log_def)
qed

end
