(* ===== verification/State_Machine.thy ===== *)
theory State_Machine
  imports Prelude
begin

text \<open>
  The replicated state machine with exactly-once semantics
  (\<^verbatim>\<open>src/raft/node/state_machine_wrapper.cpp\<close>, \<^verbatim>\<open>state_machine_wrapper.h\<close>).

  The user's state machine (\<^verbatim>\<open>IStateMachine::Apply\<close>) is a parameter
  \<open>sm_apply\<close>, a function from its state and a command to the new state and the response.
  \<^verbatim>\<open>google::protobuf::Any\<close>, the type of commands and responses, is the type variable
  \<open>'a\<close>, its default value the parameter \<open>any0\<close>. The wrapper remembers the last request
  of every client and repeats the stored response when that request arrives again.
\<close>

record 'a Request =
  request_id :: nat
  client_id :: nat
  command :: 'a

record 'a LastClientData =
  last_response :: 'a
  last_request_id :: nat

record ('s, 'a) ExactlyOnce =
  state_machine :: 's
  clients_last_cmd_id :: "nat \<rightharpoonup> 'a LastClientData"

definition ExactlyOnce_new :: "'s \<Rightarrow> ('s, 'a) ExactlyOnce" where
  "ExactlyOnce_new s = \<lparr>state_machine = s, clients_last_cmd_id = Map.empty\<rparr>"

definition Apply ::
  "('s \<Rightarrow> 'a \<Rightarrow> 's \<times> 'a) \<Rightarrow> 'a \<Rightarrow> 'a Request \<Rightarrow> ('s, 'a) ExactlyOnce \<Rightarrow> 'a \<times> ('s, 'a) ExactlyOnce" where
  "Apply sm_apply any0 request m =
     (let last_data = (case clients_last_cmd_id m (client_id request) of
            None \<Rightarrow> \<lparr>last_response = any0, last_request_id = 0\<rparr>
          | Some d \<Rightarrow> d)
      in if last_request_id last_data = request_id request
         then (last_response last_data,
               m\<lparr>clients_last_cmd_id := (clients_last_cmd_id m)(client_id request \<mapsto> last_data)\<rparr>)
         else let (s', r) = sm_apply (state_machine m) (command request)
           in (r, m\<lparr>state_machine := s',
                    clients_last_cmd_id := (clients_last_cmd_id m)(client_id request \<mapsto>
                      \<lparr>last_response = r, last_request_id = request_id request\<rparr>)\<rparr>))"

text \<open>Applying a sequence of requests, as the loops over committed log entries do.\<close>

definition Apply_all ::
  "('s \<Rightarrow> 'a \<Rightarrow> 's \<times> 'a) \<Rightarrow> 'a \<Rightarrow> 'a Request list \<Rightarrow> ('s, 'a) ExactlyOnce \<Rightarrow> ('s, 'a) ExactlyOnce" where
  "Apply_all sm_apply any0 requests m = fold (\<lambda>r m. snd (Apply sm_apply any0 r m)) requests m"

text \<open>
  The requests that reach the user's state machine: those whose identifier differs from the
  identifier of the client's previous request (0 for a client not seen before).
\<close>

primrec effective :: "(nat \<Rightarrow> nat) \<Rightarrow> 'a Request list \<Rightarrow> 'a Request list" where
  "effective ids [] = []"
| "effective ids (r # rs) =
     (if ids (client_id r) = request_id r then effective ids rs
      else r # effective (ids(client_id r := request_id r)) rs)"

definition last_ids :: "('s, 'a) ExactlyOnce \<Rightarrow> nat \<Rightarrow> nat" where
  "last_ids m c = (case clients_last_cmd_id m c of None \<Rightarrow> 0 | Some d \<Rightarrow> last_request_id d)"

lemma Apply_all_Nil [simp]: "Apply_all f any0 [] m = m"
  by (simp add: Apply_all_def)

lemma Apply_all_Cons [simp]: "Apply_all f any0 (r # rs) m = Apply_all f any0 rs (snd (Apply f any0 r m))"
  by (simp add: Apply_all_def)

lemma Apply_all_append: "Apply_all f any0 (rs @ rs') m = Apply_all f any0 rs' (Apply_all f any0 rs m)"
  by (simp add: Apply_all_def)

lemma Apply_last_ids: "last_ids (snd (Apply f any0 r m)) = (last_ids m)(client_id r := request_id r)"
  by (rule ext) (auto simp: Apply_def last_ids_def Let_def split: option.splits prod.splits)

lemma Apply_machine:
  "state_machine (snd (Apply f any0 r m)) =
     (if last_ids m (client_id r) = request_id r then state_machine m
      else fst (f (state_machine m) (command r)))"
  by (auto simp: Apply_def last_ids_def Let_def split: option.splits prod.splits)

lemma Apply_other_client:
  "client_id r' \<noteq> c \<Longrightarrow> clients_last_cmd_id (snd (Apply f any0 r' m)) c = clients_last_cmd_id m c"
  by (auto simp: Apply_def Let_def split: prod.splits)

lemma Apply_all_other_client:
  "\<forall>r' \<in> set rs. client_id r' \<noteq> c \<Longrightarrow>
   clients_last_cmd_id (Apply_all f any0 rs m) c = clients_last_cmd_id m c"
  by (induction rs arbitrary: m) (simp_all add: Apply_other_client)

lemma Apply_remembers:
  "clients_last_cmd_id (snd (Apply f any0 r m)) (client_id r) =
     Some \<lparr>last_response = fst (Apply f any0 r m), last_request_id = request_id r\<rparr>"
  by (auto simp: Apply_def Let_def split: prod.splits option.splits)

lemma Apply_again:
  assumes "clients_last_cmd_id m (client_id r) = Some \<lparr>last_response = x, last_request_id = request_id r\<rparr>"
  shows "Apply f any0 r m = (x, m)"
proof -
  have "(clients_last_cmd_id m)(client_id r \<mapsto> \<lparr>last_response = x, last_request_id = request_id r\<rparr>) =
      clients_last_cmd_id m"
    using assms by (simp add: fun_upd_idem)
  then show ?thesis using assms by (simp add: Apply_def Let_def)
qed

text \<open>
  The wrapped machine runs exactly the effective requests, in their order.
\<close>

lemma Apply_all_effective:
  "state_machine (Apply_all f any0 rs m) =
     fold (\<lambda>r s. fst (f s (command r))) (effective (last_ids m) rs) (state_machine m)"
proof (induction rs arbitrary: m)
  case Nil
  show ?case by simp
next
  case (Cons r rs)
  have upd: "(last_ids m)(client_id r := request_id r) = last_ids m" if "last_ids m (client_id r) = request_id r"
    using that by (simp add: fun_upd_idem)
  show ?case
    unfolding Apply_all_Cons Cons Apply_last_ids Apply_machine by (simp add: upd)
qed

end
