(* ===== verification/Raft_Log.thy ===== *)
theory Raft_Log
  imports Raft_Core
begin

text \<open>
  What the Raft node and the Metamorphosis node have in common when they replicate a log: the
  parts of a log, the commit index a leader finds, what a leader knows of its log and of its
  followers, the request it sends, and the effect of the main session and of an answer on these.
\<close>

section \<open>Parts of a log\<close>

text \<open>The entries \<open>c + 1, \<dots>, n\<close> of a log.\<close>

definition entries_between :: "nat \<Rightarrow> nat \<Rightarrow> 'e list \<Rightarrow> 'e list" where
  "entries_between c n es = take (n - c) (drop c es)"

lemma entries_between_Suc:
  "c < n \<Longrightarrow> n \<le> length es \<Longrightarrow> entries_between c n es = es ! c # entries_between (Suc c) n es"
  by (simp add: entries_between_def take_Cons' Cons_nth_drop_Suc [symmetric])

lemma entries_between_append:
  "c \<le> n \<Longrightarrow> take c es @ entries_between c n es = take n es"
  by (metis entries_between_def le_add_diff_inverse take_add)

definition new_commit :: "'e AppendEntriesRequest \<Rightarrow> nat \<Rightarrow> nat \<Rightarrow> nat" where
  "new_commit request commit len = max commit (min (ae_leader_commit request) len)"

text \<open>The sizes under which no 64-bit index of a node wraps around.\<close>

definition fits :: "'e AppendEntriesRequest \<Rightarrow> ('e, 'm) node_scheme \<Rightarrow> bool" where
  "fits request s \<longleftrightarrow> commit_index s \<le> length (raft_log s) \<and> length (raft_log s) < u64_max \<and>
     ae_prev_log_index request + length (ae_entries request) < u64_max"

lemma take_committed_new_log:
  "commit \<le> length es \<Longrightarrow> take commit (new_log prev commit sent es) = take commit es"
  by (simp add: new_log_def min_def)

lemma length_new_log_ge: "commit \<le> length es \<Longrightarrow> commit \<le> length (new_log prev commit sent es)"
  by (simp add: new_log_def)

definition pending_inj :: "('e, 'm) node_scheme \<Rightarrow> bool" where
  "pending_inj s \<longleftrightarrow> (\<forall>i j p. pending_requests s i = Some p \<longrightarrow> pending_requests s j = Some p \<longrightarrow> i = j)"

section \<open>What a leader commits\<close>

definition committed_to :: "node_config \<Rightarrow> ('e, 'm) node_scheme \<Rightarrow> nat" where
  "committed_to config s = find_commit_index config (match_index s) (commit_index s)
     (current_term_start_index s) (length (raft_log s))"

lemma committed_to_bounds:
  assumes "commit_index s \<le> length (raft_log s)"
  shows "commit_index s \<le> committed_to config s" and "committed_to config s \<le> length (raft_log s)"
  using assms find_commit_index_bounds(2) [of config "match_index s" "commit_index s"
      "current_term_start_index s" "length (raft_log s)"]
  by (auto simp: committed_to_def find_commit_index_bounds(1))

section \<open>What a leader knows\<close>

definition leader_inv :: "node_config \<Rightarrow> ('e, 'm) node_scheme \<Rightarrow> bool" where
  "leader_inv config s \<longleftrightarrow>
     (let n = length (cluster_nodes config); own = node_id config
      in own < n \<and> length (next_index s) = n \<and> length (match_index s) = n \<and>
         next_index s ! own = Suc (length (raft_log s) + length (pending_log s)) \<and>
         length (raft_log s) + length (pending_log s) < u64_max \<and>
         (\<forall>p < n. 1 \<le> next_index s ! p \<and> next_index s ! p \<le> next_index s ! own))"

text \<open>The log of a leader, with the entries it has not written yet.\<close>

definition full_log :: "('e, 'm) node_scheme \<Rightarrow> 'e list" where
  "full_log s = log_of s @ pending_log s"

lemma GetLogEntry_run [exec_simps]:
  assumes "wf_db s" and "1 \<le> i" and "i \<le> length (full_log s)" and "length (full_log s) \<le> u64_max"
  shows "GetLogEntry i s = (Ok (full_log s ! (i - 1)), s)"
proof -
  have len: "u64_add (length (raft_log s)) (length (pending_log s)) = length (full_log s)"
    using assms(4) by (simp add: u64_add_exact full_log_def)
  have "i > length (raft_log s) \<Longrightarrow>
      u64_sub (u64_sub i (length (raft_log s))) 1 = i - length (raft_log s) - 1"
    using assms(3,4) by (simp add: u64_sub_exact)
  then show ?thesis
    using assms len by (auto simp: GetLogEntry_def exec_simps full_log_def nth_append)
qed

text \<open>
  The request to a peer holds the whole rest of the log, pending entries included, from the
  index the leader believes to be the peer's next one.
\<close>

definition append_request :: "node_config \<Rightarrow> nat \<Rightarrow> ('e log_entry_scheme, 'm) node_scheme \<Rightarrow> 'e log_entry_scheme AppendEntriesRequest" where
  "append_request config peer s =
     (let prev = next_index s ! peer - 1
      in \<lparr>ae_term = term_of s, ae_leader_id = node_id config, ae_prev_log_index = prev,
          ae_prev_log_term = (if prev = 0 then 0 else entry_term (full_log s ! (prev - 1))),
          ae_entries = drop prev (full_log s), ae_leader_commit = commit_index s\<rparr>)"

lemma map_nth_from:
  assumes "1 \<le> a"
  shows "map (\<lambda>i. xs ! (i - 1)) [a ..< Suc (length xs)] = drop (a - 1) xs"
proof (rule nth_equalityI)
  show "length (map (\<lambda>i. xs ! (i - 1)) [a ..< Suc (length xs)]) = length (drop (a - 1) xs)"
    using assms by (simp del: upt_Suc)
  show "map (\<lambda>i. xs ! (i - 1)) [a ..< Suc (length xs)] ! j = drop (a - 1) xs ! j"
    if "j < length (map (\<lambda>i. xs ! (i - 1)) [a ..< Suc (length xs)])" for j
    using assms that by (simp del: upt_Suc)
qed

lemma take_eq_nth: "take c xs = take c ys \<Longrightarrow> i < c \<Longrightarrow> xs ! i = ys ! i"
  by (metis nth_take)

lemma append_request_facts:
  assumes "next_index l ! peer \<le> Suc (length (raft_log l))"
  shows "ae_prev_log_index (append_request config peer l) = next_index l ! peer - 1"
    and "ae_entries (append_request config peer l) = drop (next_index l ! peer - 1) (full_log l)"
    and "ae_term (append_request config peer l) = term_of l"
    and "ae_prev_log_index (append_request config peer l) + length (ae_entries (append_request config peer l)) =
       length (full_log l)"
  using assms by (auto simp: append_request_def Let_def full_log_def)

lemma leader_inv_full:
  "leader_inv config s \<longleftrightarrow>
     node_id config < length (cluster_nodes config) \<and> length (next_index s) = length (cluster_nodes config) \<and>
     length (match_index s) = length (cluster_nodes config) \<and>
     next_index s ! node_id config = Suc (length (full_log s)) \<and> length (full_log s) < u64_max \<and>
     (\<forall>p < length (cluster_nodes config). 1 \<le> next_index s ! p \<and> next_index s ! p \<le> Suc (length (full_log s)))"
  by (auto simp: leader_inv_def Let_def full_log_def)

text \<open>One round of the main session: the pending entries are written, then the commit index moves.\<close>

definition pending_written :: "node_config \<Rightarrow> ('e, 'm) node_scheme \<Rightarrow> ('e, 'm) node_scheme" where
  "pending_written config s =
     s\<lparr>raft_log := append_log (raft_log s) (pending_log s),
       match_index := (match_index s)[node_id config := length (raft_log s) + length (pending_log s)],
       pending_log := []\<rparr>"

lemma pending_written_facts:
  assumes "wf_db s"
  shows "wf_db (pending_written config s)" "term_of (pending_written config s) = term_of s"
    "vote_of (pending_written config s) = vote_of s" "state (pending_written config s) = state s"
    "log_of (pending_written config s) = full_log s" "full_log (pending_written config s) = full_log s"
    "commit_index (pending_written config s) = commit_index s"
    "length (raft_log (pending_written config s)) = length (full_log s)"
    "next_index (pending_written config s) = next_index s"
    "pending_log (pending_written config s) = []"
  using assms
  by (simp_all add: pending_written_def wf_db_def term_of_def vote_of_def log_of_def full_log_def is_log_append_log)

text \<open>A successful answer: what the peer is known to hold, and what to send next.\<close>

definition peer_matched ::
  "nat \<Rightarrow> 'e AppendEntriesRequest \<Rightarrow> ('e, 'm) node_scheme \<Rightarrow> ('e, 'm) node_scheme" where
  "peer_matched peer request s =
     s\<lparr>match_index := (match_index s)[peer := ae_prev_log_index request + length (ae_entries request)],
       next_index := (next_index s)[peer := next_index s ! peer + length (ae_entries request)]\<rparr>"

lemma leader_of_inv:
  assumes "node_id config < length (cluster_nodes config)" and "length (raft_log s) < u64_max"
  shows "leader_inv config (leader_of config s)"
  using assms by (simp add: leader_inv_def Let_def leader_of_def Stop_stop_election_def u64_inc_exact)

end
