(* ===== verification/Raft_Node.thy ===== *)
theory Raft_Node
  imports Raft_Log State_Machine
begin

text \<open>
  The Raft node (\<^verbatim>\<open>src/raft/node/node.cpp\<close>, \<^verbatim>\<open>src/raft/raft.proto\<close>):
  the client call \<^verbatim>\<open>Execute\<close>, the internal call \<^verbatim>\<open>AppendEntries\<close>, the
  sessions of the leader and \<^verbatim>\<open>UpdateCommitIndex\<close>. The state extends the record of
  Raft_Core with the replicated state machine and the results of the waiting requests.

  Fields of the record that stand for one C++ object: \<open>rsm\<close> is
  \<^verbatim>\<open>ExactlyOnceStateMachine rsm\<close>; \<open>pending_result\<close> is the member
  \<^verbatim>\<open>result\<close> of the \<^verbatim>\<open>PendingRequest\<close> a pointer names.
\<close>

section \<open>State\<close>

record 'a LogEntry = log_entry +
  entry_request :: "'a Request"

datatype Response_Status = NotALeader | Commited

record 'a Response =
  response_status :: Response_Status
  response_result :: 'a

record ('s, 'a) RaftNode = "'a LogEntry node" +
  rsm :: "('s, 'a) ExactlyOnce"
  pending_result :: "nat \<Rightarrow> 'a"

text \<open>
  The constructor: the databases are those found on disk, everything else is fresh.
\<close>

definition RaftNode_new :: "'a \<Rightarrow> 's \<Rightarrow> (string, nat) omap \<Rightarrow> (nat, 'a LogEntry) omap \<Rightarrow> ('s, 'a) RaftNode" where
  "RaftNode_new any0 sm state_db log_db =
     \<lparr>state = Follower,
      raft_state = (if HasError (kv_Get ''current_term'' state_db)
                    then snd (kv_Put ''current_term'' 0 state_db) else state_db),
      raft_log = log_db,
      commit_index = 0, match_index = [], next_index = [], current_term_start_index = 0,
      pending_requests = Map.empty, pending_log = [],
      replication_finished = (\<lambda>_. False), next_request = 0,
      stop_election = new_StopState, stop_leader = new_StopState,
      reset_election_timeout = new_StopState, reset_heartbeat_timeout = new_StopState,
      rsm = ExactlyOnce_new sm, pending_result = (\<lambda>_. any0)\<rparr>"

section \<open>Execute\<close>

text \<open>
  Up to the await. The call either answers at once, or leaves a pending request, identified by
  its pointer, its log index and the term it was made in.
\<close>

definition Execute ::
  "node_config \<Rightarrow> 'a \<Rightarrow> 'a Request \<Rightarrow> (('s, 'a) RaftNode, 'a Response + nat \<times> nat \<times> nat) exec" where
  "Execute config any0 request =
     bind (gets state) (\<lambda>st.
     if st \<noteq> Leader then ret (Inl \<lparr>response_status = NotALeader, response_result = any0\<rparr>)
     else
     bind (gets next_index) (\<lambda>next.
     bind (at next (node_id config)) (\<lambda>new_log_index.
     bind (set_at next_index next_index_update (node_id config) (u64_inc new_log_index)) (\<lambda>_.
     bind GetCurrentTerm (\<lambda>current_term.
     let entry = \<lparr>entry_term = current_term, entry_request = request\<rparr> in
     bind (modify (\<lambda>s. s\<lparr>pending_log := pending_log s @ [entry]\<rparr>)) (\<lambda>_.
     bind (gets next_request) (\<lambda>ptr.
     bind (modify (\<lambda>s. s\<lparr>next_request := Suc ptr,
         replication_finished := (replication_finished s)(ptr := False),
         pending_result := (pending_result s)(ptr := any0)\<rparr>)) (\<lambda>_.
     bind (modify (\<lambda>s. let (ran, st) = StopCallback_new ptr (stop_leader s)
         in s\<lparr>stop_leader := st, replication_finished := signal_all ran (replication_finished s)\<rparr>)) (\<lambda>_.
     bind (modify (\<lambda>s. s\<lparr>pending_requests := (pending_requests s)(new_log_index \<mapsto> ptr)\<rparr>)) (\<lambda>_.
     bind (modify (\<lambda>s. s\<lparr>reset_heartbeat_timeout := snd (StopSource_Stop (reset_heartbeat_timeout s))\<rparr>)) (\<lambda>_.
     bind (modify (reset_heartbeat_timeout_update (\<lambda>_. new_StopState))) (\<lambda>_.
     ret (Inr (ptr, new_log_index, current_term))))))))))))))"

text \<open>
  After the await, with the flag of the request set. The callback is unlinked when the guard
  object goes out of scope.
\<close>

definition Execute_finish ::
  "'a \<Rightarrow> nat \<times> nat \<times> nat \<Rightarrow> (('s, 'a) RaftNode, 'a Response) exec" where
  "Execute_finish any0 pending =
     (case pending of (ptr, new_log_index, current_term) \<Rightarrow>
     bind (modify (\<lambda>s. s\<lparr>pending_requests := (pending_requests s)(new_log_index := None)\<rparr>)) (\<lambda>_.
     bind GetCurrentTerm (\<lambda>term.
     bind (if current_term \<noteq> term
           then ret \<lparr>response_status = NotALeader, response_result = any0\<rparr>
           else
           bind (gets state) (\<lambda>st.
           bind (verify (st = Leader) ''Invalid session state'') (\<lambda>_.
           bind (gets pending_result) (\<lambda>results.
           ret \<lparr>response_status = Commited, response_result = results ptr\<rparr>)))) (\<lambda>response.
     bind (modify (\<lambda>s. s\<lparr>stop_leader := StopCallback_delete ptr (stop_leader s)\<rparr>)) (\<lambda>_.
     ret response)))))"

section \<open>AppendEntries\<close>

definition apply_entry ::
  "('s \<Rightarrow> 'a \<Rightarrow> 's \<times> 'a) \<Rightarrow> 'a \<Rightarrow> nat \<Rightarrow> (('s, 'a) RaftNode, 'a) exec" where
  "apply_entry sm any0 index =
     bind (raft_log_Get index) (\<lambda>entry.
     bind (gets (\<lambda>s. Apply sm any0 (entry_request entry) (rsm s))) (\<lambda>(response, m).
     bind (modify (rsm_update (\<lambda>_. m))) (\<lambda>_. ret response)))"

text \<open>What is done with the entries of a request that passed the checks.\<close>

definition accept_entries ::
  "('s \<Rightarrow> 'a \<Rightarrow> 's \<times> 'a) \<Rightarrow> 'a \<Rightarrow> 'a LogEntry AppendEntriesRequest \<Rightarrow> (('s, 'a) RaftNode, unit) exec" where
  "accept_entries sm any0 request =
     (let prev = ae_prev_log_index request in
     bind (gets commit_index) (\<lambda>commit.
     bind (check_committed commit (u64_inc prev) (ae_entries request)) (\<lambda>_.
     let first = u64_inc (max prev commit);
         write_batch = put_entries first (drop (u64_sub (u64_sub first prev) 1) (ae_entries request))
           (WriteBatch_DeleteRange first u64_max MakeWriteBatch) in
     bind (bind (with_log (kv_Write write_batch)) expect_ok) (\<lambda>_.
     bind GetSavedLogSize (\<lambda>log_size.
     let new_commit_index = max commit (min (ae_leader_commit request) log_size) in
     bind (for_each [u64_inc commit ..< Suc new_commit_index]
         (\<lambda>index. bind (apply_entry sm any0 index) (\<lambda>_. ret ()))) (\<lambda>_.
     modify (commit_index_update (\<lambda>_. new_commit_index))))))))"

definition AppendEntries ::
  "('s \<Rightarrow> 'a \<Rightarrow> 's \<times> 'a) \<Rightarrow> 'a \<Rightarrow> 'a LogEntry AppendEntriesRequest \<Rightarrow>
   (('s, 'a) RaftNode, AppendEntriesResult) exec" where
  "AppendEntries sm any0 request =
     bind GetCurrentTerm (\<lambda>current_term.
     let result = (\<lambda>success. \<lparr>aer_term = current_term, aer_success = success\<rparr>) in
     if ae_term request < current_term then ret (result False)
     else
     bind (follow_leader (ae_term request) current_term) (\<lambda>_.
     bind (check_prev_log (ae_prev_log_index request) (ae_prev_log_term request)) (\<lambda>consistent.
     if \<not> consistent then ret (result False)
     else
     bind (accept_entries sm any0 request) (\<lambda>_.
     ret (result True)))))"

section \<open>The leader\<close>

text \<open>
  \<^verbatim>\<open>UpdateCommitIndex\<close>: the new commit index, then the entries are applied and the
  waiting requests answered.
\<close>

definition answer_pending :: "nat \<Rightarrow> 'a \<Rightarrow> (('s, 'a) RaftNode, unit) exec" where
  "answer_pending index response =
     bind (gets (\<lambda>s. pending_requests s index)) (\<lambda>it.
     case it of
       None \<Rightarrow> ret ()
     | Some ptr \<Rightarrow> modify (\<lambda>s. s\<lparr>pending_result := (pending_result s)(ptr := response),
         replication_finished := (replication_finished s)(ptr := True)\<rparr>))"

definition UpdateCommitIndex ::
  "node_config \<Rightarrow> ('s \<Rightarrow> 'a \<Rightarrow> 's \<times> 'a) \<Rightarrow> 'a \<Rightarrow> (('s, 'a) RaftNode, unit) exec" where
  "UpdateCommitIndex config sm any0 =
     bind (FindCommitIndex config) (\<lambda>new_commit_index.
     bind (gets commit_index) (\<lambda>commit.
     bind (for_each [u64_inc commit ..< Suc new_commit_index]
         (\<lambda>index. bind (apply_entry sm any0 index) (answer_pending index))) (\<lambda>_.
     modify (commit_index_update (\<lambda>_. new_commit_index)))))"

text \<open>
  The main session writes the pending entries; the code before its loop, and the body of the
  loop up to the await. The loop ends when the node is no longer the leader.
\<close>

definition StartLeaderMainSession :: "node_config \<Rightarrow> (('s, 'a) RaftNode, unit) exec" where
  "StartLeaderMainSession config =
     bind GetSavedLogSize (\<lambda>log_size.
     set_at match_index match_index_update (node_id config) log_size)"

definition StartLeaderMainSession_body ::
  "node_config \<Rightarrow> ('s \<Rightarrow> 'a \<Rightarrow> 's \<times> 'a) \<Rightarrow> 'a \<Rightarrow> (('s, 'a) RaftNode, unit) exec" where
  "StartLeaderMainSession_body config sm any0 =
     bind (gets state) (\<lambda>st.
     if st \<noteq> Leader then ret ()
     else
     bind (gets pending_log) (\<lambda>pending.
     bind (gets match_index) (\<lambda>match.
     bind (at match (node_id config)) (\<lambda>own.
     bind (bind (with_log (kv_Write (put_entries (u64_inc own) pending MakeWriteBatch))) expect_ok) (\<lambda>_.
     bind (set_at match_index match_index_update (node_id config) (u64_add own (length pending))) (\<lambda>_.
     bind (modify (pending_log_update (\<lambda>_. []))) (\<lambda>_.
     UpdateCommitIndex config sm any0)))))))"

text \<open>After all sessions of \<^verbatim>\<open>StartLeader\<close> have ended.\<close>

definition StartLeader_finish :: "(('s, 'a) RaftNode, unit) exec" where
  "StartLeader_finish = modify (pending_log_update (\<lambda>_. []))"

text \<open>One round of the session with another node: the request, and what is done with its result.\<close>

definition StartLeaderNodeSession ::
  "node_config \<Rightarrow> nat \<Rightarrow> (('s, 'a) RaftNode, 'a LogEntry AppendEntriesRequest option) exec" where
  "StartLeaderNodeSession config peer =
     bind (gets state) (\<lambda>st.
     if st \<noteq> Leader then ret None
     else
     bind (gets next_index) (\<lambda>next.
     bind (at next peer) (\<lambda>next_peer.
     bind (verify (next_peer \<ge> 1) ''invalid next_index'') (\<lambda>_.
     bind GetCurrentTerm (\<lambda>term.
     bind (if next_peer = 1 then ret 0
           else bind (raft_log_Get (u64_dec next_peer)) (\<lambda>e. ret (entry_term e))) (\<lambda>prev_log_term.
     bind (gets commit_index) (\<lambda>commit.
     bind (at next (node_id config)) (\<lambda>next_own.
     bind (map_exec [next_peer ..< next_own] GetLogEntry) (\<lambda>entries.
     ret (Some \<lparr>ae_term = term, ae_leader_id = node_id config, ae_prev_log_index = u64_dec next_peer,
          ae_prev_log_term = prev_log_term, ae_entries = entries, ae_leader_commit = commit\<rparr>))))))))))"

definition AppendEntries_response ::
  "node_config \<Rightarrow> ('s \<Rightarrow> 'a \<Rightarrow> 's \<times> 'a) \<Rightarrow> 'a \<Rightarrow> nat \<Rightarrow> 'a LogEntry AppendEntriesRequest \<Rightarrow>
   (AppendEntriesResult, 'err) Result \<Rightarrow> (('s, 'a) RaftNode, unit) exec" where
  "AppendEntries_response config sm any0 peer request result =
     bind (gets state) (\<lambda>st.
     if st \<noteq> Leader then ret ()
     else case result of
       Err _ \<Rightarrow> ret ()
     | Ok response \<Rightarrow>
         bind GetCurrentTerm (\<lambda>term.
         if aer_term response > term
         then bind (UpdateTerm (aer_term response) None) (\<lambda>_. BecomeFollower_if_needed)
         else
         if \<not> aer_success response
         then bind (gets next_index) (\<lambda>next.
              bind (at next peer) (\<lambda>next_peer.
              bind (verify (next_peer \<ge> 2) ''invalid state'') (\<lambda>_.
              set_at next_index next_index_update peer (u64_dec next_peer))))
         else
         bind (set_at match_index match_index_update peer
             (u64_add (ae_prev_log_index request) (length (ae_entries request)))) (\<lambda>_.
         bind (gets next_index) (\<lambda>next.
         bind (at next peer) (\<lambda>next_peer.
         bind (set_at next_index next_index_update peer
             (u64_add next_peer (length (ae_entries request)))) (\<lambda>_.
         UpdateCommitIndex config sm any0))))))"

section \<open>Applying committed entries\<close>

lemma rsm_update_db [simp]:
  "term_of (rsm_update f s) = term_of s" "vote_of (rsm_update f s) = vote_of s"
  "log_of (rsm_update f s) = log_of s" "wf_db (rsm_update f s) = wf_db s"
  "term_of (pending_result_update g s) = term_of s" "vote_of (pending_result_update g s) = vote_of s"
  "log_of (pending_result_update g s) = log_of s" "wf_db (pending_result_update g s) = wf_db s"
  by (simp_all add: term_of_def vote_of_def log_of_def wf_db_def)

definition requests_of :: "'a LogEntry list \<Rightarrow> 'a Request list" where
  "requests_of es = map entry_request es"

lemma apply_entry_run [exec_simps]:
  assumes "wf_db s" and "1 \<le> i" and "i \<le> length (raft_log s)"
  shows "apply_entry sm any0 i s =
     (Ok (fst (Apply sm any0 (entry_request (log_of s ! (i - 1))) (rsm s))),
      s\<lparr>rsm := snd (Apply sm any0 (entry_request (log_of s ! (i - 1))) (rsm s))\<rparr>)"
  using assms by (simp add: apply_entry_def exec_simps split: prod.splits)

text \<open>
  Applying the entries above the commit index one by one is applying them as a sequence; what
  the loop does besides is kept apart in \<open>R\<close>.
\<close>

lemma apply_entries_run:
  assumes "wf_db s" and "c \<le> n" and "n \<le> length (raft_log s)"
  shows "for_each [Suc c ..< Suc n] (\<lambda>index. bind (apply_entry sm any0 index) (\<lambda>_. ret ())) s =
     (Ok (), s\<lparr>rsm := Apply_all sm any0 (requests_of (entries_between c n (log_of s))) (rsm s)\<rparr>)"
  using assms
proof (induction "n - c" arbitrary: c s)
  case 0
  then show ?case by (simp add: ret_run entries_between_def requests_of_def)
next
  case (Suc k)
  let ?s = "s\<lparr>rsm := snd (Apply sm any0 (entry_request (log_of s ! c)) (rsm s))\<rparr>"
  have lt: "c < n" using Suc.hyps(2) by simp
  have "for_each [Suc (Suc c) ..< Suc n] (\<lambda>index. bind (apply_entry sm any0 index) (\<lambda>_. ret ())) ?s =
     (Ok (), ?s\<lparr>rsm := Apply_all sm any0 (requests_of (entries_between (Suc c) n (log_of ?s))) (rsm ?s)\<rparr>)"
    using Suc.hyps(2) Suc.prems lt by (intro Suc.hyps(1)) auto
  then show ?case
    using lt Suc.prems
    by (simp add: upt_conv_Cons bind_run apply_entry_run ret_run entries_between_Suc requests_of_def del: upt_Suc)
qed

section \<open>AppendEntries\<close>

lemma rsm_ae_entry [simp]: "rsm (ae_entry request s) = rsm s"
  by (simp add: ae_entry_def set_term_def step_down_def follower_of_def Stop_stop_leader_def
      Stop_stop_election_def Stop_reset_election_timeout_def Let_def split: prod.splits)

definition accepted ::
  "('s \<Rightarrow> 'a \<Rightarrow> 's \<times> 'a) \<Rightarrow> 'a \<Rightarrow> 'a LogEntry AppendEntriesRequest \<Rightarrow> ('s, 'a) RaftNode \<Rightarrow> ('s, 'a) RaftNode" where
  "accepted sm any0 request s =
     (let prev = ae_prev_log_index request; c = commit_index s;
          m' = append_log (take (max prev c) (raft_log s)) (drop (max prev c - prev) (ae_entries request));
          c' = new_commit request c (length m')
      in (ae_entry request s)\<lparr>raft_log := m',
           rsm := Apply_all sm any0 (requests_of (entries_between c c' (map snd m'))) (rsm s),
           commit_index := c'\<rparr>)"

lemma accept_entries_ok:
  assumes "wf_db s" and "fits request s" and "ae_prev_log_index request \<le> length (raft_log s)"
  shows "accept_entries sm any0 request (ae_entry request s) =
    (if committed_agree (ae_prev_log_index request) (commit_index s) (ae_entries request) (log_of s)
     then (Ok (), accepted sm any0 request s)
     else (Err (VerifyFailed ''invalid state: committed log is inconsistent''), ae_entry request s))"
proof -
  let ?s1 = "ae_entry request s" and ?prev = "ae_prev_log_index request" and ?c = "commit_index s"
  let ?m' = "append_log (take (max ?prev ?c) (raft_log s)) (drop (max ?prev ?c - ?prev) (ae_entries request))"
  let ?s2 = "?s1\<lparr>raft_log := ?m'\<rparr>" and ?c' = "max ?c (min (ae_leader_commit request) (length ?m'))"
  note s1 = ae_entry_facts [OF assms(1), of request]
  have fit: "?c \<le> length (raft_log s)" "length (raft_log s) < u64_max"
    "?prev + length (ae_entries request) < u64_max"
    using assms(2) by (auto simp: fits_def)
  have check: "check_committed ?c (u64_inc ?prev) (ae_entries request) ?s1 =
     (if committed_agree ?prev ?c (ae_entries request) (log_of s) then (Ok (), ?s1)
      else (Err (VerifyFailed ''invalid state: committed log is inconsistent''), ?s1))"
    using fit assms(3) by (simp add: check_committed_run s1 committed_agree_def u64_inc_exact)
  have wf2: "wf_db ?s2"
    using s1(1) by (simp add: wf_db_def is_log_append_log is_log_take s1)
  have log2: "log_of ?s2 = map snd ?m'" by (simp add: log_of_def)
  have "?c' \<le> length (raft_log ?s2)"
    using fit by simp
  from apply_entries_run [OF wf2 _ this, of ?c]
  have run_apply: "for_each [Suc ?c ..< Suc ?c'] (\<lambda>index. bind (apply_entry sm any0 index) (\<lambda>_. ret ())) ?s2 =
     (Ok (), ?s2\<lparr>rsm := Apply_all sm any0 (requests_of (entries_between ?c ?c' (map snd ?m'))) (rsm s)\<rparr>)"
    unfolding log2 by simp
  have run_write: "with_log (kv_Write (put_entries (u64_inc (max ?prev ?c))
       (drop (u64_sub (u64_sub (u64_inc (max ?prev ?c)) ?prev) 1) (ae_entries request))
       (WriteBatch_DeleteRange (u64_inc (max ?prev ?c)) u64_max MakeWriteBatch))) ?s1 = (Ok (Ok ()), ?s2)"
    using accept_entries_run [OF s1(1), of ?prev "ae_entries request"] fit assms(3)
    unfolding s1(2,7) by blast
  have inc: "u64_inc ?c = Suc ?c" using fit by (simp add: u64_inc_exact)
  have sz: "GetSavedLogSize ?s2 = (Ok (length ?m'), ?s2)"
    using GetSavedLogSize_run [OF wf2] by (simp del: length_append_log)
  show ?thesis
  proof (cases "committed_agree ?prev ?c (ae_entries request) (log_of s)")
    case True
    then show ?thesis
      by (simp add: accept_entries_def Let_def bind_run gets_run s1(7) check run_write expect_ok_run sz inc
          run_apply modify_run accepted_def new_commit_def del: upt_Suc length_append_log One_nat_def)
  next
    case False
    then show ?thesis
      by (simp add: accept_entries_def Let_def bind_run gets_run s1(7) check)
  qed
qed

lemma AppendEntries_run:
  assumes "wf_db s" and "fits request s"
  shows "AppendEntries sm any0 request s =
    (let res = (\<lambda>b. Ok \<lparr>aer_term = term_of s, aer_success = b\<rparr>); s1 = ae_entry request s;
         prev = ae_prev_log_index request in
     if ae_term request < term_of s then (res False, s)
     else if prev = 0 \<and> ae_prev_log_term request \<noteq> 0
     then (Err (VerifyFailed ''invalid prev_log_term''), s1)
     else if \<not> log_matches request (log_of s) then (res False, s1)
     else if \<not> committed_agree prev (commit_index s) (ae_entries request) (log_of s)
     then (Err (VerifyFailed ''invalid state: committed log is inconsistent''), s1)
     else (res True, accepted sm any0 request s))"
proof -
  note s1 = ae_entry_facts [OF assms(1), of request]
  have "log_matches request (log_of s) \<Longrightarrow> ae_prev_log_index request \<le> length (raft_log s)"
    by (simp add: log_matches_def)
  then show ?thesis
    using assms
    by (auto simp: AppendEntries_def exec_simps Let_def not_less follow_leader_run check_prev_log_run
        accept_entries_ok s1)
qed

section \<open>UpdateCommitIndex\<close>

text \<open>
  The effect of the loop of \<^verbatim>\<open>UpdateCommitIndex\<close> on the state machine, the results and the
  events: the entries from index \<open>i\<close> on, and the pending request of each.
\<close>

primrec answer_all ::
  "('s \<Rightarrow> 'a \<Rightarrow> 's \<times> 'a) \<Rightarrow> 'a \<Rightarrow> nat \<Rightarrow> 'a Request list \<Rightarrow> ('s, 'a) RaftNode \<Rightarrow> ('s, 'a) RaftNode" where
  "answer_all sm any0 i [] s = s"
| "answer_all sm any0 i (r # rs) s =
     (let (response, m) = Apply sm any0 r (rsm s);
          s1 = s\<lparr>rsm := m\<rparr>;
          s2 = (case pending_requests s i of
                  None \<Rightarrow> s1
                | Some ptr \<Rightarrow> s1\<lparr>pending_result := (pending_result s)(ptr := response),
                    replication_finished := (replication_finished s)(ptr := True)\<rparr>)
      in answer_all sm any0 (Suc i) rs s2)"

lemma answer_all_keeps:
  "raft_state (answer_all sm any0 i rs s) = raft_state s"
  "raft_log (answer_all sm any0 i rs s) = raft_log s"
  "state (answer_all sm any0 i rs s) = state s"
  "commit_index (answer_all sm any0 i rs s) = commit_index s"
  "pending_requests (answer_all sm any0 i rs s) = pending_requests s"
  "match_index (answer_all sm any0 i rs s) = match_index s"
  "next_index (answer_all sm any0 i rs s) = next_index s"
  "pending_log (answer_all sm any0 i rs s) = pending_log s"
  "next_request (answer_all sm any0 i rs s) = next_request s"
  "current_term_start_index (answer_all sm any0 i rs s) = current_term_start_index s"
  by (induction rs arbitrary: i s) (auto simp: Let_def split: prod.splits option.splits)

lemma answer_all_rsm: "rsm (answer_all sm any0 i rs s) = Apply_all sm any0 rs (rsm s)"
  by (induction rs arbitrary: i s) (auto simp: Let_def split: prod.splits option.splits)

text \<open>A request that is not waiting at one of the indices is not touched.\<close>

lemma answer_all_other:
  "(\<And>j. i \<le> j \<Longrightarrow> j < i + length rs \<Longrightarrow> pending_requests s j \<noteq> Some p) \<Longrightarrow>
     pending_result (answer_all sm any0 i rs s) p = pending_result s p \<and>
     replication_finished (answer_all sm any0 i rs s) p = replication_finished s p"
proof (induction rs arbitrary: i s)
  case Nil
  then show ?case by simp
next
  case (Cons r rs)
  have "pending_requests s i \<noteq> Some p" using Cons.prems [of i] by simp
  moreover have "\<And>j. Suc i \<le> j \<Longrightarrow> j < Suc i + length rs \<Longrightarrow> pending_requests s j \<noteq> Some p"
    using Cons.prems by simp
  ultimately show ?case
    using Cons.IH [of "Suc i"] by (auto simp: Let_def split: prod.splits option.splits)
qed

text \<open>The request waiting at an index gets the response to the entry of that index.\<close>

lemma answer_all_response:
  assumes "pending_inj s" and "pending_requests s (i + k) = Some p" and "k < length rs"
  shows "pending_result (answer_all sm any0 i rs s) p =
           fst (Apply sm any0 (rs ! k) (Apply_all sm any0 (take k rs) (rsm s)))"
    and "replication_finished (answer_all sm any0 i rs s) p"
  using assms
proof (induction rs arbitrary: i s k)
  case (Cons r rs)
  {
    case 1
    show ?case
    proof (cases k)
      case 0
      have "pending_requests s j \<noteq> Some p" if "Suc i \<le> j" for j
        using 1(1,2) that 0 unfolding pending_inj_def by (metis Suc_n_not_le_n add_0_right)
      then show ?thesis
        using 0 1(2) answer_all_other [of "Suc i" rs _ p sm any0] by (simp add: Let_def split: prod.splits)
    next
      case (Suc k')
      then show ?thesis
        using 1 Cons.IH(1) [of _ "Suc i" k']
        by (auto simp: Let_def pending_inj_def split: prod.splits option.splits)
    qed
  next
    case 2
    show ?case
    proof (cases k)
      case 0
      have "pending_requests s j \<noteq> Some p" if "Suc i \<le> j" for j
        using 2(1,2) that 0 unfolding pending_inj_def by (metis Suc_n_not_le_n add_0_right)
      then show ?thesis
        using 0 2(2) answer_all_other [of "Suc i" rs _ p sm any0] by (simp add: Let_def split: prod.splits)
    next
      case (Suc k')
      then show ?thesis
        using 2 Cons.IH(2) [of _ "Suc i" k']
        by (auto simp: Let_def pending_inj_def split: prod.splits option.splits)
    qed
  }
qed simp_all

lemma answer_entries_run:
  assumes "wf_db s" and "c \<le> n" and "n \<le> length (raft_log s)"
  shows "for_each [Suc c ..< Suc n] (\<lambda>index. bind (apply_entry sm any0 index) (answer_pending index)) s =
     (Ok (), answer_all sm any0 (Suc c) (requests_of (entries_between c n (log_of s))) s)"
  using assms
proof (induction "n - c" arbitrary: c s)
  case 0
  then show ?case by (simp add: ret_run entries_between_def requests_of_def)
next
  case (Suc k)
  have lt: "c < n" using Suc.hyps(2) by simp
  let ?r = "Apply sm any0 (entry_request (log_of s ! c)) (rsm s)"
  let ?s = "case pending_requests s (Suc c) of None \<Rightarrow> s\<lparr>rsm := snd ?r\<rparr>
     | Some ptr \<Rightarrow> s\<lparr>rsm := snd ?r, pending_result := (pending_result s)(ptr := fst ?r),
         replication_finished := (replication_finished s)(ptr := True)\<rparr>"
  have body: "bind (apply_entry sm any0 (Suc c)) (answer_pending (Suc c)) s = (Ok (), ?s)"
    using lt Suc.prems
    by (simp add: bind_run apply_entry_run answer_pending_def gets_run ret_run modify_run split: option.splits)
  have db: "wf_db ?s" "raft_log ?s = raft_log s" "log_of ?s = log_of s"
    using Suc.prems(1) by (auto split: option.splits)
  have "for_each [Suc (Suc c) ..< Suc n] (\<lambda>index. bind (apply_entry sm any0 index) (answer_pending index)) ?s =
     (Ok (), answer_all sm any0 (Suc (Suc c)) (requests_of (entries_between (Suc c) n (log_of ?s))) ?s)"
    using Suc.hyps(2) Suc.prems lt db by (intro Suc.hyps(1)) auto
  then show ?case
    using lt Suc.prems db(3)
    by (simp add: upt_conv_Cons bind_Ok [where m = "bind (apply_entry sm any0 (Suc c)) (answer_pending (Suc c))", OF body] entries_between_Suc requests_of_def Let_def
        case_prod_unfold del: upt_Suc)
qed

definition commit_updated ::
  "node_config \<Rightarrow> ('s \<Rightarrow> 'a \<Rightarrow> 's \<times> 'a) \<Rightarrow> 'a \<Rightarrow> ('s, 'a) RaftNode \<Rightarrow> ('s, 'a) RaftNode" where
  "commit_updated config sm any0 s =
     (answer_all sm any0 (Suc (commit_index s))
        (requests_of (entries_between (commit_index s) (committed_to config s) (log_of s))) s)
     \<lparr>commit_index := committed_to config s\<rparr>"

lemma UpdateCommitIndex_run [exec_simps]:
  assumes "wf_db s" and "commit_index s \<le> length (raft_log s)" and "length (raft_log s) < u64_max"
    and "length (cluster_nodes config) \<le> length (match_index s)"
  shows "UpdateCommitIndex config sm any0 s = (Ok (), commit_updated config sm any0 s)"
proof -
  note b = committed_to_bounds [OF assms(2), of config]
  have inc: "u64_inc (commit_index s) = Suc (commit_index s)"
    using assms(2,3) by (simp add: u64_inc_exact)
  have find: "FindCommitIndex config s = (Ok (committed_to config s), s)"
    using assms(1,4) by (simp add: FindCommitIndex_run committed_to_def)
  show ?thesis
    using answer_entries_run [OF assms(1) b, of sm any0]
    by (simp add: UpdateCommitIndex_def bind_run find gets_run inc modify_run commit_updated_def del: upt_Suc)
qed

section \<open>Sessions of the leader\<close>

lemma StartLeaderNodeSession_run:
  assumes "wf_db s" and "state s = Leader" and "leader_inv config s" and "peer < length (cluster_nodes config)"
    and "next_index s ! peer \<le> Suc (length (raft_log s))"
  shows "StartLeaderNodeSession config peer s = (Ok (Some (append_request config peer s)), s)"
proof -
  let ?next = "next_index s ! peer"
  have len: "length (full_log s) < u64_max" and own: "next_index s ! node_id config = Suc (length (full_log s))"
    and idx: "peer < length (next_index s)" "node_id config < length (next_index s)" "1 \<le> ?next"
    using assms(3,4) by (auto simp: leader_inv_def Let_def full_log_def)
  have dec: "u64_dec ?next = ?next - 1"
    using idx(3) assms(5) len by (simp add: u64_dec_exact full_log_def)
  have prev: "(if ?next = 1 then ret 0 else bind (raft_log_Get (u64_dec ?next)) (\<lambda>e. ret (entry_term e))) s =
      (Ok (ae_prev_log_term (append_request config peer s)), s)"
    using assms(1,5) idx(3) dec
    by (auto simp: exec_simps append_request_def Let_def full_log_def nth_append)
  have "map_exec [?next ..< Suc (length (full_log s))] GetLogEntry s =
      (Ok (map (\<lambda>i. full_log s ! (i - 1)) [?next ..< Suc (length (full_log s))]), s)"
    using assms(1) idx(3) len by (intro map_exec_run GetLogEntry_run) auto
  then have entries: "map_exec [?next ..< Suc (length (full_log s))] GetLogEntry s =
      (Ok (drop (?next - 1) (full_log s)), s)"
    by (simp only: map_nth_from [OF idx(3)])
  show ?thesis
    using assms(1,2) idx
    by (simp add: StartLeaderNodeSession_def bind_run gets_run at_run verify_run GetCurrentTerm_run prev own
        entries ret_run dec append_request_def Let_def del: upt_Suc One_nat_def)
qed

lemma commit_updated_facts [simp]:
  "raft_state (commit_updated config sm any0 s) = raft_state s"
  "raft_log (commit_updated config sm any0 s) = raft_log s"
  "state (commit_updated config sm any0 s) = state s"
  "commit_index (commit_updated config sm any0 s) = committed_to config s"
  "pending_requests (commit_updated config sm any0 s) = pending_requests s"
  "match_index (commit_updated config sm any0 s) = match_index s"
  "next_index (commit_updated config sm any0 s) = next_index s"
  "pending_log (commit_updated config sm any0 s) = pending_log s"
  "next_request (commit_updated config sm any0 s) = next_request s"
  "current_term_start_index (commit_updated config sm any0 s) = current_term_start_index s"
  "term_of (commit_updated config sm any0 s) = term_of s"
  "vote_of (commit_updated config sm any0 s) = vote_of s"
  "log_of (commit_updated config sm any0 s) = log_of s"
  "wf_db (commit_updated config sm any0 s) = wf_db s"
  "full_log (commit_updated config sm any0 s) = full_log s"
  by (simp_all add: commit_updated_def answer_all_keeps term_of_def vote_of_def log_of_def wf_db_def full_log_def)

lemma commit_updated_rsm:
  "rsm (commit_updated config sm any0 s) =
     Apply_all sm any0 (requests_of (entries_between (commit_index s) (committed_to config s) (log_of s))) (rsm s)"
  by (simp add: commit_updated_def answer_all_rsm)

lemma StartLeaderMainSession_body_run:
  assumes "wf_db s" and "state s = Leader" and "leader_inv config s"
    and "match_index s ! node_id config = length (raft_log s)" and "commit_index s \<le> length (raft_log s)"
  shows "StartLeaderMainSession_body config sm any0 s = (Ok (), commit_updated config sm any0 (pending_written config s))"
proof -
  let ?own = "node_id config" and ?n = "length (raft_log s)" and ?p = "pending_log s"
  let ?s1 = "s\<lparr>raft_log := append_log (raft_log s) ?p\<rparr>"
  have len: "?n + length ?p < u64_max" and own: "?own < length (match_index s)"
    and m: "length (cluster_nodes config) = length (match_index s)"
    using assms(3) by (auto simp: leader_inv_def Let_def)
  have inc: "u64_inc ?n = Suc ?n" and add: "u64_add ?n (length ?p) = ?n + length ?p"
    using len by (simp_all add: u64_inc_exact u64_add_exact)
  have "is_log (raft_log s)" using assms(1) by (simp add: wf_db_def)
  then have run_write: "with_log (kv_Write (put_entries (Suc ?n) ?p MakeWriteBatch)) s = (Ok (Ok ()), ?s1)"
    using Write_append [of "raft_log s" ?p] len by (simp add: with_log_def)
  have "UpdateCommitIndex config sm any0 (pending_written config s) =
      (Ok (), commit_updated config sm any0 (pending_written config s))"
    using pending_written_facts [OF assms(1), of config] assms(5) len m
    by (intro UpdateCommitIndex_run) (simp_all add: full_log_def pending_written_def)
  then show ?thesis
    using assms(2,4) own
    by (simp add: StartLeaderMainSession_body_def bind_run gets_run at_run inc run_write expect_ok_run
        set_at_run add modify_run pending_written_def)
qed

lemma AppendEntries_response_run:
  assumes "wf_db s" and "state s = Leader" and "leader_inv config s"
    and "commit_index s \<le> length (raft_log s)" and "peer < length (cluster_nodes config)"
    and "ae_prev_log_index request + length (ae_entries request) \<le> u64_max"
    and "next_index s ! peer + length (ae_entries request) \<le> u64_max"
  shows "AppendEntries_response config sm any0 peer request (Ok response) s =
     (if aer_term response > term_of s then (Ok (), step_down (set_term (aer_term response) None s))
      else if \<not> aer_success response
      then if next_index s ! peer \<ge> 2
           then (Ok (), s\<lparr>next_index := (next_index s)[peer := next_index s ! peer - 1]\<rparr>)
           else (Err (VerifyFailed ''invalid state''), s)
      else (Ok (), commit_updated config sm any0 (peer_matched peer request s)))"
proof -
  have idx: "peer < length (next_index s)" "peer < length (match_index s)" "length (raft_log s) < u64_max"
    "length (match_index s) = length (cluster_nodes config)"
    using assms(3,5) by (auto simp: leader_inv_def Let_def)
  have add: "u64_add (ae_prev_log_index request) (length (ae_entries request)) =
      ae_prev_log_index request + length (ae_entries request)"
    "u64_add (next_index s ! peer) (length (ae_entries request)) = next_index s ! peer + length (ae_entries request)"
    using assms(6,7) by (simp_all add: u64_add_exact)
  have wf: "wf_db (peer_matched peer request s)"
    using assms(1) by (simp add: peer_matched_def)
  have upd: "UpdateCommitIndex config sm any0 (peer_matched peer request s) =
      (Ok (), commit_updated config sm any0 (peer_matched peer request s))"
    using assms(4) idx wf by (intro UpdateCommitIndex_run) (simp_all add: peer_matched_def)
  have dec: "next_index s ! peer \<ge> 2 \<Longrightarrow> u64_dec (next_index s ! peer) = next_index s ! peer - 1"
    using assms(7) by (simp add: u64_dec_exact)
  have eq: "s\<lparr>match_index := (match_index s)[peer := ae_prev_log_index request + length (ae_entries request)],
       next_index := (next_index s)[peer := next_index s ! peer + length (ae_entries request)]\<rparr> =
       peer_matched peer request s"
    by (simp add: peer_matched_def)
  show ?thesis
    using assms(1,2) idx add upd dec
    by (simp add: AppendEntries_response_def bind_run gets_run GetCurrentTerm_run UpdateTerm_run
        BecomeFollower_if_needed_run at_run verify_run set_at_run eq)
qed

section \<open>Client calls\<close>

definition executed ::
  "node_config \<Rightarrow> 'a \<Rightarrow> 'a Request \<Rightarrow> ('s, 'a) RaftNode \<Rightarrow> ('s, 'a) RaftNode" where
  "executed config any0 request s =
     (let own = node_id config; ptr = next_request s; i = next_index s ! own;
          (ran, st) = StopCallback_new ptr (stop_leader s)
      in s\<lparr>next_index := (next_index s)[own := Suc i],
           pending_log := pending_log s @ [\<lparr>entry_term = term_of s, entry_request = request\<rparr>],
           next_request := Suc ptr,
           replication_finished := signal_all ran ((replication_finished s)(ptr := False)),
           pending_result := (pending_result s)(ptr := any0),
           stop_leader := st,
           pending_requests := (pending_requests s)(i \<mapsto> ptr),
           reset_heartbeat_timeout := new_StopState\<rparr>)"

lemma executed_facts:
  "raft_state (executed config any0 request s) = raft_state s"
  "raft_log (executed config any0 request s) = raft_log s"
  "state (executed config any0 request s) = state s"
  "commit_index (executed config any0 request s) = commit_index s"
  "rsm (executed config any0 request s) = rsm s"
  "match_index (executed config any0 request s) = match_index s"
  "next_index (executed config any0 request s) =
     (next_index s)[node_id config := Suc (next_index s ! node_id config)]"
  "pending_log (executed config any0 request s) =
     pending_log s @ [\<lparr>entry_term = term_of s, entry_request = request\<rparr>]"
  "pending_requests (executed config any0 request s) =
     (pending_requests s)(next_index s ! node_id config \<mapsto> next_request s)"
  "next_request (executed config any0 request s) = Suc (next_request s)"
  "current_term_start_index (executed config any0 request s) = current_term_start_index s"
  by (simp_all add: executed_def Let_def split: prod.splits)

lemma executed_db [simp]:
  "term_of (executed config any0 request s) = term_of s"
  "vote_of (executed config any0 request s) = vote_of s"
  "log_of (executed config any0 request s) = log_of s"
  "wf_db (executed config any0 request s) = wf_db s"
  "full_log (executed config any0 request s) = full_log s @ [\<lparr>entry_term = term_of s, entry_request = request\<rparr>]"
  by (simp_all add: term_of_def vote_of_def log_of_def wf_db_def full_log_def executed_facts)

lemma Execute_run:
  assumes "wf_db s" and "state s = Leader" and "leader_inv config s" and "Suc (length (full_log s)) < u64_max"
  shows "Execute config any0 request s =
     (Ok (Inr (next_request s, Suc (length (full_log s)), term_of s)), executed config any0 request s)"
proof -
  have own: "node_id config < length (next_index s)"
    and i: "next_index s ! node_id config = Suc (length (full_log s))"
    using assms(3) by (auto simp: leader_inv_def Let_def full_log_def)
  have inc: "u64_inc (Suc (length (full_log s))) = Suc (Suc (length (full_log s)))"
    using assms(4) by (simp add: u64_inc_exact)
  show ?thesis
    using assms(1,2) own i
    by (simp add: Execute_def exec_simps Let_def executed_def inc split: prod.splits)
qed

lemma Execute_not_leader:
  "state s \<noteq> Leader \<Longrightarrow> Execute config any0 request s =
     (Ok (Inl \<lparr>response_status = NotALeader, response_result = any0\<rparr>), s)"
  by (simp add: Execute_def exec_simps)

lemma Execute_finish_run:
  assumes "wf_db s"
  shows "Execute_finish any0 (ptr, i, t) s =
    (let s' = s\<lparr>pending_requests := (pending_requests s)(i := None),
               stop_leader := StopCallback_delete ptr (stop_leader s)\<rparr>
     in if t \<noteq> term_of s then (Ok \<lparr>response_status = NotALeader, response_result = any0\<rparr>, s')
        else if state s = Leader
        then (Ok \<lparr>response_status = Commited, response_result = pending_result s ptr\<rparr>, s')
        else (Err (VerifyFailed ''Invalid session state''), s\<lparr>pending_requests := (pending_requests s)(i := None)\<rparr>))"
  using assms by (simp add: Execute_finish_def exec_simps Let_def)

end
