(* ===== verification/Raft_Replication.thy ===== *)
theory Raft_Replication
  imports Raft_Node
begin

text \<open>
  What the handlers of the Raft node (\<^verbatim>\<open>src/raft/node/node.cpp\<close>) guarantee for one node
  and for a leader with one of its followers.

  The invariant \<open>node_inv\<close> relates the three parts of a node's state: the databases are
  well formed, the commit index lies within the log, and the replicated state machine is the
  result of applying the committed entries, in order, to the initial state. Every handler keeps
  it, whether it returns or aborts.
\<close>

definition node_inv :: "('s \<Rightarrow> 'a \<Rightarrow> 's \<times> 'a) \<Rightarrow> 'a \<Rightarrow> 's \<Rightarrow> ('s, 'a) RaftNode \<Rightarrow> bool" where
  "node_inv sm any0 sm0 s \<longleftrightarrow>
     wf_db s \<and> commit_index s \<le> length (log_of s) \<and> length (log_of s) < u64_max \<and>
     rsm s = Apply_all sm any0 (requests_of (take (commit_index s) (log_of s))) (ExactlyOnce_new sm0)"

lemma node_invD:
  assumes "node_inv sm any0 sm0 s"
  shows "wf_db s" and "commit_index s \<le> length (raft_log s)" and "length (raft_log s) < u64_max"
    and "rsm s = Apply_all sm any0 (requests_of (take (commit_index s) (log_of s))) (ExactlyOnce_new sm0)"
  using assms by (simp_all add: node_inv_def)

text \<open>Applying the entries above the commit index extends the applied prefix.\<close>

lemma Apply_entries_between:
  "c \<le> n \<Longrightarrow> Apply_all sm any0 (requests_of (entries_between c n es)) (Apply_all sm any0 (requests_of (take c es)) m) =
     Apply_all sm any0 (requests_of (take n es)) m"
  by (simp add: Apply_all_append [symmetric] requests_of_def map_append [symmetric] entries_between_append
      del: map_append)

section \<open>The log after AppendEntries\<close>

lemma log_of_accepted:
  "log_of (accepted sm any0 request s) =
     new_log (ae_prev_log_index request) (commit_index s) (ae_entries request) (log_of s)"
  by (simp add: accepted_def Let_def log_of_def new_log_def take_map)

lemma accepted_facts:
  assumes "wf_db s"
  shows "wf_db (accepted sm any0 request s)"
    and "term_of (accepted sm any0 request s) = max (term_of s) (ae_term request)"
    and "vote_of (accepted sm any0 request s) = (if ae_term request > term_of s then None else vote_of s)"
    and "state (accepted sm any0 request s) = Follower"
    and "commit_index (accepted sm any0 request s) =
       new_commit request (commit_index s) (length (log_of (accepted sm any0 request s)))"
proof -
  note s1 = ae_entry_facts [OF assms, of request]
  show "wf_db (accepted sm any0 request s)"
    "term_of (accepted sm any0 request s) = max (term_of s) (ae_term request)"
    "vote_of (accepted sm any0 request s) = (if ae_term request > term_of s then None else vote_of s)"
    "state (accepted sm any0 request s) = Follower"
    using assms s1
    by (simp_all add: accepted_def Let_def wf_db_def term_of_def vote_of_def is_log_append_log is_log_take)
  show "commit_index (accepted sm any0 request s) =
     new_commit request (commit_index s) (length (log_of (accepted sm any0 request s)))"
    by (simp add: accepted_def Let_def)
qed

lemma accepted_inv:
  assumes "node_inv sm any0 sm0 s" and "fits request s" and "ae_prev_log_index request \<le> length (raft_log s)"
  shows "node_inv sm any0 sm0 (accepted sm any0 request s)"
proof -
  let ?c = "commit_index s" and ?prev = "ae_prev_log_index request"
  let ?log = "new_log ?prev ?c (ae_entries request) (log_of s)"
  let ?c' = "new_commit request ?c (length ?log)"
  note inv = node_invD [OF assms(1)]
  have c: "?c \<le> ?c'" "?c' \<le> length ?log"
    using length_new_log_ge [of ?c "log_of s" ?prev "ae_entries request"] inv(2) by (simp_all add: new_commit_def)
  have len: "length ?log < u64_max"
    using assms(2,3) by (simp add: length_new_log fits_def)
  have snd_log: "map snd (raft_log (accepted sm any0 request s)) = ?log"
    using log_of_accepted [of sm any0 request s] by (simp add: log_of_def)
  have "rsm (accepted sm any0 request s) =
      Apply_all sm any0 (requests_of (entries_between ?c ?c' ?log)) (rsm s)"
    using snd_log by (simp add: accepted_def Let_def new_log_def length_new_log log_of_def take_map)
  also have "rsm s = Apply_all sm any0 (requests_of (take ?c ?log)) (ExactlyOnce_new sm0)"
    using inv(2,4) by (simp add: take_committed_new_log)
  finally show ?thesis
    using accepted_facts [OF inv(1), of sm any0 request] c len
    by (simp add: node_inv_def log_of_accepted Apply_entries_between)
qed

lemma ae_entry_inv: "node_inv sm any0 sm0 s \<Longrightarrow> node_inv sm any0 sm0 (ae_entry request s)"
  using ae_entry_facts [of s request] by (simp add: node_inv_def)

section \<open>Outcomes of AppendEntries\<close>

lemma AppendEntries_cases:
  assumes "wf_db s" and "fits request s" and "AppendEntries sm any0 request s = (r, s')"
  obtains (dismissed) "s' = s" "r = Ok \<lparr>aer_term = term_of s, aer_success = False\<rparr>" "ae_term request < term_of s"
  | (unmatched) "s' = ae_entry request s" "term_of s \<le> ae_term request"
      "r = Ok \<lparr>aer_term = term_of s, aer_success = False\<rparr> \<or> (\<exists>m. r = Err (VerifyFailed m))"
  | (accepted) "s' = accepted sm any0 request s" "r = Ok \<lparr>aer_term = term_of s, aer_success = True\<rparr>"
      "term_of s \<le> ae_term request" "log_matches request (log_of s)"
      "committed_agree (ae_prev_log_index request) (commit_index s) (ae_entries request) (log_of s)"
  using assms(3) unfolding AppendEntries_run [OF assms(1,2)]
  by (auto simp: Let_def not_less split: if_splits)

definition sample_apply :: "nat \<Rightarrow> nat \<Rightarrow> nat \<times> nat" where
  "sample_apply x y = (x + y, x + y)"

definition sample_entry :: "nat \<Rightarrow> nat \<Rightarrow> nat LogEntry" where
  "sample_entry t c = \<lparr>entry_term = t, entry_request = \<lparr>request_id = c, client_id = 7, command = c\<rparr>\<rparr>"

definition sample_node :: "(nat, nat) RaftNode" where
  "sample_node = RaftNode_new 0 0 [(''current_term'', 2)] [(1, sample_entry 1 10), (2, sample_entry 1 20)]"

definition sample_request :: "nat LogEntry AppendEntriesRequest" where
  "sample_request = \<lparr>ae_term = 3, ae_leader_id = 1, ae_prev_log_index = 1, ae_prev_log_term = 1,
     ae_entries = [sample_entry 3 30, sample_entry 3 40], ae_leader_commit = 2\<rparr>"

lemma sample_node_simps:
  "raft_log sample_node = [(1, sample_entry 1 10), (2, sample_entry 1 20)]"
  "log_of sample_node = [sample_entry 1 10, sample_entry 1 20]"
  "commit_index sample_node = 0" "term_of sample_node = 2" "state sample_node = Follower"
  by (simp_all add: sample_node_def RaftNode_new_def log_of_def term_of_def Database_Get_def)

lemma sample_node_inv: "node_inv sample_apply 0 0 sample_node"
  by (simp add: node_inv_def sample_node_simps requests_of_def u64_max_def)
    (simp add: sample_node_def RaftNode_new_def wf_db_def is_log_def keys_ordered_def Database_Get_def
      upt_rec)

lemma sample_fits: "fits sample_request sample_node"
  by (simp add: fits_def sample_node_simps sample_request_def u64_max_def)

text \<open>
  C22. A node that gets entries of a current or newer term, whose log holds the entry before the sent
  ones and agrees with them up to its commit index, answers success. Its log is then its
  old log up to the later of the two indices, followed by the sent entries from there on; it has the term of
  the request, is a follower, has moved its commit index as far as the leader's allows, and its
  state machine has applied exactly the entries now committed.
\<close>

theorem AppendEntries_accepts:
  assumes "node_inv sm any0 sm0 s" and "fits request s" and "term_of s \<le> ae_term request"
    and "ae_prev_log_index request \<noteq> 0 \<or> ae_prev_log_term request = 0"
    and "log_matches request (log_of s)"
    and "committed_agree (ae_prev_log_index request) (commit_index s) (ae_entries request) (log_of s)"
  shows "\<exists>s'. AppendEntries sm any0 request s = (Ok \<lparr>aer_term = term_of s, aer_success = True\<rparr>, s') \<and>
     log_of s' = take (max (ae_prev_log_index request) (commit_index s)) (log_of s) @
       drop (max (ae_prev_log_index request) (commit_index s) - ae_prev_log_index request) (ae_entries request) \<and>
     term_of s' = ae_term request \<and> state s' = Follower \<and>
     commit_index s' = max (commit_index s) (min (ae_leader_commit request) (length (log_of s'))) \<and>
     node_inv sm any0 sm0 s'"
proof (intro exI conjI)
  let ?s' = "accepted sm any0 request s"
  note wf = node_invD(1) [OF assms(1)]
  note facts = accepted_facts [OF wf, of sm any0 request]
  show "AppendEntries sm any0 request s = (Ok \<lparr>aer_term = term_of s, aer_success = True\<rparr>, ?s')"
    using assms(3-6) by (auto simp: AppendEntries_run [OF wf assms(2)] Let_def)
  show "term_of ?s' = ae_term request" "state ?s' = Follower"
    using facts assms(3) by simp_all
  show "commit_index ?s' = max (commit_index s) (min (ae_leader_commit request) (length (log_of ?s')))"
    using facts(5) by (simp only: new_commit_def)
  show "node_inv sm any0 sm0 ?s'"
    using assms(1,2,5) by (intro accepted_inv) (simp_all add: log_matches_def)
qed (simp add: log_of_accepted new_log_def)

theorem AppendEntries_accepts_witness:
  "\<exists>s'. AppendEntries sample_apply 0 sample_request sample_node =
       (Ok \<lparr>aer_term = 2, aer_success = True\<rparr>, s') \<and>
     log_of s' = [sample_entry 1 10, sample_entry 3 30, sample_entry 3 40] \<and> commit_index s' = 2"
  using AppendEntries_accepts [OF sample_node_inv sample_fits]
  by (fastforce simp: sample_node_simps sample_request_def log_matches_def sample_entry_def committed_agree_def)

text \<open>
  C23. No request, of whatever sender and however delayed, changes what a node has committed: when
  AppendEntries returns or aborts, the log begins with the entries committed before, the
  commit index and the term have not decreased, and the node's invariant still holds.
\<close>

theorem AppendEntries_keeps_committed:
  assumes "node_inv sm any0 sm0 s" and "fits request s" and "AppendEntries sm any0 request s = (r, s')"
  shows "take (commit_index s) (log_of s') = take (commit_index s) (log_of s) \<and>
     commit_index s \<le> commit_index s' \<and> term_of s \<le> term_of s' \<and> node_inv sm any0 sm0 s'"
proof -
  note wf = node_invD(1) [OF assms(1)]
  from wf assms(2,3) show ?thesis
  proof (cases rule: AppendEntries_cases)
    case dismissed
    then show ?thesis using assms(1) by simp
  next
    case unmatched
    then show ?thesis using assms(1) ae_entry_facts [OF wf, of request] by (simp add: ae_entry_inv)
  next
    case accepted
    then show ?thesis
      using accepted_facts [OF wf, of sm any0 request] accepted_inv [OF assms(1,2)] node_invD(2) [OF assms(1)]
      by (simp add: log_matches_def log_of_accepted take_committed_new_log new_commit_def)
  qed
qed

theorem AppendEntries_keeps_committed_witness:
  "\<exists>r s'. AppendEntries sample_apply 0 sample_request sample_node = (r, s') \<and>
     0 \<le> commit_index s' \<and> 2 \<le> term_of s' \<and> node_inv sample_apply 0 0 s'"
  using AppendEntries_keeps_committed [OF sample_node_inv sample_fits]
  by (metis sample_node_simps(3,4) surj_pair)

text \<open>
  C24. A request of an older term changes nothing. A request whose preceding entry the log does not hold is
  answered with failure and leaves log, commit index and state machine alone; of it the node
  takes over only the term.
\<close>

theorem AppendEntries_dismisses:
  assumes "wf_db s" and "fits request s"
    and "ae_prev_log_index request \<noteq> 0 \<or> ae_prev_log_term request = 0"
    and "ae_term request < term_of s \<or> \<not> log_matches request (log_of s)"
  shows "\<exists>s'. AppendEntries sm any0 request s = (Ok \<lparr>aer_term = term_of s, aer_success = False\<rparr>, s') \<and>
     raft_log s' = raft_log s \<and> commit_index s' = commit_index s \<and> rsm s' = rsm s \<and>
     term_of s' = max (term_of s) (ae_term request) \<and> (ae_term request < term_of s \<longrightarrow> s' = s)"
  using assms(3,4) ae_entry_facts [OF assms(1), of request]
  by (auto simp: AppendEntries_run [OF assms(1,2)] Let_def)

theorem AppendEntries_dismisses_witness:
  "\<exists>s'. AppendEntries sample_apply 0 (sample_request\<lparr>ae_prev_log_index := 5\<rparr>) sample_node =
       (Ok \<lparr>aer_term = 2, aer_success = False\<rparr>, s') \<and> term_of s' = 3"
proof -
  let ?r = "sample_request\<lparr>ae_prev_log_index := 5\<rparr>"
  have "fits ?r sample_node" and "\<not> log_matches ?r (log_of sample_node)"
    by (simp_all add: fits_def log_matches_def sample_node_simps sample_request_def u64_max_def)
  with AppendEntries_dismisses [OF node_invD(1) [OF sample_node_inv], of ?r sample_apply 0] show ?thesis
    by (auto simp: sample_node_simps sample_request_def)
qed

section \<open>Commitment by the leader\<close>

lemma commit_updated_inv:
  assumes "node_inv sm any0 sm0 s"
  shows "node_inv sm any0 sm0 (commit_updated config sm any0 s)"
  using assms committed_to_bounds [OF node_invD(2) [OF assms], of config]
  by (simp add: node_inv_def commit_updated_rsm Apply_entries_between)

text \<open>More than half of the nodes are known to hold the entry at an index.\<close>

definition held_by_majority :: "node_config \<Rightarrow> nat list \<Rightarrow> nat \<Rightarrow> bool" where
  "held_by_majority config match i \<longleftrightarrow>
     length (cluster_nodes config) < 2 * card {p \<in> {..<length (cluster_nodes config)}. i \<le> match ! p}"

lemma majority_at_held: "majority_at config match i \<longleftrightarrow> held_by_majority config match i"
proof -
  have "match_count n match i = card {p \<in> {..<n}. i \<le> match ! p}" for n
  proof -
    have "set (filter (\<lambda>p. i \<le> match ! p) [0..<n]) = {p \<in> {..<n}. i \<le> match ! p}" by auto
    then show ?thesis
      using distinct_card [of "filter (\<lambda>p. i \<le> match ! p) [0..<n]"] by (simp add: match_count_def)
  qed
  then show ?thesis by (auto simp: majority_at_def held_by_majority_def MajorityCount_def)
qed

text \<open>
  C25. UpdateCommitIndex moves the commit index to the greatest index above it that belongs to the
  current term and that more than half of the nodes hold, if there is one, and applies the entries
  in between; it never commits beyond the saved log and never goes back.
\<close>

theorem UpdateCommitIndex_greatest_majority:
  assumes "node_inv sm any0 sm0 s" and "length (match_index s) = length (cluster_nodes config)"
  shows "\<exists>s'. UpdateCommitIndex config sm any0 s = (Ok (), s') \<and> node_inv sm any0 sm0 s' \<and>
     log_of s' = log_of s \<and> commit_index s \<le> commit_index s' \<and> commit_index s' \<le> length (log_of s) \<and>
     (commit_index s' \<noteq> commit_index s \<longrightarrow> held_by_majority config (match_index s) (commit_index s') \<and>
        current_term_start_index s \<le> commit_index s') \<and>
     (\<forall>i \<le> length (log_of s). commit_index s' < i \<and> current_term_start_index s \<le> i \<longrightarrow>
        \<not> held_by_majority config (match_index s) i)"
  unfolding majority_at_held [symmetric]
proof (intro exI conjI)
  note inv = node_invD [OF assms(1)]
  let ?s' = "commit_updated config sm any0 s"
  show "UpdateCommitIndex config sm any0 s = (Ok (), ?s')"
    using inv assms(2) by (intro UpdateCommitIndex_run) auto
  show "node_inv sm any0 sm0 ?s'" using assms(1) by (rule commit_updated_inv)
  show "commit_index s \<le> commit_index ?s'" "commit_index ?s' \<le> length (log_of s)"
    using committed_to_bounds [OF inv(2), of config] by simp_all
  show "commit_index ?s' \<noteq> commit_index s \<longrightarrow> majority_at config (match_index s) (commit_index ?s') \<and>
      current_term_start_index s \<le> commit_index ?s'"
    using find_commit_index_new [of config "match_index s" "commit_index s"] by (simp add: committed_to_def)
  show "\<forall>i \<le> length (log_of s). commit_index ?s' < i \<and> current_term_start_index s \<le> i \<longrightarrow>
      \<not> majority_at config (match_index s) i"
    using find_commit_index_greatest [of config "match_index s" "commit_index s" "current_term_start_index s"]
    by (auto simp: committed_to_def)
qed simp

definition sample_config :: node_config where
  "sample_config = \<lparr>node_id = 0, cluster_nodes = [(''a'', 1), (''b'', 2), (''c'', 3)]\<rparr>"

definition sample_leader :: "(nat, nat) RaftNode" where
  "sample_leader = sample_node\<lparr>state := Leader, match_index := [2, 1, 0], next_index := [3, 2, 3],
     current_term_start_index := 1, pending_requests := [1 \<mapsto> 0], next_request := 1\<rparr>"

lemma sample_leader_inv: "node_inv sample_apply 0 0 sample_leader"
  using sample_node_inv by (simp add: node_inv_def sample_leader_def)

theorem UpdateCommitIndex_greatest_majority_witness:
  "\<exists>s'. UpdateCommitIndex sample_config sample_apply 0 sample_leader = (Ok (), s') \<and>
     node_inv sample_apply 0 0 s' \<and> log_of s' = log_of sample_leader \<and> commit_index s' = 1"
proof -
  have held: "held_by_majority sample_config (match_index sample_leader) 1" "\<not> held_by_majority sample_config (match_index sample_leader) 2"
    by (simp_all add: majority_at_held [symmetric] majority_at_def match_count_def MajorityCount_def sample_config_def sample_leader_def upt_rec)
  have l: "length (match_index sample_leader) = length (cluster_nodes sample_config)" "current_term_start_index sample_leader = 1"
    "length (log_of sample_leader) = 2" "commit_index sample_leader = 0"
    by (simp_all add: sample_leader_def sample_config_def sample_node_def RaftNode_new_def log_of_def)
  from UpdateCommitIndex_greatest_majority [OF sample_leader_inv l(1)] obtain s' where
    s': "UpdateCommitIndex sample_config sample_apply 0 sample_leader = (Ok (), s')" "node_inv sample_apply 0 0 s'"
      "log_of s' = log_of sample_leader" "commit_index s' \<le> 2"
      "commit_index s' \<noteq> 0 \<longrightarrow> held_by_majority sample_config (match_index sample_leader) (commit_index s')"
      "\<forall>i \<le> 2. commit_index s' < i \<and> 1 \<le> i \<longrightarrow> \<not> held_by_majority sample_config (match_index sample_leader) i"
    unfolding l by auto
  have "commit_index s' = 1"
    using s'(4-6) held by (cases "commit_index s' = 0"; cases "commit_index s' = 2") auto
  with s' show ?thesis by blast
qed

text \<open>
  C26. When UpdateCommitIndex commits the entry at the index of a waiting call of Execute, it wakes the
  call up, and the call returns the response of the state machine to that entry, computed in the
  state reached by all entries before it.
\<close>

theorem Execute_returns_response:
  assumes "node_inv sm any0 sm0 s" and "length (match_index s) = length (cluster_nodes config)"
    and "state s = Leader" and "pending_inj s" and "pending_requests s i = Some ptr"
    and "commit_index s < i" and "i \<le> committed_to config s"
  shows "\<exists>s'. UpdateCommitIndex config sm any0 s = (Ok (), s') \<and> replication_finished s' ptr \<and>
     fst (Execute_finish any0 (ptr, i, term_of s) s') =
       Ok \<lparr>response_status = Commited,
           response_result = fst (Apply sm any0 (entry_request (log_of s ! (i - 1)))
             (Apply_all sm any0 (requests_of (take (i - 1) (log_of s))) (ExactlyOnce_new sm0)))\<rparr>"
proof (intro exI conjI)
  note inv = node_invD [OF assms(1)]
  let ?s' = "commit_updated config sm any0 s" and ?c = "commit_index s" and ?n = "committed_to config s"
  let ?rs = "requests_of (entries_between ?c ?n (log_of s))" and ?k = "i - Suc ?c"
  have n: "?n \<le> length (log_of s)" using committed_to_bounds(2) [OF inv(2)] by simp
  have i: "Suc ?c + ?k = i" using assms(6) by simp
  have k: "?k < length ?rs" using assms(6,7) n by (simp add: requests_of_def entries_between_def)
  have nth: "?rs ! ?k = entry_request (log_of s ! (i - 1))"
    using k assms(6) inv(2) by (simp add: requests_of_def entries_between_def)
  have tk: "take ?k ?rs = requests_of (entries_between ?c (i - 1) (log_of s))"
    using assms(6,7) by (simp add: requests_of_def entries_between_def take_map min_def)
  have "Apply_all sm any0 (take ?k ?rs) (rsm s) =
      Apply_all sm any0 (requests_of (take (i - 1) (log_of s))) (ExactlyOnce_new sm0)"
    using assms(6) inv(4) by (simp add: tk Apply_entries_between)
  with answer_all_response [OF assms(4), of "Suc ?c" ?k ptr ?rs sm any0] assms(5) i k nth
  have ans: "pending_result ?s' ptr = fst (Apply sm any0 (entry_request (log_of s ! (i - 1)))
      (Apply_all sm any0 (requests_of (take (i - 1) (log_of s))) (ExactlyOnce_new sm0)))"
    and fin: "replication_finished ?s' ptr"
    by (simp_all add: commit_updated_def)
  show "UpdateCommitIndex config sm any0 s = (Ok (), ?s')"
    using inv assms(2) by (intro UpdateCommitIndex_run) auto
  show "replication_finished ?s' ptr" by (rule fin)
  show "fst (Execute_finish any0 (ptr, i, term_of s) ?s') =
     Ok \<lparr>response_status = Commited,
         response_result = fst (Apply sm any0 (entry_request (log_of s ! (i - 1)))
           (Apply_all sm any0 (requests_of (take (i - 1) (log_of s))) (ExactlyOnce_new sm0)))\<rparr>"
    using inv(1) assms(3) ans by (simp add: Execute_finish_run Let_def)
qed

lemma sample_leader_commits: "committed_to sample_config sample_leader = 1"
proof -
  have "MajorityCount sample_config = 2" and "length (cluster_nodes sample_config) = 3"
    by (simp_all add: sample_config_def MajorityCount_def)
  then show ?thesis
    by (simp add: committed_to_def sample_leader_def sample_node_simps match_count_def upt_rec eval_nat_numeral)
qed

theorem Execute_returns_response_witness:
  "\<exists>s'. UpdateCommitIndex sample_config sample_apply 0 sample_leader = (Ok (), s') \<and>
     replication_finished s' 0 \<and>
     fst (Execute_finish 0 (0, 1, 2) s') = Ok \<lparr>response_status = Commited, response_result = 10\<rparr>"
proof -
  have "length (match_index sample_leader) = length (cluster_nodes sample_config)" "state sample_leader = Leader"
    "pending_inj sample_leader" "pending_requests sample_leader 1 = Some 0" "commit_index sample_leader < 1"
    and l: "term_of sample_leader = 2" "log_of sample_leader = [sample_entry 1 10, sample_entry 1 20]"
    by (simp_all add: sample_leader_def sample_config_def pending_inj_def sample_node_simps)
  moreover have "fst (Apply sample_apply 0 (entry_request (sample_entry 1 10)) (ExactlyOnce_new 0)) = 10"
    by (simp add: Apply_def ExactlyOnce_new_def sample_entry_def sample_apply_def)
  ultimately show ?thesis
    using Execute_returns_response [OF sample_leader_inv, of sample_config 1 0]
    by (simp add: sample_leader_commits l requests_of_def)
qed

section \<open>A leader and a follower\<close>

lemma append_request_matches:
  assumes "next_index l ! peer \<le> Suc (length (log_of f))"
    and "take (next_index l ! peer - 1) (log_of f) = take (next_index l ! peer - 1) (full_log l)"
  shows "log_matches (append_request config peer l) (log_of f)"
  using assms(1) take_eq_nth [OF assms(2)] by (auto simp: log_matches_def append_request_def Let_def)

lemma committed_agree_prefix:
  assumes "take c es = take c sent"
  shows "committed_agree prev c (drop prev sent) es"
  using take_eq_nth [OF assms] by (auto simp: committed_agree_def)

lemma new_log_prefix:
  assumes "take prev es = take prev sent" and "take c es = take c sent"
  shows "new_log prev c (drop prev sent) es = sent"
  using assms by (auto simp: new_log_def max_def)

text \<open>
  C27. A follower whose log agrees with the leader's up to the entry before the sent ones, and whose
  committed entries are entries of the leader, ends up with exactly the leader's log, the entries the leader
  has not saved yet included; the leader then records the length of that log as the
  follower's match index and the index after it as the next one to send.
\<close>

theorem replication_round:
  assumes "node_inv sm any0 sm0 l" and "state l = Leader" and "leader_inv config l"
    and "peer < length (cluster_nodes config)" and "next_index l ! peer \<le> Suc (length (raft_log l))"
    and "node_inv sm any0 sm0 f" and "term_of f \<le> term_of l"
    and "next_index l ! peer \<le> Suc (length (log_of f))"
    and "take (next_index l ! peer - 1) (log_of f) = take (next_index l ! peer - 1) (full_log l)"
    and "take (commit_index f) (log_of f) = take (commit_index f) (full_log l)"
  shows "\<exists>request f' l'. StartLeaderNodeSession config peer l = (Ok (Some request), l) \<and>
     AppendEntries sm any0 request f = (Ok \<lparr>aer_term = term_of f, aer_success = True\<rparr>, f') \<and>
     log_of f' = full_log l \<and>
     AppendEntries_response config sm any0 peer request
       (Ok \<lparr>aer_term = term_of f, aer_success = True\<rparr> :: (AppendEntriesResult, 'e) Result) l = (Ok (), l') \<and>
     match_index l' ! peer = length (log_of f') \<and> next_index l' ! peer = Suc (length (log_of f'))"
proof (intro exI conjI)
  let ?req = "append_request config peer l" and ?f' = "accepted sm any0 (append_request config peer l) f"
  let ?l' = "commit_updated config sm any0 (peer_matched peer ?req l)"
  note l = node_invD [OF assms(1)] and f = node_invD [OF assms(6)]
  note req = append_request_facts [OF assms(5), of config]
  have room: "length (full_log l) < u64_max" and idx: "peer < length (match_index l)" "peer < length (next_index l)"
    and next1: "1 \<le> next_index l ! peer"
    using assms(3,4) by (auto simp: leader_inv_def Let_def full_log_def)
  have fit: "fits ?req f" using f(2,3) room unfolding fits_def req(4) by simp
  show log: "log_of ?f' = full_log l"
    using assms(9,10) by (simp add: log_of_accepted req new_log_prefix)
  show "StartLeaderNodeSession config peer l = (Ok (Some ?req), l)"
    using l(1) assms(2-5) by (rule StartLeaderNodeSession_run)
  show "AppendEntries sm any0 ?req f = (Ok \<lparr>aer_term = term_of f, aer_success = True\<rparr>, ?f')"
    using assms(7) append_request_matches [OF assms(8,9), of config] committed_agree_prefix [OF assms(10)] req
    by (auto simp: AppendEntries_run [OF f(1) fit] Let_def) (simp add: append_request_def Let_def)
  have sum: "next_index l ! peer + length (ae_entries ?req) = Suc (length (full_log l))"
    using req next1 by simp
  show "AppendEntries_response config sm any0 peer ?req
       (Ok \<lparr>aer_term = term_of f, aer_success = True\<rparr> :: (AppendEntriesResult, 'e) Result) l = (Ok (), ?l')"
    using assms(7) room sum req(4)
    by (subst AppendEntries_response_run [OF l(1) assms(2,3) l(2) assms(4)]) auto
  show "match_index ?l' ! peer = length (log_of ?f')" "next_index ?l' ! peer = Suc (length (log_of ?f'))"
    unfolding log using idx req(4) sum by (simp_all add: peer_matched_def)
qed

definition sample_follower :: "(nat, nat) RaftNode" where
  "sample_follower = RaftNode_new 0 0 [(''current_term'', 1)] [(1, sample_entry 1 10)]"

lemma sample_follower_simps:
  "log_of sample_follower = [sample_entry 1 10]" "commit_index sample_follower = 0" "term_of sample_follower = 1"
  by (simp_all add: sample_follower_def RaftNode_new_def log_of_def term_of_def Database_Get_def)

lemma sample_follower_inv: "node_inv sample_apply 0 0 sample_follower"
  by (simp add: node_inv_def sample_follower_simps requests_of_def u64_max_def)
    (simp add: sample_follower_def RaftNode_new_def wf_db_def is_log_def keys_ordered_def Database_Get_def)

lemma sample_leader_facts:
  "leader_inv sample_config sample_leader" "full_log sample_leader = [sample_entry 1 10, sample_entry 1 20]"
proof -
  have len: "length (cluster_nodes sample_config) = Suc (Suc (Suc 0))" and "Suc (Suc 0) < u64_max"
    by (simp_all add: sample_config_def u64_max_def)
  moreover have "pending_log sample_leader = []" "raft_log sample_leader = raft_log sample_node"
    by (simp_all add: sample_leader_def sample_node_def RaftNode_new_def)
  ultimately show "leader_inv sample_config sample_leader"
    by (simp add: leader_inv_def Let_def len All_less_Suc sample_node_simps)
      (simp add: sample_leader_def sample_config_def)
  show "full_log sample_leader = [sample_entry 1 10, sample_entry 1 20]"
    by (simp add: full_log_def log_of_def sample_leader_def sample_node_def RaftNode_new_def)
qed

theorem replication_round_witness:
  "\<exists>request f' l'. StartLeaderNodeSession sample_config 1 sample_leader = (Ok (Some request), sample_leader) \<and>
     AppendEntries sample_apply 0 request sample_follower = (Ok \<lparr>aer_term = 1, aer_success = True\<rparr>, f') \<and>
     log_of f' = [sample_entry 1 10, sample_entry 1 20] \<and>
     AppendEntries_response sample_config sample_apply 0 1 request
       (Ok \<lparr>aer_term = 1, aer_success = True\<rparr> :: (AppendEntriesResult, unit) Result) sample_leader = (Ok (), l') \<and>
     match_index l' ! 1 = 2 \<and> next_index l' ! 1 = 3"
proof -
  have "state sample_leader = Leader" "1 < length (cluster_nodes sample_config)" "next_index sample_leader ! 1 = 2"
    "length (raft_log sample_leader) = 2" "term_of sample_leader = 2"
    by (simp_all add: sample_leader_def sample_config_def sample_node_simps)
  with replication_round [OF sample_leader_inv _ sample_leader_facts(1) _ _ sample_follower_inv,
      where peer = 1 and 'e = unit]
  show ?thesis
    by (simp add: sample_leader_facts(2) sample_follower_simps numeral_2_eq_2 numeral_3_eq_3 del: length_log_of
        cong: conj_cong)
qed

end
