(* ===== verification/Election.thy ===== *)
theory Election
  imports Raft_Core
begin

text \<open>
  Elections as a protocol between nodes that have only a term, a vote and a role. This is the
  specification that the clusters of Raft and Metamorphosis nodes implement (theory Cluster): a
  node votes at most once per term, its term never decreases, and a candidate becomes
  the leader of its term only with the votes of a quorum.

  The fields \<open>e_granted\<close> and \<open>e_elected\<close> record history: who voted for whom in which
  term, and who was elected in which term.
\<close>

record election =
  e_term :: "nat \<Rightarrow> nat"
  e_vote :: "nat \<Rightarrow> nat option"
  e_role :: "nat \<Rightarrow> State"
  e_granted :: "(nat \<times> nat \<times> nat) set"
  e_elected :: "(nat \<times> nat) set"

inductive election_step :: "nat set set \<Rightarrow> election \<Rightarrow> election \<Rightarrow> bool" for Q where
  idle: "election_step Q e e"
| vote: "e_term e q < t \<or> e_term e q = t \<and> e_vote e q \<in> {None, Some c} \<Longrightarrow>
    election_step Q e (e\<lparr>e_term := (e_term e)(q := t), e_vote := (e_vote e)(q := Some c),
      e_role := (e_role e)(q := if e_term e q < t then Follower else e_role e q),
      e_granted := insert (q, c, t) (e_granted e)\<rparr>)"
| new_term: "e_term e q < t \<Longrightarrow>
    election_step Q e (e\<lparr>e_term := (e_term e)(q := t), e_vote := (e_vote e)(q := None),
      e_role := (e_role e)(q := Follower)\<rparr>)"
| step_down: "election_step Q e (e\<lparr>e_role := (e_role e)(q := Follower)\<rparr>)"
| time_out: "e_role e q \<noteq> Leader \<Longrightarrow> election_step Q e (e\<lparr>e_role := (e_role e)(q := Candidate)\<rparr>)"
| campaign: "e_role e q = Candidate \<Longrightarrow>
    election_step Q e (e\<lparr>e_term := (e_term e)(q := Suc (e_term e q)), e_vote := (e_vote e)(q := Some q),
      e_granted := insert (q, q, Suc (e_term e q)) (e_granted e)\<rparr>)"
| elect: "e_role e p = Candidate \<Longrightarrow> A \<in> Q \<Longrightarrow> \<forall>q \<in> A. (q, p, e_term e p) \<in> e_granted e \<Longrightarrow>
    election_step Q e (e\<lparr>e_role := (e_role e)(p := Leader), e_elected := insert (e_term e p, p) (e_elected e)\<rparr>)"

inductive_cases election_stepE: "election_step Q e e'"

text \<open>
  A node's votes lie in terms up to its own, the one of its own term is its current vote, and
  there is at most one per term.
\<close>

definition votes_inv :: "(nat \<Rightarrow> nat) \<Rightarrow> (nat \<Rightarrow> nat option) \<Rightarrow> (nat \<times> nat \<times> nat) set \<Rightarrow> bool" where
  "votes_inv tm vt G \<longleftrightarrow>
     (\<forall>q c t. (q, c, t) \<in> G \<longrightarrow> t \<le> tm q \<and> (t = tm q \<longrightarrow> vt q = Some c)) \<and>
     (\<forall>q c c' t. (q, c, t) \<in> G \<longrightarrow> (q, c', t) \<in> G \<longrightarrow> c = c')"

lemma votes_inv_new_term:
  assumes "votes_inv tm vt G" and "tm q < t"
  shows "votes_inv (tm(q := t)) (vt(q := v)) G"
  using assms unfolding votes_inv_def by (fastforce dest: le_less_trans)

lemma votes_inv_vote:
  assumes "votes_inv tm vt G" and "tm q = t" and "vt q = None \<or> vt q = Some c"
  shows "votes_inv tm (vt(q := Some c)) (insert (q, c, t) G)"
  using assms unfolding votes_inv_def by fastforce

lemma votes_inv_grant:
  assumes "votes_inv tm vt G" and "tm q < t \<or> tm q = t \<and> vt q \<in> {None, Some c}"
  shows "votes_inv (tm(q := t)) (vt(q := Some c)) (insert (q, c, t) G)"
proof (cases "tm q < t")
  case True
  have "votes_inv (tm(q := t)) (vt(q := None)) G"
    using assms(1) True by (rule votes_inv_new_term)
  from votes_inv_vote [OF this, of q t c] show ?thesis by simp
next
  case False
  with assms have "tm(q := t) = tm" by auto
  with False assms show ?thesis using votes_inv_vote [OF assms(1), of q t c] by auto
qed

text \<open>Every elected leader had reached the term and had the votes of a quorum.\<close>

definition won_inv :: "nat set set \<Rightarrow> (nat \<Rightarrow> nat) \<Rightarrow> (nat \<times> nat \<times> nat) set \<Rightarrow> (nat \<times> nat) set \<Rightarrow> bool" where
  "won_inv Q tm G E \<longleftrightarrow>
     (\<forall>t p. (t, p) \<in> E \<longrightarrow> t \<le> tm p \<and> (\<exists>A \<in> Q. \<forall>q \<in> A. (q, p, t) \<in> G))"

lemma won_inv_mono:
  assumes "won_inv Q tm G E" and "\<And>p. tm p \<le> tm' p" and "G \<subseteq> G'"
  shows "won_inv Q tm' G' E"
  using assms unfolding won_inv_def by (meson le_trans subsetD)

definition election_inv :: "nat set set \<Rightarrow> election \<Rightarrow> bool" where
  "election_inv Q e \<longleftrightarrow>
     votes_inv (e_term e) (e_vote e) (e_granted e) \<and> won_inv Q (e_term e) (e_granted e) (e_elected e) \<and>
     (\<forall>p. e_role e p = Leader \<longrightarrow> (e_term e p, p) \<in> e_elected e)"

lemma election_step_inv:
  assumes "election_step Q e e'" and "election_inv Q e"
  shows "election_inv Q e'"
proof -
  have v: "votes_inv (e_term e) (e_vote e) (e_granted e)" and w: "won_inv Q (e_term e) (e_granted e) (e_elected e)"
    and l: "\<And>p. e_role e p = Leader \<Longrightarrow> (e_term e p, p) \<in> e_elected e"
    using assms(2) by (simp_all add: election_inv_def)
  have later: "won_inv Q ((e_term e)(q := t)) G (e_elected e)" if "e_term e q \<le> t" "e_granted e \<subseteq> G" for q t G
    using that by (intro won_inv_mono [OF w]) simp_all
  from assms(1) show ?thesis
  proof cases
    case (vote q t c)
    have "won_inv Q ((e_term e)(q := t)) (insert (q, c, t) (e_granted e)) (e_elected e)"
      using vote(2) by (intro later) auto
    with vote show ?thesis
      using votes_inv_grant [OF v vote(2)] l by (auto simp: election_inv_def)
  next
    case (new_term q t)
    then show ?thesis
      using votes_inv_new_term [OF v new_term(2), of None] later [of q t "e_granted e"] l
      by (simp add: election_inv_def)
  next
    case (campaign q)
    then show ?thesis
      using votes_inv_grant [OF v, of q "Suc (e_term e q)" q] later [of q "Suc (e_term e q)" "insert (q, q, Suc (e_term e q)) (e_granted e)"] l
      by (auto simp: election_inv_def)
  next
    case (elect p A)
    then show ?thesis
      using v w l by (auto simp: election_inv_def won_inv_def)
  qed (use v w l in \<open>simp_all add: election_inv_def\<close>)
qed

text \<open>History only grows.\<close>

lemma election_step_mono:
  assumes "election_step Q e e'"
  shows "e_granted e \<subseteq> e_granted e'" and "e_elected e \<subseteq> e_elected e'" and "e_term e q \<le> e_term e' q"
  using assms by (cases; auto)+

lemma election_step_elected:
  assumes "election_step Q e e'" and "(t, p) \<in> e_elected e'"
  shows "(t, p) \<in> e_elected e \<or> e_role e p = Candidate \<and> e_role e' p = Leader \<and> t = e_term e' p"
  using assms by cases auto

section \<open>Quorums\<close>

locale quorums =
  fixes Q :: "nat set set"
  assumes intersect: "A \<in> Q \<Longrightarrow> B \<in> Q \<Longrightarrow> \<exists>q. q \<in> A \<and> q \<in> B"
begin

lemma one_elected:
  assumes "election_inv Q e" and "(t, p) \<in> e_elected e" and "(t, p') \<in> e_elected e"
  shows "p = p'"
proof -
  obtain A B where "A \<in> Q" "\<forall>q \<in> A. (q, p, t) \<in> e_granted e" "B \<in> Q" "\<forall>q \<in> B. (q, p', t) \<in> e_granted e"
    using assms unfolding election_inv_def won_inv_def by meson
  moreover from this obtain q where "q \<in> A" "q \<in> B" using intersect by blast
  ultimately have "(q, p, t) \<in> e_granted e" "(q, p', t) \<in> e_granted e" by auto
  then show ?thesis using assms(1) unfolding election_inv_def votes_inv_def by blast
qed

lemma one_leader:
  assumes "election_inv Q e" and "e_role e p = Leader" and "e_role e p' = Leader" and "e_term e p = e_term e p'"
  shows "p = p'"
proof -
  have "(e_term e p, p) \<in> e_elected e" "(e_term e p, p') \<in> e_elected e"
    using assms unfolding election_inv_def by auto
  then show ?thesis using one_elected [OF assms(1)] by blast
qed

end

text \<open>The majorities of the nodes \<open>0, \<dots>, n - 1\<close>, as counted by \<open>MajorityCount\<close>.\<close>

definition majorities :: "nat \<Rightarrow> nat set set" where
  "majorities n = {A. A \<subseteq> {..<n} \<and> n div 2 + 1 \<le> card A}"

lemma majorities_intersect:
  assumes "A \<in> majorities n" and "B \<in> majorities n"
  shows "\<exists>q. q \<in> A \<and> q \<in> B"
proof (rule ccontr)
  assume "\<not> ?thesis"
  then have disj: "A \<inter> B = {}" by blast
  have sub: "A \<union> B \<subseteq> {..<n}" and fin: "finite A" "finite B"
    using assms by (auto simp: majorities_def dest: finite_subset)
  have "card A + card B \<le> n"
    using card_mono [OF _ sub] card_Un_disjoint [OF fin disj] by simp
  then show False using assms by (auto simp: majorities_def)
qed

interpretation majority: quorums "majorities n" for n
  by unfold_locales (rule majorities_intersect)

end
