(* ===== verification/Cluster.thy ===== *)
theory Cluster
  imports Election Raft_Log
begin

text \<open>
  A cluster of nodes that hold elections over an unreliable network. The relation
  \<open>cluster_step\<close> interleaves the main fibers of the nodes (\<^verbatim>\<open>StartNode\<close> with
  \<^verbatim>\<open>StartFollower\<close> and \<^verbatim>\<open>StartCandidate\<close>), the handler \<^verbatim>\<open>RequestVote\<close>, the fibers
  that wait for its answers, and crashes; everything else a node does is the parameter
  \<open>other\<close>. The relation is used for the Raft node and for the Metamorphosis node.

  Requests and answers that were sent stay available for ever, so they may be delivered late, in
  any order, repeatedly or never; only the fiber that waits for an answer takes one at most once. A handler that
  aborts ends its process: the node comes back with its databases and nothing else, in a new incarnation.

  The locale \<open>cluster_node\<close> states what an election needs of a node; there the
  cluster is shown to implement the protocol of theory Election.
\<close>

section \<open>Steps\<close>

text \<open>
  Where the main fiber of a node is: at the top of the loop of \<^verbatim>\<open>StartNode\<close>, in the sleep of
  \<^verbatim>\<open>StartFollower\<close>, in \<^verbatim>\<open>StartCandidate\<close> waiting for the answers of a set of
  nodes, or in \<^verbatim>\<open>StartLeader\<close>, where the flag says whether the main session has started.
\<close>

datatype main_fiber = Loop | Sleeping | Electing RequestVoteRequest nat "nat set" | Leading bool

record 'n cluster =
  nodes :: "nat \<Rightarrow> 'n"
  fiber :: "nat \<Rightarrow> main_fiber"
  incarnation :: "nat \<Rightarrow> nat"
  vote_requests :: "RequestVoteRequest set"
  vote_replies :: "(nat \<times> RequestVoteRequest \<times> RequestVoteResult) set"

definition goto :: "nat \<Rightarrow> main_fiber \<Rightarrow> ('n, 'z) cluster_scheme \<Rightarrow> ('n, 'z) cluster_scheme" where
  "goto p f c = c\<lparr>fiber := (fiber c)(p := f)\<rparr>"

definition crash :: "('n \<Rightarrow> 'n) \<Rightarrow> nat \<Rightarrow> 'n \<Rightarrow> ('n, 'z) cluster_scheme \<Rightarrow> ('n, 'z) cluster_scheme" where
  "crash restart p s c =
     goto p Loop (c\<lparr>nodes := (nodes c)(p := restart s), incarnation := (incarnation c)(p := Suc (incarnation c p))\<rparr>)"

definition run ::
  "('n \<Rightarrow> 'n) \<Rightarrow> nat \<Rightarrow> ('n, 'x) exec \<Rightarrow> ('x \<Rightarrow> ('n, 'z) cluster_scheme \<Rightarrow> ('n, 'z) cluster_scheme) \<Rightarrow>
   ('n, 'z) cluster_scheme \<Rightarrow> ('n, 'z) cluster_scheme" where
  "run restart p m k c =
     (case m (nodes c p) of
        (Ok x, s) \<Rightarrow> k x (c\<lparr>nodes := (nodes c)(p := s)\<rparr>)
      | (Err _, s) \<Rightarrow> crash restart p s c)"

inductive cluster_step ::
  "(nat \<Rightarrow> node_config) \<Rightarrow> nat \<Rightarrow> (('e log_entry_scheme, 'm) node_scheme \<Rightarrow> ('e log_entry_scheme, 'm) node_scheme) \<Rightarrow>
   (nat \<Rightarrow> (('e log_entry_scheme, 'm) node_scheme, unit) exec) \<Rightarrow>
   ((('e log_entry_scheme, 'm) node_scheme, 'z) cluster_scheme \<Rightarrow> (('e log_entry_scheme, 'm) node_scheme, 'z) cluster_scheme \<Rightarrow> bool) \<Rightarrow>
   (('e log_entry_scheme, 'm) node_scheme, 'z) cluster_scheme \<Rightarrow> (('e log_entry_scheme, 'm) node_scheme, 'z) cluster_scheme \<Rightarrow> bool"
  for conf n restart become_leader other where
  crash: "p < n \<Longrightarrow> cluster_step conf n restart become_leader other c (crash restart p (nodes c p) c)"
| sleep: "p < n \<Longrightarrow> fiber c p = Loop \<Longrightarrow> state (nodes c p) = Follower \<Longrightarrow>
    cluster_step conf n restart become_leader other c (run restart p StartFollower (\<lambda>_. goto p Sleeping) c)"
| wake: "p < n \<Longrightarrow> fiber c p = Sleeping \<Longrightarrow>
    cluster_step conf n restart become_leader other c (run restart p StartFollower_wake (\<lambda>_. goto p Loop) c)"
| campaign: "p < n \<Longrightarrow> fiber c p = Loop \<Longrightarrow> state (nodes c p) = Candidate \<Longrightarrow>
    cluster_step conf n restart become_leader other c (run restart p (StartCandidate (conf p)) (\<lambda>(req, votes) c.
      (goto p (Electing req votes ({..<n} - {p})) c)\<lparr>vote_requests := insert req (vote_requests c)\<rparr>) c)"
| vote_request: "q < n \<Longrightarrow> req \<in> vote_requests c \<Longrightarrow> rv_candidate_id req \<noteq> q \<Longrightarrow>
    cluster_step conf n restart become_leader other c (run restart q (RequestVote req) (\<lambda>res c.
      c\<lparr>vote_replies := insert (q, req, res) (vote_replies c)\<rparr>) c)"
| vote_answer: "p < n \<Longrightarrow> fiber c p = Electing req votes W \<Longrightarrow> q \<in> W \<Longrightarrow> (q, req, res) \<in> vote_replies c \<Longrightarrow>
    cluster_step conf n restart become_leader other c
      (run restart p (RequestVote_response (conf p) (become_leader p) (Ok res :: (RequestVoteResult, unit) Result) votes)
        (\<lambda>votes. goto p (Electing req votes (W - {q}))) c)"
| vote_error: "p < n \<Longrightarrow> fiber c p = Electing req votes W \<Longrightarrow> q \<in> W \<Longrightarrow>
    cluster_step conf n restart become_leader other c
      (run restart p (RequestVote_response (conf p) (become_leader p) (Err () :: (RequestVoteResult, unit) Result) votes)
        (\<lambda>votes. goto p (Electing req votes (W - {q}))) c)"
| election_timeout: "p < n \<Longrightarrow> fiber c p = Electing req votes W \<Longrightarrow>
    cluster_step conf n restart become_leader other c (run restart p election_timer (\<lambda>_ c. c) c)"
| election_end: "p < n \<Longrightarrow> fiber c p = Electing req votes {} \<Longrightarrow>
    cluster_step conf n restart become_leader other c (goto p Loop c)"
| other: "other c c' \<Longrightarrow> cluster_step conf n restart become_leader other c c'"

lemma run_rule:
  assumes "\<And>x s. m (nodes c p) = (Ok x, s) \<Longrightarrow> P (k x (c\<lparr>nodes := (nodes c)(p := s)\<rparr>))"
    and "\<And>e s. m (nodes c p) = (Err e, s) \<Longrightarrow> P (crash restart p s c)"
  shows "P (run restart p m k c)"
  using assms by (auto simp: run_def split: prod.splits Result.splits)

text \<open>Every node is configured with the same list of nodes and its own place in it.\<close>

definition member_config :: "(string \<times> nat) list \<Rightarrow> nat \<Rightarrow> node_config" where
  "member_config ns p = \<lparr>node_id = p, cluster_nodes = ns\<rparr>"

lemma member_config_simps [simp]: "node_id (member_config ns p) = p" "cluster_nodes (member_config ns p) = ns"
  by (simp_all add: member_config_def)

section \<open>What the cluster implements\<close>

text \<open>Changes of a node that are not part of an election.\<close>

definition quiet :: "('e, 'm) node_scheme \<Rightarrow> ('e, 'm) node_scheme \<Rightarrow> bool" where
  "quiet s s' \<longleftrightarrow> wf_db s' \<and> term_of s \<le> term_of s' \<and>
     (if term_of s' = term_of s then vote_of s' = vote_of s \<and> state s' \<in> {state s, Follower}
      else vote_of s' = None \<and> state s' = Follower)"

fun fiber_ok :: "nat \<Rightarrow> (nat \<times> nat \<times> nat) set \<Rightarrow> nat \<Rightarrow> ('e, 'm) node_scheme \<Rightarrow> main_fiber \<Rightarrow> bool" where
  "fiber_ok n G p s (Electing req votes W) \<longleftrightarrow>
     rv_candidate_id req = p \<and> (p, p, rv_term req) \<in> G \<and> rv_term req \<le> term_of s \<and>
     (state s = Candidate \<longrightarrow> term_of s = rv_term req) \<and> W \<subseteq> {..<n} - {p} \<and>
     (\<exists>S. S \<subseteq> {..<n} - {p} - W \<and> votes = Suc (card S) \<and> (\<forall>q \<in> S. (q, p, rv_term req) \<in> G))"
| "fiber_ok n G p s f \<longleftrightarrow> True"

definition reply_ok :: "nat \<Rightarrow> (nat \<times> nat \<times> nat) set \<Rightarrow> nat \<times> RequestVoteRequest \<times> RequestVoteResult \<Rightarrow> bool" where
  "reply_ok n G r \<longleftrightarrow> (case r of (q, req, res) \<Rightarrow>
     rvr_vote_granted res \<longrightarrow> (q, rv_candidate_id req, rv_term req) \<in> G)"

definition implements :: "nat \<Rightarrow> (('e, 'm) node_scheme, 'z) cluster_scheme \<Rightarrow> election \<Rightarrow> bool" where
  "implements n c e \<longleftrightarrow>
     (\<forall>p. e_term e p = term_of (nodes c p) \<and> e_vote e p = vote_of (nodes c p) \<and> e_role e p = state (nodes c p)) \<and>
     (\<forall>p. wf_db (nodes c p)) \<and>
     (\<forall>r \<in> vote_replies c. reply_ok n (e_granted e) r) \<and>
     (\<forall>p < n. fiber_ok n (e_granted e) p (nodes c p) (fiber c p))"

lemma fiber_ok_mono:
  assumes "G \<subseteq> G'" and "fiber_ok n G p s f"
  shows "fiber_ok n G' p s f"
proof (cases f)
  case (Electing req votes W)
  with assms obtain S where "S \<subseteq> {..<n} - {p} - W" "votes = Suc (card S)" "\<forall>q \<in> S. (q, p, rv_term req) \<in> G'"
    by (simp only: fiber_ok.simps) blast
  then show ?thesis
    using assms Electing by (simp only: fiber_ok.simps) blast
qed simp_all

lemma fiber_ok_quiet:
  assumes "fiber_ok n G p s f" and "term_of s \<le> term_of s'"
    and "state s' = Candidate \<Longrightarrow> state s = Candidate \<and> term_of s' = term_of s"
  shows "fiber_ok n G p s' f"
proof (cases f)
  case (Electing req votes W)
  then show ?thesis using assms by (simp only: fiber_ok.simps) (metis le_trans)
qed simp_all

lemma fiber_ok_less:
  assumes "fiber_ok n G p s (Electing req votes W)"
  shows "fiber_ok n G p s (Electing req votes (W - {q}))"
proof -
  obtain S where "S \<subseteq> {..<n} - {p} - (W - {q})" "votes = Suc (card S)" "\<forall>q \<in> S. (q, p, rv_term req) \<in> G"
    using assms by (simp only: fiber_ok.simps) blast
  then show ?thesis using assms by (simp only: fiber_ok.simps) blast
qed

lemma implementsD:
  assumes "implements n c e"
  shows "e_term e p = term_of (nodes c p)" and "e_vote e p = vote_of (nodes c p)"
    and "e_role e p = state (nodes c p)" and "wf_db (nodes c p)"
    and "p < n \<Longrightarrow> fiber_ok n (e_granted e) p (nodes c p) (fiber c p)"
    and "r \<in> vote_replies c \<Longrightarrow> reply_ok n (e_granted e) r"
  using assms by (simp_all add: implements_def)

text \<open>A step of one node: what has to hold of that node alone.\<close>

lemma implements_update:
  assumes "implements n c e" and "wf_db s"
    and "e_term e' = (e_term e)(p := term_of s)" and "e_vote e' = (e_vote e)(p := vote_of s)"
    and "e_role e' = (e_role e)(p := state s)" and "e_granted e \<subseteq> e_granted e'"
    and "fiber_ok n (e_granted e') p s f"
    and "nodes c' = (nodes c)(p := s)" and "fiber c' = (fiber c)(p := f)"
    and "\<And>r. r \<in> vote_replies c' \<Longrightarrow> r \<in> vote_replies c \<or> reply_ok n (e_granted e') r"
  shows "implements n c' e'"
  unfolding implements_def
proof (intro conjI allI ballI impI)
  fix r assume "r \<in> vote_replies c'"
  from assms(10) [OF this] show "reply_ok n (e_granted e') r"
    using implementsD(6) [OF assms(1), of r] assms(6) by (auto simp: reply_ok_def split: prod.splits)
next
  fix q assume "q < n"
  then show "fiber_ok n (e_granted e') q (nodes c' q) (fiber c' q)"
    using implementsD(5) [OF assms(1), of q] assms(6-9) by (auto intro: fiber_ok_mono)
qed (use assms(1-5,8) in \<open>simp_all add: implements_def\<close>)

lemma quiet_refl: "wf_db s \<Longrightarrow> quiet s s"
  by (simp add: quiet_def)

lemma quiet_same: "wf_db s \<Longrightarrow> same_db s s' \<Longrightarrow> state s' = state s \<Longrightarrow> quiet s s'"
  by (simp add: quiet_def same_dbD)

lemma quiet_left:
  "quiet s1 s' \<Longrightarrow> term_of s1 = term_of s \<Longrightarrow> vote_of s1 = vote_of s \<Longrightarrow> state s1 = state s \<Longrightarrow> quiet s s'"
  unfolding quiet_def by (auto split: if_splits)

lemma quiet_simulated:
  assumes "implements n c e" and "quiet (nodes c p) s" and "nodes c' = (nodes c)(p := s)"
    and "fiber c' = (fiber c)(p := f)" and "f = fiber c p \<or> (\<forall>req votes W. f \<noteq> Electing req votes W)"
    and "p < n" and "vote_replies c' = vote_replies c"
  shows "\<exists>e'. election_step Q e e' \<and> implements n c' e'"
proof -
  note obs = implementsD(1-3) [OF assms(1), of p] and q = assms(2) [unfolded quiet_def]
  let ?e = "e\<lparr>e_term := (e_term e)(p := term_of s), e_vote := (e_vote e)(p := vote_of s),
      e_role := (e_role e)(p := state s)\<rparr>"
  have step: "election_step Q e ?e"
  proof (cases "term_of s = term_of (nodes c p)")
    case True
    then have "(e_term e)(p := term_of s) = e_term e" "(e_vote e)(p := vote_of s) = e_vote e"
      using q obs by auto
    moreover have "state s = Follower \<or> (e_role e)(p := state s) = e_role e"
      using True q obs by auto
    ultimately show ?thesis
      using election_step.idle [of Q e] election_step.step_down [of Q e p] by auto
  next
    case False
    then show ?thesis
      using q obs election_step.new_term [of e p "term_of s" Q] by simp
  qed
  have "fiber_ok n (e_granted e) p s f"
    using assms(5)
  proof
    assume "f = fiber c p"
    moreover have "term_of (nodes c p) \<le> term_of s"
      and "state s = Candidate \<Longrightarrow> state (nodes c p) = Candidate \<and> term_of s = term_of (nodes c p)"
      using q by (simp_all split: if_splits)
    ultimately show ?thesis
      using fiber_ok_quiet [OF implementsD(5) [OF assms(1,6)]] by blast
  qed (cases f; simp)
  then have "implements n c' ?e"
    using q assms(1,3,4,7) by (intro implements_update [of n c e s ?e p f]) auto
  then show ?thesis using step by blast
qed

text \<open>
  A node that waits for votes as a candidate has not yet been elected in its term: it entered the
  term when it started to campaign.
\<close>

definition electing :: "(('e, 'm) node_scheme, 'z) cluster_scheme \<Rightarrow> nat \<Rightarrow> bool" where
  "electing c p \<longleftrightarrow> (\<exists>req votes W. fiber c p = Electing req votes W) \<and> state (nodes c p) = Candidate"

definition unelected :: "nat \<Rightarrow> (('e, 'm) node_scheme, 'z) cluster_scheme \<Rightarrow> election \<Rightarrow> bool" where
  "unelected n c e \<longleftrightarrow> (\<forall>p < n. electing c p \<longrightarrow> (e_term e p, p) \<notin> e_elected e)"

lemma electing_update:
  assumes "electing c' p" and "nodes c' = (nodes c)(q := s)" and "fiber c' = (fiber c)(q := f)"
    and "state s = Candidate \<longrightarrow> state (nodes c q) = Candidate"
    and "f = fiber c q \<or> (\<forall>req votes W. f \<noteq> Electing req votes W)"
  shows "electing c p"
  using assms by (metis electing_def fun_upd_apply)

text \<open>What a cluster has implemented of the protocol so far.\<close>

definition history :: "nat \<Rightarrow> (('e, 'm) node_scheme, 'z) cluster_scheme \<Rightarrow> election \<Rightarrow> bool" where
  "history n c e \<longleftrightarrow> implements n c e \<and> election_inv (majorities n) e \<and> unelected n c e"

section \<open>The contract of a node\<close>

locale cluster_node =
  fixes conf :: "nat \<Rightarrow> node_config" and n :: nat
    and restart :: "('e log_entry_scheme, 'm) node_scheme \<Rightarrow> ('e log_entry_scheme, 'm) node_scheme"
    and become_leader :: "nat \<Rightarrow> (('e log_entry_scheme, 'm) node_scheme, unit) exec"
    and other :: "(('e log_entry_scheme, 'm) node_scheme, 'z) cluster_scheme \<Rightarrow>
      (('e log_entry_scheme, 'm) node_scheme, 'z) cluster_scheme \<Rightarrow> bool"
    and good :: "(('e log_entry_scheme, 'm) node_scheme, 'z) cluster_scheme \<Rightarrow> bool"
  assumes conf_id: "p < n \<Longrightarrow> node_id (conf p) = p"
    and conf_nodes: "p < n \<Longrightarrow> length (cluster_nodes (conf p)) = n"
    and small: "good c \<Longrightarrow> n < u64_max"
    and restart_db: "wf_db s \<Longrightarrow> wf_db (restart s) \<and> term_of (restart s) = term_of s \<and>
      vote_of (restart s) = vote_of s \<and> state (restart s) = Follower"
    and lead: "wf_db s \<Longrightarrow> state s = Candidate \<Longrightarrow>
      fst (become_leader p s) = Ok () \<and> same_db s (snd (become_leader p s)) \<and> state (snd (become_leader p s)) = Leader"
    and good_step: "cluster_step conf n restart become_leader other c c' \<Longrightarrow> good c \<Longrightarrow> good c'"
    and other_quiet: "other c c' \<Longrightarrow> good c \<Longrightarrow>
      \<exists>p s f. p < n \<and> quiet (nodes c p) s \<and> nodes c' = (nodes c)(p := s) \<and> fiber c' = (fiber c)(p := f) \<and>
        (f = fiber c p \<or> (\<forall>req votes W. f \<noteq> Electing req votes W)) \<and> vote_replies c' = vote_replies c"
begin

lemma crash_simulated:
  assumes "implements n c e" and "quiet (nodes c p) s" and "p < n"
  shows "\<exists>e'. election_step Q e e' \<and> implements n (crash restart p s c) e'"
proof -
  have "quiet (nodes c p) (restart s)"
    using assms(2) restart_db [of s] by (auto simp: quiet_def split: if_splits)
  with assms(1,3) show ?thesis
    by (intro quiet_simulated [of n c e p "restart s" _ Loop]) (simp_all add: crash_def goto_def)
qed

lemma campaign_simulated:
  assumes "implements n c e" and "p < n" and "state (nodes c p) = Candidate"
  shows "\<exists>e'. election_step Q e e' \<and> implements n (run restart p (StartCandidate (conf p)) (\<lambda>(req, votes) c.
      (goto p (Electing req votes ({..<n} - {p})) c)\<lparr>vote_requests := insert req (vote_requests c)\<rparr>) c) e'"
proof (cases "term_of (nodes c p) < u64_max")
  case True
  let ?s = "nodes c p" and ?t = "Suc (term_of (nodes c p))"
  let ?s' = "set_term ?t (Some p) (?s\<lparr>stop_election := new_StopState\<rparr>)"
  let ?e = "e\<lparr>e_term := (e_term e)(p := ?t), e_vote := (e_vote e)(p := Some p),
      e_granted := insert (p, p, ?t) (e_granted e)\<rparr>"
  note obs = implementsD(1-4) [OF assms(1), of p]
  have "election_step Q e ?e"
    using election_step.campaign [of e p Q] obs assms(3) by simp
  moreover have "implements n (run restart p (StartCandidate (conf p)) (\<lambda>(req, votes) c.
      (goto p (Electing req votes ({..<n} - {p})) c)\<lparr>vote_requests := insert req (vote_requests c)\<rparr>) c) ?e"
    using assms(1) obs True assms(2)
    by (intro implements_update [of n c e ?s' ?e p])
      (auto simp: run_def StartCandidate_run conf_id goto_def intro: exI [of _ "{}"])
  ultimately show ?thesis by blast
next
  case False
  have wf: "wf_db (nodes c p)" using implementsD(4) [OF assms(1)] .
  have "u64_inc (term_of (nodes c p)) \<le> term_of (nodes c p)"
    using False by (intro u64_inc_limit) simp
  then have "run restart p (StartCandidate (conf p)) k c =
      crash restart p ((nodes c p)\<lparr>stop_election := new_StopState\<rparr>) c" for k
    using wf by (simp add: run_def StartCandidate_def exec_simps)
  then show ?thesis
    using crash_simulated [OF assms(1) _ assms(2)] wf by (simp add: quiet_def)
qed

lemma vote_request_simulated:
  assumes "implements n c e" and "q < n"
  shows "\<exists>e'. election_step Q e e' \<and> implements n (run restart q (RequestVote req) (\<lambda>res c.
      c\<lparr>vote_replies := insert (q, req, res) (vote_replies c)\<rparr>) c) e'"
proof -
  let ?s = "nodes c q" and ?cand = "rv_candidate_id req" and ?t = "rv_term req"
  note obs = implementsD(1-4) [OF assms(1), of q]
  obtain t v g where spec:
    "vote_spec (term_of ?s) (vote_of ?s) (last_term (log_of ?s)) (length (log_of ?s)) req = (t, v, g)"
    by (metis prod_cases3)
  obtain s' where run: "RequestVote req ?s = (Ok \<lparr>rvr_term = term_of ?s, rvr_vote_granted = g\<rparr>, s')"
    and s': "term_of s' = t" "vote_of s' = v" "wf_db s'" "state s' = (if ?t > term_of ?s then Follower else state ?s)"
    using RequestVote_refines [OF obs(4) spec] by metis
  let ?c' = "c\<lparr>nodes := (nodes c)(q := s'), vote_replies :=
      insert (q, req, \<lparr>rvr_term = term_of ?s, rvr_vote_granted = g\<rparr>) (vote_replies c)\<rparr>"
  have eq: "run restart q (RequestVote req) (\<lambda>res c. c\<lparr>vote_replies := insert (q, req, res) (vote_replies c)\<rparr>) c = ?c'"
    by (simp add: run_def run)
  let ?G = "if g then insert (q, ?cand, ?t) (e_granted e) else e_granted e"
  let ?e = "e\<lparr>e_term := (e_term e)(q := t), e_vote := (e_vote e)(q := v),
      e_role := (e_role e)(q := state s'), e_granted := ?G\<rparr>"
  have step: "election_step Q e ?e"
  proof (cases g)
    case True
    then have "term_of ?s < ?t \<or> term_of ?s = ?t \<and> vote_of ?s \<in> {None, Some ?cand}" "t = ?t" "v = Some ?cand"
      using spec by (auto simp: vote_spec_def Let_def split: if_splits)
    then show ?thesis
      using True election_step.vote [of e q ?t ?cand Q] obs s'(4) by (simp split: if_splits)
  next
    case False
    then have "?t > term_of ?s \<and> t = ?t \<and> v = None \<or> \<not> ?t > term_of ?s \<and> t = term_of ?s \<and> v = vote_of ?s"
      using spec by (auto simp: vote_spec_def Let_def split: if_splits)
    then show ?thesis
      using False election_step.new_term [of e q ?t Q] election_step.idle [of Q e] obs s'(4)
      by (auto simp: fun_upd_idem)
  qed
  have le: "term_of ?s \<le> t" "?t > term_of ?s \<Longrightarrow> t = ?t" "\<not> ?t > term_of ?s \<Longrightarrow> t = term_of ?s"
    using spec by (auto simp: vote_spec_def Let_def split: if_splits)
  have "fiber_ok n (e_granted e) q s' (fiber c q)"
    using s' le by (intro fiber_ok_quiet [OF implementsD(5) [OF assms]]) (auto split: if_splits)
  then have "fiber_ok n ?G q s' (fiber c q)"
    by (rule fiber_ok_mono [rotated]) auto
  then have "implements n ?c' ?e"
    using s' assms(1) by (intro implements_update [of n c e s' ?e q "fiber c q"]) (auto simp: reply_ok_def)
  then show ?thesis using step unfolding eq by blast
qed

text \<open>The number of votes does not wrap, so an answer has one of four outcomes.\<close>

lemma vote_answer_run:
  assumes "implements n c e" and "good c" and "p < n" and "fiber c p = Electing req votes W"
  shows "RequestVote_response (conf p) (become_leader p) (Ok res :: (RequestVoteResult, unit) Result) votes (nodes c p) =
     (if rvr_term res > term_of (nodes c p) then (Ok votes, step_down (set_term (rvr_term res) None (nodes c p)))
      else if \<not> rvr_vote_granted res then (Ok votes, nodes c p)
      else if Suc votes = MajorityCount (conf p) \<and> state (nodes c p) = Candidate
           then (Ok (Suc votes), snd (become_leader p (nodes c p)))
      else (Ok (Suc votes), nodes c p))"
proof -
  obtain S where S: "S \<subseteq> {..<n} - {p} - W" "votes = Suc (card S)"
    using implementsD(5) [OF assms(1,3)] assms(4) by auto
  have "S \<subset> {..<n}" using S(1) assms(3) by auto
  then have "card S < n" using psubset_card_mono [of "{..<n}" S] by simp
  then have votes: "votes < u64_max" using S(2) small [OF assms(2)] by simp
  have "wf_db s \<Longrightarrow> state s = Candidate \<Longrightarrow> become_leader p s = (Ok (), snd (become_leader p s))" for s
    using lead [of s p] by (metis prod.collapse)
  from RequestVote_response_run [where L = "\<lambda>s. snd (become_leader p s)" and config = "conf p" and v = res,
      OF implementsD(4) [OF assms(1)] votes this] show ?thesis by blast
qed

text \<open>The waiting fiber takes the answer of \<open>q\<close>; the voters counted so far are \<open>S\<close>.\<close>

lemma vote_answer_simulated:
  assumes "implements n c e" and "p < n" and "fiber c p = Electing req votes W" and "q \<in> W"
    and "(q, req, res) \<in> vote_replies c" and "good c"
  shows "\<exists>e'. election_step (majorities n) e e' \<and> implements n
      (run restart p (RequestVote_response (conf p) (become_leader p) (Ok res :: (RequestVoteResult, unit) Result) votes)
        (\<lambda>votes. goto p (Electing req votes (W - {q}))) c) e'"
    (is "\<exists>e'. _ \<and> implements n ?c' e'")
proof -
  let ?s = "nodes c p" and ?L = "\<lambda>s. snd (become_leader p s)" and ?G = "e_granted e"
  note obs = implementsD(1-4) [OF assms(1), of p] and rep = implementsD(6) [OF assms(1,5)]
  have f: "rv_candidate_id req = p" "(p, p, rv_term req) \<in> ?G" "rv_term req \<le> term_of ?s"
    "state ?s = Candidate \<Longrightarrow> term_of ?s = rv_term req" "W \<subseteq> {..<n} - {p}"
    using implementsD(5) [OF assms(1,2)] assms(3) by auto
  obtain S where S: "S \<subseteq> {..<n} - {p} - W" "votes = Suc (card S)" "\<forall>q \<in> S. (q, p, rv_term req) \<in> ?G"
    using implementsD(5) [OF assms(1,2)] assms(3) by auto
  have fin: "finite S" using S(1) by (rule finite_subset) simp
  note resp = vote_answer_run [OF assms(1,6,2,3), of res]
  have q: "q \<notin> S" "q < n" "q \<noteq> p" using S(1) f(5) assms(4) by auto
  have counted: "fiber_ok n ?G p s (Electing req (Suc votes) (W - {q}))"
    if "rvr_vote_granted res" and "rv_term req \<le> term_of s" and "state s = Candidate \<Longrightarrow> term_of s = rv_term req"
    for s :: "('e log_entry_scheme, 'm) node_scheme"
  proof -
    have "insert q S \<subseteq> {..<n} - {p} - (W - {q}) \<and> Suc votes = Suc (card (insert q S)) \<and>
        (\<forall>r \<in> insert q S. (r, p, rv_term req) \<in> ?G)"
      using S q fin rep that(1) f(1) by (auto simp: reply_ok_def)
    then show ?thesis using f that by (simp only: fiber_ok.simps) blast
  qed
  have same: "fiber_ok n ?G p s (Electing req votes (W - {q}))"
    if "rv_term req \<le> term_of s" and "state s = Candidate \<Longrightarrow> term_of s = rv_term req"
    for s :: "('e log_entry_scheme, 'm) node_scheme"
    using S f that by (intro fiber_ok_less) (simp only: fiber_ok.simps, blast)
  have upd: "\<exists>e'. election_step (majorities n) e e' \<and> implements n ?c' e'"
    if "?c' = goto p g (c\<lparr>nodes := (nodes c)(p := s)\<rparr>)" and "wf_db s" and "election_step (majorities n) e e'"
      and "e_term e' = (e_term e)(p := term_of s)" and "e_vote e' = (e_vote e)(p := vote_of s)"
      and "e_role e' = (e_role e)(p := state s)" and "e_granted e' = ?G" and "fiber_ok n ?G p s g"
    for s e' g
    using that implements_update [OF assms(1) that(2,4-6), of g ?c'] by (auto simp: goto_def)
  consider (newer) "rvr_term res > term_of ?s" | (denied) "\<not> rvr_term res > term_of ?s" "\<not> rvr_vote_granted res"
    | (won) "\<not> rvr_term res > term_of ?s" "rvr_vote_granted res" "Suc votes = MajorityCount (conf p)" "state ?s = Candidate"
    | (more) "\<not> rvr_term res > term_of ?s" "rvr_vote_granted res" "\<not> (Suc votes = MajorityCount (conf p) \<and> state ?s = Candidate)"
    by blast
  then show ?thesis
  proof cases
    case newer
    then show ?thesis
      using election_step.new_term [of e p "rvr_term res" "majorities n"] obs f(3)
      by (intro upd [of "Electing req votes (W - {q})" "step_down (set_term (rvr_term res) None ?s)"
          "e\<lparr>e_term := (e_term e)(p := rvr_term res), e_vote := (e_vote e)(p := None),
            e_role := (e_role e)(p := Follower)\<rparr>"])
        (auto simp: run_def resp intro!: same simp del: fiber_ok.simps)
  next
    case denied
    then show ?thesis
      using election_step.idle [of "majorities n" e] obs f(3,4)
      by (intro upd [of "Electing req votes (W - {q})" ?s e])
        (auto simp: run_def resp fun_upd_idem intro!: same simp del: fiber_ok.simps)
  next
    case won
    let ?A = "insert p (insert q S)"
    have "p \<notin> S" using S(1) by auto
    then have "card ?A = Suc votes" using S(2) fin q by simp
    then have A: "?A \<in> majorities n"
      using won(3) S(1) q(2) assms(2) conf_nodes [OF assms(2)] by (auto simp: majorities_def MajorityCount_def)
    have "\<forall>r \<in> ?A. (r, p, e_term e p) \<in> ?G"
      using S(3) f rep won(2,4) obs(1) by (auto simp: reply_ok_def)
    from election_step.elect [OF _ A this] won(4) obs(3)
    have "election_step (majorities n) e (e\<lparr>e_role := (e_role e)(p := Leader),
        e_elected := insert (e_term e p, p) (e_elected e)\<rparr>)" by simp
    moreover have L: "same_db ?s (?L ?s)" "state (?L ?s) = Leader" using lead [OF obs(4) won(4)] by auto
    moreover have "fiber_ok n ?G p (?L ?s) (Electing req (Suc votes) (W - {q}))"
      using won(2) f(3) L same_dbD [OF L(1)] by (intro counted) simp_all
    ultimately show ?thesis
      using obs f(3) won same_dbD [OF L(1)]
      by (intro upd [of "Electing req (Suc votes) (W - {q})" "?L ?s"
          "e\<lparr>e_role := (e_role e)(p := Leader), e_elected := insert (e_term e p, p) (e_elected e)\<rparr>"])
        (auto simp: run_def resp fun_upd_idem simp del: fiber_ok.simps)
  next
    case more
    then show ?thesis
      using election_step.idle [of "majorities n" e] obs f(3,4)
      by (intro upd [of "Electing req (Suc votes) (W - {q})" ?s e])
        (auto simp: run_def resp fun_upd_idem intro!: counted simp del: fiber_ok.simps)
  qed
qed

lemma wake_simulated:
  assumes "implements n c e" and "p < n"
  shows "\<exists>e'. election_step Q e e' \<and> implements n (run restart p StartFollower_wake (\<lambda>_. goto p Loop) c) e'"
    (is "\<exists>e'. _ \<and> implements n ?c' e'")
proof -
  let ?s = "nodes c p"
  note obs = implementsD(1-4) [OF assms(1), of p]
  consider (stopped) "cancelled (reset_election_timeout ?s)"
    | (expired) "\<not> cancelled (reset_election_timeout ?s)" "state ?s = Follower"
    | (abort) "\<not> cancelled (reset_election_timeout ?s)" "state ?s \<noteq> Follower" by blast
  then show ?thesis
  proof cases
    case stopped
    with assms obs show ?thesis
      by (intro quiet_simulated [of n c e p ?s _ Loop])
        (simp_all add: run_def StartFollower_wake_def exec_simps goto_def quiet_refl)
  next
    case expired
    let ?e = "e\<lparr>e_role := (e_role e)(p := Candidate)\<rparr>"
    have "election_step Q e ?e"
      using expired obs(3) by (intro election_step.time_out) simp
    moreover have "implements n ?c' ?e"
      using assms expired obs
      by (intro implements_update [of n c e "candidate_of ?s" ?e p Loop])
        (simp_all add: run_def StartFollower_wake_def exec_simps goto_def fun_upd_idem)
    ultimately show ?thesis by blast
  next
    case abort
    then have "?c' = crash restart p ?s c"
      using obs(4) by (simp add: run_def StartFollower_wake_def exec_simps)
    then show ?thesis
      using crash_simulated [OF assms(1) quiet_refl [OF obs(4)] assms(2)] by simp
  qed
qed

theorem cluster_step_simulated:
  assumes "cluster_step conf n restart become_leader other c c'" and "implements n c e" and "good c"
  shows "\<exists>e'. election_step (majorities n) e e' \<and> implements n c' e'"
  using assms(1)
proof cases
  case (crash p)
  then show ?thesis
    using crash_simulated [OF assms(2), of p] quiet_refl implementsD(4) [OF assms(2)] by blast
next
  case (sleep p)
  have "quiet (nodes c p) (snd (StartFollower (nodes c p)))"
    using implementsD(4) [OF assms(2), of p] by (simp add: StartFollower_def modify_run quiet_def)
  with assms(2) sleep show ?thesis
    by (intro quiet_simulated [of n c e p _ _ Sleeping])
      (simp_all add: run_def StartFollower_def modify_run goto_def)
next
  case (wake p)
  then show ?thesis using wake_simulated [OF assms(2)] by simp
next
  case (campaign p)
  then show ?thesis using campaign_simulated [OF assms(2)] by blast
next
  case (vote_request q req)
  then show ?thesis using vote_request_simulated [OF assms(2)] by blast
next
  case (vote_answer p req votes W q res)
  then show ?thesis using vote_answer_simulated [OF assms(2)] assms(3) by blast
next
  case (vote_error p req votes W q)
  have "fiber_ok n (e_granted e) p (nodes c p) (Electing req votes (W - {q}))"
    using implementsD(5) [OF assms(2), of p] vote_error(2,3) fiber_ok_less by metis
  moreover have "c' = goto p (Electing req votes (W - {q})) c"
    using vote_error(1) by (simp add: run_def RequestVote_response_def ret_run)
  ultimately have "implements n c' e"
    using implementsD(1-4) [OF assms(2), of p]
    by (intro implements_update [OF assms(2), of "nodes c p" e p "Electing req votes (W - {q})"])
      (simp_all add: goto_def fun_upd_idem del: fiber_ok.simps)
  then show ?thesis using election_step.idle by blast
next
  case (election_timeout p req votes W)
  have "quiet (nodes c p) (Stop_stop_election (nodes c p))"
    using implementsD(4) [OF assms(2), of p] by (intro quiet_same same_db_Stop) (simp_all add: Stop_stop_election_def)
  with assms(2) election_timeout show ?thesis
    by (intro quiet_simulated [of n c e p "Stop_stop_election (nodes c p)" _ "fiber c p"])
      (simp_all add: run_def election_timer_def modify_run fun_upd_idem)
next
  case (election_end p req votes)
  with assms(2) show ?thesis
    by (intro quiet_simulated [of n c e p "nodes c p" _ Loop])
      (simp_all add: goto_def quiet_refl implementsD(4))
next
  case other
  from other_quiet [OF this assms(3)] show ?thesis
    using quiet_simulated [OF assms(2)] by metis
qed

lemma electing_crash: "electing (crash restart q s c) p \<Longrightarrow> electing c p"
  by (cases "p = q") (simp_all add: electing_def crash_def goto_def)

lemma electing_step:
  assumes "cluster_step conf n restart become_leader other c c'" and "implements n c e" and "good c"
    and "electing c' p"
  shows "electing c p \<or> term_of (nodes c p) < term_of (nodes c' p)"
  using assms(1)
proof cases
  case (crash q)
  with assms(4) show ?thesis using electing_crash by blast
next
  case (sleep q)
  with assms(4) show ?thesis
    by (cases "p = q") (simp_all add: electing_def run_def StartFollower_def modify_run goto_def)
next
  case (wake q)
  with assms(4) show ?thesis
    by (cases "p = q") (auto simp: electing_def run_def goto_def crash_def split: prod.splits Result.splits)
next
  case (campaign q)
  with assms(4) implementsD(4) [OF assms(2), of q] show ?thesis
  proof (cases "p = q \<and> term_of (nodes c q) < u64_max")
    case True
    with campaign implementsD(4) [OF assms(2), of q] show ?thesis
      by (simp add: run_def StartCandidate_run goto_def)
  qed (auto simp: electing_def run_def goto_def crash_def StartCandidate_def exec_simps split: prod.splits Result.splits)
next
  case (vote_request q req)
  note wf = implementsD(4) [OF assms(2), of q]
  have "fst (RequestVote req (nodes c q)) \<noteq> Err x" "state (snd (RequestVote req (nodes c q))) = Candidate \<longrightarrow> state (nodes c q) = Candidate" for x
    using vote_entry_facts [OF wf, of req] wf by (simp_all add: RequestVote_run Let_def)
  with assms(4) vote_request show ?thesis
    by (intro disjI1 electing_update [OF assms(4), of c q "snd (RequestVote req (nodes c q))" "fiber c q"])
      (auto simp: run_def fun_upd_idem split: prod.splits Result.splits)
next
  case (vote_answer q req votes W r res)
  let ?m = "RequestVote_response (conf q) (become_leader q) (Ok res :: (RequestVoteResult, unit) Result) votes"
  have "state s' = Candidate \<longrightarrow> state (nodes c q) = Candidate" if "?m (nodes c q) = (x, s')" for x s'
    using that vote_answer_run [OF assms(2,3) vote_answer(2,3), of res] implementsD(4) [OF assms(2), of q] by (auto split: if_splits)
  moreover obtain x s where "?m (nodes c q) = (x, s)" by fastforce
  ultimately show ?thesis
    using vote_answer(1,3) assms(4)
    by (cases "p = q") (auto simp: electing_def run_def goto_def crash_def split: Result.splits)
next
  case (vote_error q req votes W r)
  with assms(4) show ?thesis
    by (cases "p = q") (auto simp: electing_def run_def goto_def RequestVote_response_def ret_run)
next
  case (election_timeout q req votes W)
  with assms(4) show ?thesis
    by (cases "p = q") (auto simp: electing_def run_def election_timer_def modify_run Stop_stop_election_def)
next
  case (election_end q req votes)
  with assms(4) show ?thesis
    by (cases "p = q") (simp_all add: electing_def goto_def)
next
  case other
  from other_quiet [OF this assms(3)] obtain q s f where "quiet (nodes c q) s" "nodes c' = (nodes c)(q := s)"
    "fiber c' = (fiber c)(q := f)" "f = fiber c q \<or> (\<forall>req votes W. f \<noteq> Electing req votes W)" by blast
  moreover from this have "state s = Candidate \<longrightarrow> state (nodes c q) = Candidate"
    by (auto simp: quiet_def split: if_splits)
  ultimately show ?thesis using electing_update [OF assms(4)] by blast
qed

lemma unelected_step:
  assumes "cluster_step conf n restart become_leader other c c'" and "implements n c e" and "good c"
    and "election_step (majorities n) e e'" and "implements n c' e'" and "election_inv (majorities n) e"
    and "unelected n c e"
  shows "unelected n c' e'"
  unfolding unelected_def
proof (intro allI impI notI)
  fix p assume p: "p < n" "electing c' p" and el: "(e_term e' p, p) \<in> e_elected e'"
  have "e_role e' p = Candidate" using p(2) implementsD(3) [OF assms(5), of p] by (simp add: electing_def)
  then have old: "(e_term e' p, p) \<in> e_elected e"
    using election_step_elected [OF assms(4) el] by simp
  then have "e_term e' p \<le> e_term e p"
    using assms(6) by (auto simp: election_inv_def won_inv_def)
  then have same: "e_term e' p = e_term e p"
    using election_step_mono(3) [OF assms(4), of p] by simp
  then have "electing c p"
    using electing_step [OF assms(1-3) p(2)] implementsD(1) [OF assms(2), of p] implementsD(1) [OF assms(5), of p] by simp
  then show False using assms(7) p(1) old same by (simp add: unelected_def)
qed

lemma history_step:
  assumes "cluster_step conf n restart become_leader other c c'" and "history n c e" and "good c"
  obtains e' where "election_step (majorities n) e e'" and "history n c' e'"
proof -
  from assms(2) have h: "implements n c e" "election_inv (majorities n) e" "unelected n c e"
    by (simp_all add: history_def)
  from cluster_step_simulated [OF assms(1) h(1) assms(3)] obtain e'
    where "election_step (majorities n) e e'" "implements n c' e'" by blast
  with election_step_inv [OF _ h(2)] unelected_step [OF assms(1) h(1) assms(3) _ _ h(2,3)] that
  show ?thesis by (auto simp: history_def)
qed

lemma history_run:
  assumes "(cluster_step conf n restart become_leader other)\<^sup>*\<^sup>* c c'" and "history n c e" and "good c"
  shows "\<exists>e'. history n c' e' \<and> e_elected e \<subseteq> e_elected e' \<and> good c'"
  using assms(1)
proof (induction rule: rtranclp_induct)
  case base
  then show ?case using assms(2,3) by blast
next
  case (step c1 c2)
  then obtain e1 where e1: "history n c1 e1" "e_elected e \<subseteq> e_elected e1" "good c1" by blast
  from history_step [OF step(2) e1(1,3)] obtain e2 where "election_step (majorities n) e1 e2" "history n c2 e2" .
  with e1 step(2) show ?case using election_step_mono(2) good_step by (meson order_trans)
qed

lemma leaders_of_a_term:
  assumes "(cluster_step conf n restart become_leader other)\<^sup>*\<^sup>* c0 c1"
    and "(cluster_step conf n restart become_leader other)\<^sup>*\<^sup>* c1 c2"
    and "history n c0 e0" and "good c0"
    and "state (nodes c1 p) = Leader" and "state (nodes c2 q) = Leader"
    and "term_of (nodes c1 p) = term_of (nodes c2 q)"
  shows "p = q"
proof -
  obtain e1 where e1: "history n c1 e1" "good c1"
    using history_run [OF assms(1,3,4)] by blast
  then obtain e2 where e2: "history n c2 e2" "e_elected e1 \<subseteq> e_elected e2"
    using history_run [OF assms(2)] by blast
  have i1: "implements n c1 e1" "election_inv (majorities n) e1" and i2: "implements n c2 e2" "election_inv (majorities n) e2"
    using e1(1) e2(1) by (simp_all add: history_def)
  have "(e_term e1 p, p) \<in> e_elected e2"
    using i1 e2(2) assms(5) implementsD(3) [OF i1(1), of p] unfolding election_inv_def by auto
  moreover have "(e_term e2 q, q) \<in> e_elected e2"
    using i2 assms(6) implementsD(3) [OF i2(1), of q] unfolding election_inv_def by auto
  moreover have "e_term e1 p = e_term e2 q"
    using implementsD(1) [OF i1(1)] implementsD(1) [OF i2(1)] assms(7) by simp
  ultimately show ?thesis using majority.one_elected [OF i2(2)] by metis
qed

end

text \<open>The start: every node comes up from its databases as a follower.\<close>

definition started :: "(('e, 'm) node_scheme, 'z) cluster_scheme \<Rightarrow> bool" where
  "started c \<longleftrightarrow> (\<forall>p. wf_db (nodes c p) \<and> state (nodes c p) = Follower \<and> fiber c p = Loop) \<and>
     vote_requests c = {} \<and> vote_replies c = {}"

lemma started_history:
  assumes "started c"
  shows "\<exists>e. history n c e \<and> e_elected e = {}"
proof -
  let ?e = "\<lparr>e_term = (\<lambda>p. term_of (nodes c p)), e_vote = (\<lambda>p. vote_of (nodes c p)),
      e_role = (\<lambda>p. state (nodes c p)), e_granted = {}, e_elected = {}\<rparr>"
  have "history n c ?e"
    using assms by (simp add: history_def unelected_def started_def implements_def election_inv_def votes_inv_def won_inv_def)
  then show ?thesis by auto
qed

section \<open>What elections leave alone\<close>

text \<open>
  Voting and campaigning touch neither the log nor what a leader knows of its followers, and they
  make no node a leader; only \<^verbatim>\<open>BecomeLeader\<close> does.
\<close>

definition frame :: "('e, 'm) node_scheme \<Rightarrow> ('e, 'm) node_scheme \<Rightarrow> bool" where
  "frame s s' \<longleftrightarrow> raft_log s' = raft_log s \<and> commit_index s' = commit_index s \<and>
     match_index s' = match_index s \<and> next_index s' = next_index s \<and>
     current_term_start_index s' = current_term_start_index s \<and> pending_log s' = pending_log s \<and>
     pending_requests s' = pending_requests s \<and> next_request s' = next_request s \<and>
     node.more s' = node.more s \<and> (state s' = Leader \<longrightarrow> state s = Leader)"

lemma frame_refl: "reflp frame"
  by (simp add: reflp_def frame_def)

lemma frame_trans: "transp frame"
  by (simp add: transp_def frame_def)

lemmas frame_intros = keeps_intros frame_refl frame_trans

lemma frame_Stop:
  "frame s (Stop_stop_leader s)" "frame s (Stop_stop_election s)" "frame s (Stop_reset_election_timeout s)"
  by (simp_all add: frame_def Stop_stop_leader_def Stop_stop_election_def
      Stop_reset_election_timeout_def split: prod.splits)

lemma frame_with_state: "keeps frame (with_state m)"
  by (simp add: keeps_def frame_def with_state_def Let_def split: prod.splits)

lemma frame_accessors:
  "keeps frame GetCurrentTerm" "keeps frame GetVotedFor" "keeps frame GetSavedLogSize" "keeps frame GetLastSavedLogTerm"
  unfolding GetCurrentTerm_def GetVotedFor_def GetSavedLogSize_def GetLastSavedLogTerm_def
  by (intro frame_intros)+

lemma frame_UpdateTerm: "keeps frame (UpdateTerm t v)"
  unfolding UpdateTerm_def Let_def expect_ok_def
  by (intro frame_intros frame_accessors frame_with_state)

lemma frame_BecomeFollower: "keeps frame BecomeFollower" "keeps frame BecomeFollower_if_needed"
proof -
  show "keeps frame BecomeFollower"
    unfolding BecomeFollower_def
    by (intro frame_intros frame_accessors keeps_modify frame_Stop) (simp add: frame_def)
  then show "keeps frame BecomeFollower_if_needed"
    unfolding BecomeFollower_if_needed_def by (intro frame_intros)
qed

lemma frame_RequestVote: "keeps frame (RequestVote request)"
  unfolding RequestVote_def Let_def expect_ok_def
  by (intro frame_intros frame_accessors frame_UpdateTerm frame_BecomeFollower frame_with_state)

lemma frame_StartFollower: "keeps frame StartFollower" "keeps frame StartFollower_wake"
  unfolding StartFollower_def StartFollower_wake_def BecomeCandidate_def
  by (intro frame_intros frame_accessors keeps_modify frame_Stop; simp add: frame_def)+

lemma frame_StartCandidate: "keeps frame (StartCandidate config)"
  unfolding StartCandidate_def
  by (intro frame_intros frame_accessors frame_UpdateTerm keeps_modify) (simp add: frame_def)

lemma frame_election_timer: "keeps frame election_timer"
  unfolding election_timer_def by (intro keeps_modify frame_Stop)

lemma wf_elections:
  assumes "wf_db s"
  shows "wf_db (snd (RequestVote request s))" and "wf_db (snd (StartFollower s))"
    and "wf_db (snd (StartFollower_wake s))" and "wf_db (snd (StartCandidate config s))"
    and "wf_db (snd (election_timer s))"
proof -
  show "wf_db (snd (RequestVote request s))"
    using vote_entry_facts [OF assms, of request] assms by (simp add: RequestVote_run Let_def)
  show "wf_db (snd (StartFollower s))" "wf_db (snd (StartFollower_wake s))" "wf_db (snd (election_timer s))"
    using assms same_dbD [OF same_db_Stop(2) [of s]]
    by (simp_all add: StartFollower_def StartFollower_wake_def election_timer_def exec_simps)
  show "wf_db (snd (StartCandidate config s))"
    using assms by (simp add: StartCandidate_def exec_simps)
qed

lemma frame_step_down: "frame s (step_down (set_term t v s))"
  using frame_Stop [of "set_term t v s"] by (simp add: frame_def step_down_def follower_of_def set_term_def split: option.splits)

section \<open>What a leader knows\<close>

text \<open>
  Of a leader: its vectors have the right sizes, the main session, once started, knows the length
  of the log, and a request that is under way starts where the leader thinks the peer's log ends.
\<close>

definition leader_ok ::
  "node_config \<Rightarrow> ('e, 'm) node_scheme \<Rightarrow> main_fiber \<Rightarrow> (nat \<Rightarrow> 'e AppendEntriesRequest option) \<Rightarrow> bool" where
  "leader_ok config s f ss \<longleftrightarrow> leader_inv config s \<and>
     (f = Leading True \<longrightarrow> match_index s ! node_id config = length (raft_log s)) \<and>
     (\<forall>q req. ss q = Some req \<longrightarrow> q < length (cluster_nodes config) \<and> q \<noteq> node_id config \<and>
        ae_prev_log_index req = next_index s ! q - 1 \<and>
        next_index s ! q + length (ae_entries req) \<le> Suc (length (full_log s)))"

definition sessions_ok :: "main_fiber \<Rightarrow> nat \<Rightarrow> (nat \<Rightarrow> nat \<Rightarrow> 'r option) \<Rightarrow> bool" where
  "sessions_ok f ep ss \<longleftrightarrow> (\<forall>i q r. ss i q = Some r \<longrightarrow> i \<le> ep \<and> (i = ep \<longrightarrow> f \<in> {Leading True, Leading False}))"

lemma sessions_ok_end: "sessions_ok f ep ss \<Longrightarrow> sessions_ok f ep (ss(ep := (ss ep)(q := None)))"
  by (auto simp: sessions_ok_def split: if_splits)

lemma leader_ok_end: "leader_ok config s f x \<Longrightarrow> leader_ok config s f (x(q := None))"
  by (simp add: leader_ok_def)

end
