(* ===== verification/Log_Protocol.thy ===== *)
theory Log_Protocol
  imports Raft_Log
begin

text \<open>
  Replicated logs as a protocol between nodes that have only a saved log and, while they lead, a
  term and a log with the entries not saved yet. This is the specification that the
  clusters of Raft and of Metamorphosis nodes implement. The field \<open>r_elected\<close>
  records the leaders of all terms so far, by theory Election.

  The protocol keeps the logs matching: two logs that hold an entry of the same index and term are
  equal up to that index.
\<close>

section \<open>Logs that agree with a history\<close>

text \<open>
  \<open>H t\<close> is the log of the leader of term \<open>t\<close>, with the entries it had not yet
  saved. A log agrees with the history when each of its prefixes is a prefix of the log of the
  leader that created the prefix's last entry.
\<close>

definition log_ok :: "(nat \<Rightarrow> 'e log_entry_scheme list) \<Rightarrow> 'e log_entry_scheme list \<Rightarrow> bool" where
  "log_ok H es \<longleftrightarrow> (\<forall>i < length es. take (Suc i) es = take (Suc i) (H (entry_term (es ! i))))"

lemma log_ok_take:
  assumes "log_ok H es"
  shows "log_ok H (take k es)"
  using assms by (simp add: log_ok_def min_def)

lemma log_ok_same:
  assumes "log_ok H xs" and "log_ok H ys" and "i < length xs" and "i < length ys"
    and "entry_term (xs ! i) = entry_term (ys ! i)"
  shows "take (Suc i) xs = take (Suc i) ys"
  using assms by (simp add: log_ok_def)

lemma log_ok_length:
  assumes "log_ok H es" and "i < length es"
  shows "i < length (H (entry_term (es ! i)))"
proof -
  have "length (take (Suc i) es) = length (take (Suc i) (H (entry_term (es ! i))))"
    using assms by (simp add: log_ok_def)
  then show ?thesis using assms(2) by simp
qed

lemma log_ok_append:
  assumes "log_ok H es"
  shows "log_ok (H(t := H t @ xs)) es"
  unfolding log_ok_def
proof (intro allI impI)
  fix i assume i: "i < length es"
  show "take (Suc i) es = take (Suc i) ((H(t := H t @ xs)) (entry_term (es ! i)))"
    using assms i log_ok_length [OF assms i] by (auto simp: log_ok_def)
qed

lemma log_ok_leader_append:
  assumes "log_ok H (H t)" and "entry_term x = t"
  shows "log_ok (H(t := H t @ [x])) (H t @ [x])"
  unfolding log_ok_def
proof (intro allI impI)
  fix i assume "i < length (H t @ [x])"
  then consider "i < length (H t)" | "i = length (H t)" by fastforce
  then show "take (Suc i) (H t @ [x]) = take (Suc i) ((H(t := H t @ [x])) (entry_term ((H t @ [x]) ! i)))"
  proof cases
    case 1
    then show ?thesis
      using log_ok_append [OF assms(1), of t "[x]"] by (simp add: log_ok_def nth_append)
  qed (simp add: assms(2))
qed

lemma log_ok_new:
  assumes "log_ok H es" and "H t = []"
  shows "log_ok (H(t := xs)) es"
  unfolding log_ok_def
proof (intro allI impI)
  fix i assume i: "i < length es"
  have "entry_term (es ! i) \<noteq> t"
    using log_ok_length [OF assms(1) i] assms(2) by auto
  then show "take (Suc i) es = take (Suc i) ((H(t := xs)) (entry_term (es ! i)))"
    using assms(1) i by (simp add: log_ok_def)
qed

text \<open>A request carries a part of the log of the leader of its term.\<close>

definition segment :: "(nat \<Rightarrow> 'e log_entry_scheme list) \<Rightarrow> 'e log_entry_scheme AppendEntriesRequest \<Rightarrow> bool" where
  "segment H req \<longleftrightarrow>
     (let es = H (ae_term req); prev = ae_prev_log_index req; k = length (ae_entries req)
      in prev + k \<le> length es \<and> ae_entries req = take k (drop prev es) \<and>
         (prev \<noteq> 0 \<longrightarrow> ae_prev_log_term req = entry_term (es ! (prev - 1))))"

lemma segment_append:
  assumes "segment H req"
  shows "segment (H(t := H t @ xs)) req"
  using assms by (auto simp: segment_def Let_def nth_append)

lemma segment_new:
  assumes "segment H req" and "H t = []"
  shows "segment (H(t := xs)) req"
  using assms by (auto simp: segment_def Let_def)

lemma accepted_prefix:
  assumes "log_ok H es" and "log_ok H (H (ae_term req))" and "segment H req" and "log_matches req es"
    and "committed_agree (ae_prev_log_index req) commit (ae_entries req) es" and "commit \<le> length es"
    and "m \<le> max (ae_prev_log_index req) commit" and "m \<le> ae_prev_log_index req + length (ae_entries req)"
  shows "take m es = take m (H (ae_term req))"
proof -
  let ?prev = "ae_prev_log_index req" and ?L = "H (ae_term req)"
  have seg: "?prev + length (ae_entries req) \<le> length ?L" "ae_entries req = take (length (ae_entries req)) (drop ?prev ?L)"
    "?prev \<noteq> 0 \<Longrightarrow> ae_prev_log_term req = entry_term (?L ! (?prev - 1))"
    using assms(3) by (auto simp: segment_def Let_def)
  have prev: "take ?prev es = take ?prev ?L"
  proof (cases "?prev = 0")
    case False
    then have "?prev - 1 < length es" "?prev - 1 < length ?L" using assms(4) seg(1) by (auto simp: log_matches_def)
    then show ?thesis
      using log_ok_same [OF assms(1,2), of "?prev - 1"] False assms(4) seg(3) by (simp add: log_matches_def)
  qed simp
  show ?thesis
  proof (rule nth_equalityI)
    show "length (take m es) = length (take m ?L)"
      using assms(4,6-8) seg(1) by (auto simp: log_matches_def)
    fix i assume "i < length (take m es)"
    then have i: "i < m" "i < length es" by simp_all
    show "take m es ! i = take m ?L ! i"
    proof (cases "i < ?prev")
      case True
      have "take ?prev es ! i = take ?prev ?L ! i" by (simp only: prev)
      with True i show ?thesis by simp
    next
      case False
      then have j: "i - ?prev < length (ae_entries req)" "Suc ?prev + (i - ?prev) \<le> commit"
        using i(1) assms(7,8) by linarith+
      then have "ae_entries req ! (i - ?prev) = es ! i"
        using assms(5) False by (auto simp: committed_agree_def)
      moreover have "ae_entries req ! (i - ?prev) = ?L ! i"
        using j(1) False seg(1) by (subst seg(2)) simp
      ultimately show ?thesis using i by simp
    qed
  qed
qed

lemma log_ok_accepted:
  assumes "log_ok H es" and "log_ok H (H (ae_term req))" and "segment H req" and "log_matches req es"
    and "committed_agree (ae_prev_log_index req) commit (ae_entries req) es" and "commit \<le> length es"
  shows "log_ok H (new_log (ae_prev_log_index req) commit (ae_entries req) es)"
proof -
  let ?prev = "ae_prev_log_index req" and ?L = "H (ae_term req)" and ?m = "max (ae_prev_log_index req) commit"
    and ?k = "length (ae_entries req)"
  show ?thesis
  proof (cases "?prev + ?k \<le> ?m")
    case True
    then show ?thesis using log_ok_take [OF assms(1)] by (simp add: new_log_def)
  next
    case False
    have seg: "ae_entries req = take ?k (drop ?prev ?L)" using assms(3) by (simp add: segment_def Let_def)
    have "drop (?m - ?prev) (ae_entries req) = take (?prev + ?k - ?m) (drop ?m ?L)"
      using False by (subst seg) (simp add: drop_take add.commute)
    moreover have "take ?m es = take ?m ?L"
      using False by (intro accepted_prefix [OF assms]) simp_all
    ultimately have "new_log ?prev commit (ae_entries req) es = take (?m + (?prev + ?k - ?m)) ?L"
      by (simp only: new_log_def take_add)
    then show ?thesis using log_ok_take [OF assms(2)] by simp
  qed
qed

section \<open>The protocol\<close>

record 'e replication =
  r_log :: "nat \<Rightarrow> 'e list"
  r_leads :: "nat \<Rightarrow> (nat \<times> 'e list) option"
  r_sent :: "'e AppendEntriesRequest set"
  r_elected :: "(nat \<times> nat) set"

definition part_of :: "'e log_entry_scheme list \<Rightarrow> 'e log_entry_scheme AppendEntriesRequest \<Rightarrow> bool" where
  "part_of es req \<longleftrightarrow>
     (let prev = ae_prev_log_index req; k = length (ae_entries req)
      in prev + k \<le> length es \<and> ae_entries req = take k (drop prev es) \<and>
         (prev \<noteq> 0 \<longrightarrow> ae_prev_log_term req = entry_term (es ! (prev - 1))))"

inductive log_step :: "'e log_entry_scheme replication \<Rightarrow> 'e log_entry_scheme replication \<Rightarrow> bool" where
  elect: "(\<And>q. (t, q) \<notin> r_elected r) \<Longrightarrow>
    log_step r (r\<lparr>r_leads := (r_leads r)(p := Some (t, r_log r p)), r_elected := insert (t, p) (r_elected r)\<rparr>)"
| resign: "log_step r (r\<lparr>r_leads := (r_leads r)(p := None)\<rparr>)"
| add: "r_leads r p = Some (t, es) \<Longrightarrow> entry_term x = t \<Longrightarrow>
    log_step r (r\<lparr>r_leads := (r_leads r)(p := Some (t, es @ [x]))\<rparr>)"
| save: "r_leads r p = Some (t, es) \<Longrightarrow> log_step r (r\<lparr>r_log := (r_log r)(p := es)\<rparr>)"
| send: "r_leads r p = Some (ae_term req, es) \<Longrightarrow> part_of es req \<Longrightarrow> log_step r (r\<lparr>r_sent := insert req (r_sent r)\<rparr>)"
| accept: "req \<in> r_sent r \<Longrightarrow> log_matches req (r_log r p) \<Longrightarrow> c \<le> length (r_log r p) \<Longrightarrow>
    committed_agree (ae_prev_log_index req) c (ae_entries req) (r_log r p) \<Longrightarrow>
    log_step r (r\<lparr>r_log := (r_log r)(p := new_log (ae_prev_log_index req) c (ae_entries req) (r_log r p)),
      r_leads := (r_leads r)(p := None)\<rparr>)"

inductive_cases log_stepE: "log_step r r'"

text \<open>What the protocol keeps: \<open>H t\<close> is the log of the leader of term \<open>t\<close>.\<close>

definition matching :: "'e log_entry_scheme replication \<Rightarrow> (nat \<Rightarrow> 'e log_entry_scheme list) \<Rightarrow> bool" where
  "matching r H \<longleftrightarrow>
     (\<forall>p. log_ok H (r_log r p)) \<and> (\<forall>t. log_ok H (H t)) \<and>
     (\<forall>p t es. r_leads r p = Some (t, es) \<longrightarrow> es = H t \<and> (t, p) \<in> r_elected r) \<and>
     (\<forall>req \<in> r_sent r. segment H req) \<and>
     (\<forall>t. H t \<noteq> [] \<longrightarrow> (\<exists>p. (t, p) \<in> r_elected r)) \<and>
     (\<forall>t p q. (t, p) \<in> r_elected r \<longrightarrow> (t, q) \<in> r_elected r \<longrightarrow> p = q)"

lemma matchingD:
  assumes "matching r H"
  shows "log_ok H (r_log r p)" and "log_ok H (H t)"
    and "r_leads r p = Some (t, es) \<Longrightarrow> es = H t" and "r_leads r p = Some (t, es) \<Longrightarrow> (t, p) \<in> r_elected r"
    and "req \<in> r_sent r \<Longrightarrow> segment H req" and "H t \<noteq> [] \<Longrightarrow> \<exists>p. (t, p) \<in> r_elected r"
    and "(t, p) \<in> r_elected r \<Longrightarrow> (t, q) \<in> r_elected r \<Longrightarrow> p = q"
  using assms by (auto simp: matching_def)

lemma segment_part_of: "segment H req \<longleftrightarrow> part_of (H (ae_term req)) req"
  by (simp add: segment_def part_of_def Let_def)

lemma matching_elect:
  assumes "matching r H" and "\<And>q. (t, q) \<notin> r_elected r"
  shows "matching (r\<lparr>r_leads := (r_leads r)(p := Some (t, r_log r p)), r_elected := insert (t, p) (r_elected r)\<rparr>)
    (H(t := r_log r p))"
proof -
  note D = matchingD [OF assms(1)]
  have empty: "H t = []" using D(6) [of t] assms(2) by blast
  have old: "t' \<noteq> t" if "r_leads r q = Some (t', es)" for q t' es
    using D(4) [OF that] assms(2) by blast
  have "log_ok (H(t := r_log r p)) es" if "log_ok H es" for es
    using log_ok_new [of H es t "r_log r p"] that empty by blast
  moreover have "segment (H(t := r_log r p)) req" if "req \<in> r_sent r" for req
    using segment_new [of H req t "r_log r p"] D(5) [OF that] empty by blast
  ultimately show ?thesis
    unfolding matching_def using D assms(2) old by (auto split: if_splits)
qed

lemma matching_add:
  assumes "matching r H" and "r_leads r p = Some (t, es)" and "entry_term x = t"
  shows "matching (r\<lparr>r_leads := (r_leads r)(p := Some (t, es @ [x]))\<rparr>) (H(t := H t @ [x]))"
proof -
  note D = matchingD [OF assms(1)]
  have el: "(t, p) \<in> r_elected r" by (rule D(4) [OF assms(2)])
  have "log_ok (H(t := H t @ [x])) es" if "log_ok H es" for es
    using log_ok_append [of H es t "[x]"] that by blast
  moreover have "log_ok (H(t := H t @ [x])) (H t @ [x])"
    by (rule log_ok_leader_append [OF D(2) assms(3)])
  moreover have "segment (H(t := H t @ [x])) req" if "req \<in> r_sent r" for req
    using segment_append [of H req t "[x]"] D(5) [OF that] by blast
  moreover have "t' \<noteq> t" if "r_leads r q = Some (t', es)" "q \<noteq> p" for q t' es
    using D(4) [OF that(1)] D(7) [OF el] that(2) by blast
  ultimately show ?thesis
    unfolding matching_def using D assms(2) el by (auto split: if_splits) blast
qed

theorem log_step_matching:
  assumes "log_step r r'" and "matching r H"
  shows "\<exists>H'. matching r' H'"
  using assms(1)
proof cases
  case (elect t p)
  then show ?thesis using matching_elect [OF assms(2)] by blast
next
  case (resign p)
  then show ?thesis
    using assms(2) by (intro exI [of _ H]) (auto simp: matching_def split: if_splits)
next
  case (add p t es x)
  then show ?thesis using matching_add [OF assms(2)] by blast
next
  case (save p t es)
  have "log_ok H es" using matchingD(2) [OF assms(2), of t] matchingD(3) [OF assms(2) save(2)] by simp
  then have "matching r' H" using assms(2) by (simp add: matching_def save(1))
  then show ?thesis by blast
next
  case (send p req es)
  have "segment H req" using matchingD(3) [OF assms(2) send(2)] send(3) by (simp add: segment_part_of)
  then have "matching r' H" using assms(2) by (simp add: matching_def send(1))
  then show ?thesis by blast
next
  case (accept req p c)
  have "log_ok H (new_log (ae_prev_log_index req) c (ae_entries req) (r_log r p))"
    using matchingD [OF assms(2)] accept by (intro log_ok_accepted) auto
  then show ?thesis
    using assms(2) accept(1) by (intro exI [of _ H]) (auto simp: matching_def split: if_splits)
qed

lemma log_steps_matching:
  assumes "log_step\<^sup>*\<^sup>* r r'" and "matching r H"
  shows "\<exists>H'. matching r' H'"
  using assms by (induction rule: rtranclp_induct) (blast, metis log_step_matching)

lemma matching_same:
  assumes "matching r H" and "i < length (r_log r p)" and "i < length (r_log r q)"
    and "entry_term (r_log r p ! i) = entry_term (r_log r q ! i)"
  shows "take (Suc i) (r_log r p) = take (Suc i) (r_log r q)"
  by (rule log_ok_same [OF matchingD(1) [OF assms(1)] matchingD(1) [OF assms(1)] assms(2-4)])

end
