(* ===== verification/Cluster_Logs.thy ===== *)
theory Cluster_Logs
  imports Cluster Log_Protocol
begin

text \<open>
  The logs of a cluster. The locale \<open>cluster_logs\<close> adds to the contract of theory Cluster what
  log replication needs of a node; there the cluster is shown to implement the protocol of theory
  Log_Protocol, so its logs match. A log is looked at through a function \<open>view\<close> on its
  entries: the identity for Raft, and the function that clears the data for Metamorphosis, whose
  replicas may keep only the hash of an entry.
\<close>

section \<open>Steps and the protocol\<close>

definition log_view ::
  "('e log_entry_scheme \<Rightarrow> 'e log_entry_scheme) \<Rightarrow> 'e log_entry_scheme AppendEntriesRequest set \<Rightarrow>
   (('e log_entry_scheme, 'm) node_scheme, 'z) cluster_scheme \<Rightarrow> election \<Rightarrow> 'e log_entry_scheme replication" where
  "log_view view reqs c e =
     \<lparr>r_log = (\<lambda>p. map view (log_of (nodes c p))),
      r_leads = (\<lambda>p. if state (nodes c p) = Leader then Some (term_of (nodes c p), map view (full_log (nodes c p))) else None),
      r_sent = reqs, r_elected = e_elected e\<rparr>"

text \<open>A candidate becomes the leader; its log is what it had saved.\<close>

definition elected_change :: "('e, 'm) node_scheme \<Rightarrow> ('e, 'm) node_scheme \<Rightarrow> bool" where
  "elected_change s s' \<longleftrightarrow> state s = Candidate \<and> state s' = Leader \<and> log_of s' = log_of s \<and> full_log s' = log_of s \<and>
     term_of s' = term_of s"

text \<open>A leader saves its log or adds an entry; any node accepts a request, or keeps its log.\<close>

definition log_change ::
  "('e log_entry_scheme \<Rightarrow> 'e log_entry_scheme) \<Rightarrow> 'e log_entry_scheme AppendEntriesRequest set \<Rightarrow>
   ('e log_entry_scheme, 'm) node_scheme \<Rightarrow> ('e log_entry_scheme, 'm) node_scheme \<Rightarrow> bool" where
  "log_change view reqs s s' \<longleftrightarrow>
     log_of s' = log_of s \<and> (state s' = Leader \<longrightarrow> state s = Leader \<and> full_log s' = full_log s) \<or>
     state s = Leader \<and> state s' = Leader \<and> log_of s' = full_log s \<and> full_log s' = full_log s \<or>
     state s = Leader \<and> state s' = Leader \<and> log_of s' = log_of s \<and>
       (\<exists>x. full_log s' = full_log s @ [x] \<and> entry_term (view x) = term_of s) \<or>
     state s' = Follower \<and> (\<exists>req \<in> reqs. log_matches req (map view (log_of s)) \<and>
       committed_agree (ae_prev_log_index req) (commit_index s) (ae_entries req) (map view (log_of s)) \<and>
       map view (log_of s') = new_log (ae_prev_log_index req) (commit_index s) (ae_entries req) (map view (log_of s)))"

definition sent_change ::
  "('e log_entry_scheme \<Rightarrow> 'e log_entry_scheme) \<Rightarrow> ('e log_entry_scheme, 'm) node_scheme \<Rightarrow>
   'e log_entry_scheme AppendEntriesRequest set \<Rightarrow> 'e log_entry_scheme AppendEntriesRequest set \<Rightarrow> bool" where
  "sent_change view s reqs reqs' \<longleftrightarrow> reqs' = reqs \<or>
     (\<exists>req. state s = Leader \<and> ae_term req = term_of s \<and> part_of (map view (full_log s)) req \<and> reqs' = insert req reqs)"

definition step_at ::
  "('e log_entry_scheme \<Rightarrow> 'e log_entry_scheme) \<Rightarrow> ((('e log_entry_scheme, 'm) node_scheme, 'z) cluster_scheme \<Rightarrow> 'e log_entry_scheme AppendEntriesRequest set) \<Rightarrow> nat \<Rightarrow>
   (('e log_entry_scheme, 'm) node_scheme, 'z) cluster_scheme \<Rightarrow> (('e log_entry_scheme, 'm) node_scheme, 'z) cluster_scheme \<Rightarrow> bool" where
  "step_at view sent p c c' \<longleftrightarrow> (\<forall>q. q \<noteq> p \<longrightarrow> nodes c' q = nodes c q) \<and>
     sent_change view (nodes c p) (sent c) (sent c') \<and>
     (electing c p \<and> elected_change (nodes c p) (nodes c' p) \<or>
      log_change view (sent c) (nodes c p) (nodes c' p) \<and>
        (state (nodes c' p) = Leader \<longrightarrow> term_of (nodes c' p) = term_of (nodes c p)))"

lemma frame_step_at:
  assumes "frame (nodes c p) s" and "nodes c' = (nodes c)(p := s)" and "sent c' = sent c"
    and "state s = Leader \<Longrightarrow> term_of s = term_of (nodes c p)"
  shows "step_at view sent p c c'"
  using assms by (auto simp: step_at_def sent_change_def log_change_def frame_def full_log_def log_of_def)

lemma history_elected:
  assumes "history n c e" and "state (nodes c p) = Leader"
  shows "(term_of (nodes c p), p) \<in> e_elected e"
  using assms implementsD(1,3) [of n c e p] unfolding history_def election_inv_def by metis

text \<open>Sending comes first, then the change of the node.\<close>

lemma sent_log_step:
  assumes "sent_change view (nodes c p) reqs reqs'"
  shows "log_step\<^sup>*\<^sup>* (log_view view reqs c e) (log_view view reqs' c e)"
proof -
  have "log_step (log_view view reqs c e) (log_view view (insert req reqs) c e)"
    if "state (nodes c p) = Leader" "ae_term req = term_of (nodes c p)" "part_of (map view (full_log (nodes c p))) req" for req
    using log_step.send [of "log_view view reqs c e" p req "map view (full_log (nodes c p))"] that by (simp add: log_view_def)
  with assms show ?thesis by (auto simp: sent_change_def)
qed

lemma log_view_eqI:
  assumes "\<And>q. q \<noteq> p \<Longrightarrow> nodes c' q = nodes c q"
    and "\<And>q. q \<noteq> p \<Longrightarrow> r_log r q = r_log (log_view view reqs c e) q" and "\<And>q. q \<noteq> p \<Longrightarrow> r_leads r q = r_leads (log_view view reqs c e) q"
    and "r_log r p = map view (log_of (nodes c' p))" and "r_leads r p = r_leads (log_view view reqs c' e') p"
    and "r_sent r = reqs" and "r_elected r = e_elected e'"
  shows "log_view view reqs c' e' = (r :: 'e log_entry_scheme replication)"
proof -
  have "r_log (log_view view reqs c' e') q = r_log r q" "r_leads (log_view view reqs c' e') q = r_leads r q" for q
    using assms by (cases "q = p"; simp add: log_view_def)+
  then show ?thesis using assms(6,7) by (intro replication.equality) (auto simp: log_view_def)
qed

lemma same_elected:
  assumes "election_step Q e e'" and "implements n c e" and "implements n c' e'"
    and "\<And>q. state (nodes c' q) = Leader \<Longrightarrow> state (nodes c q) = Candidate \<Longrightarrow> (term_of (nodes c' q), q) \<in> E"
    and "E \<subseteq> e_elected e'"
  shows "e_elected e' = e_elected e \<union> E"
proof -
  have "(t, q) \<in> e_elected e \<union> E" if "(t, q) \<in> e_elected e'" for t q
    using election_step_elected [OF assms(1) that] assms(4) [of q] implementsD(1,3) [OF assms(2), of q]
      implementsD(1,3) [OF assms(3), of q] by auto
  then show ?thesis using election_step_mono(2) [OF assms(1)] assms(5) by auto
qed

lemma elected_log_step:
  assumes "step_at view sent p c c'" and "election_step (majorities n) e e'" and "history n c e" and "history n c' e'"
    and "electing c p" and "elected_change (nodes c p) (nodes c' p)" and "p < n"
  shows "log_step (log_view view reqs c e) (log_view view reqs c' e')"
proof -
  let ?s = "nodes c p" and ?s' = "nodes c' p" and ?t = "term_of (nodes c p)" and ?r = "log_view view reqs c e"
  have other: "\<And>q. q \<noteq> p \<Longrightarrow> nodes c' q = nodes c q" using assms(1) by (simp add: step_at_def)
  have ch: "state ?s' = Leader" "log_of ?s' = log_of ?s" "full_log ?s' = log_of ?s" "term_of ?s' = ?t"
    using assms(6) by (simp_all add: elected_change_def)
  have h: "implements n c e" "unelected n c e" "implements n c' e'" "election_inv (majorities n) e'"
    using assms(3,4) by (simp_all add: history_def)
  have el: "(?t, p) \<in> e_elected e'" using history_elected [OF assms(4) ch(1)] ch(4) by simp
  have "(?t, p) \<notin> e_elected e"
    using h(2) assms(5,7) implementsD(1) [OF h(1), of p] by (metis unelected_def)
  then have un: "(?t, q) \<notin> e_elected e" for q
    using majority.one_elected [OF h(4) el, of q] election_step_mono(2) [OF assms(2)] by blast
  have "e_elected e' = e_elected e \<union> {(?t, p)}"
  proof (rule same_elected [OF assms(2) h(1,3)])
    show "(term_of (nodes c' q), q) \<in> {(?t, p)}" if "state (nodes c' q) = Leader" "state (nodes c q) = Candidate" for q
      using that other [of q] ch(4) by (cases "q = p") auto
  qed (use el in simp)
  then have "log_view view reqs c' e' = ?r\<lparr>r_leads := (r_leads ?r)(p := Some (?t, r_log ?r p)),
      r_elected := insert (?t, p) (r_elected ?r)\<rparr>"
    using ch by (intro log_view_eqI [where c = c and e = e, OF other]) (auto simp: log_view_def)
  moreover have "(?t, q) \<notin> r_elected ?r" for q using un by (simp add: log_view_def)
  ultimately show ?thesis using log_step.elect [of ?t ?r p] by simp
qed

lemma changed_log_step:
  assumes "step_at view sent p c c'" and "election_step (majorities n) e e'" and "history n c e" and "history n c' e'"
    and "log_change view reqs (nodes c p) (nodes c' p)" and "commit_index (nodes c p) \<le> length (log_of (nodes c p))"
    and same: "state (nodes c' p) = Leader \<longrightarrow> term_of (nodes c' p) = term_of (nodes c p)"
    and sub: "reqs \<subseteq> reqs'"
  shows "log_step\<^sup>*\<^sup>* (log_view view reqs' c e) (log_view view reqs' c' e')"
proof -
  let ?s = "nodes c p" and ?s' = "nodes c' p" and ?r = "log_view view reqs' c e"
  have other: "\<And>q. q \<noteq> p \<Longrightarrow> nodes c' q = nodes c q" using assms(1) by (simp add: step_at_def)
  have h: "implements n c e" "implements n c' e'" using assms(3,4) by (simp_all add: history_def)
  have "state ?s' = Leader \<Longrightarrow> state ?s = Leader" using assms(5) unfolding log_change_def by auto
  then have "state (nodes c' q) = Leader \<Longrightarrow> state (nodes c q) = Candidate \<Longrightarrow> (term_of (nodes c' q), q) \<in> {}" for q
    using other [of q] by (cases "q = p") auto
  from same_elected [OF assms(2) h this] have el: "e_elected e' = e_elected e" by simp
  note eqI = log_view_eqI [where c = c and e = e, OF other]
  from assms(5) consider
      (no) "log_of ?s' = log_of ?s" "state ?s' = Leader \<longrightarrow> state ?s = Leader \<and> full_log ?s' = full_log ?s"
    | (saved) "state ?s = Leader" "state ?s' = Leader" "log_of ?s' = full_log ?s" "full_log ?s' = full_log ?s"
    | (added) x where "state ?s = Leader" "state ?s' = Leader" "log_of ?s' = log_of ?s"
        "full_log ?s' = full_log ?s @ [x]" "entry_term (view x) = term_of ?s"
    | (accepted) req where "state ?s' = Follower" "req \<in> reqs" "log_matches req (map view (log_of ?s))"
        "committed_agree (ae_prev_log_index req) (commit_index ?s) (ae_entries req) (map view (log_of ?s))"
        "map view (log_of ?s') = new_log (ae_prev_log_index req) (commit_index ?s) (ae_entries req) (map view (log_of ?s))"
    unfolding log_change_def by blast
  then show ?thesis
  proof cases
    case no
    show ?thesis
    proof (cases "state ?s' = Leader")
      case True
      with no same have "log_view view reqs' c' e' = ?r"
        by (intro eqI) (auto simp: log_view_def el)
      then show ?thesis by simp
    next
      case False
      with no have "log_view view reqs' c' e' = ?r\<lparr>r_leads := (r_leads ?r)(p := None)\<rparr>"
        by (intro eqI) (auto simp: log_view_def el)
      then show ?thesis using log_step.resign [of ?r p] by auto
    qed
  next
    case saved
    with same have "log_view view reqs' c' e' = ?r\<lparr>r_log := (r_log ?r)(p := map view (full_log ?s))\<rparr>"
      by (intro eqI) (auto simp: log_view_def el)
    then show ?thesis using log_step.save [of ?r p] saved(1) by (auto simp: log_view_def)
  next
    case added
    with same have "log_view view reqs' c' e' =
        ?r\<lparr>r_leads := (r_leads ?r)(p := Some (term_of ?s, map view (full_log ?s) @ [view x]))\<rparr>"
      by (intro eqI) (auto simp: log_view_def el)
    moreover have "r_leads ?r p = Some (term_of ?s, map view (full_log ?s))" using added(1) by (simp add: log_view_def)
    ultimately show ?thesis using log_step.add [of ?r p "term_of ?s" _ "view x"] added(5) by auto
  next
    case accepted
    then have "log_view view reqs' c' e' = ?r\<lparr>r_log := (r_log ?r)(p :=
        new_log (ae_prev_log_index req) (commit_index ?s) (ae_entries req) (r_log ?r p)), r_leads := (r_leads ?r)(p := None)\<rparr>"
      by (intro eqI) (auto simp: log_view_def el)
    then show ?thesis
      using log_step.accept [of req ?r p "commit_index ?s"] accepted sub assms(6) by (auto simp: log_view_def)
  qed
qed

lemma step_at_log_steps:
  assumes "step_at view sent p c c'" and "election_step (majorities n) e e'" and "history n c e" and "history n c' e'"
    and "commit_index (nodes c p) \<le> length (log_of (nodes c p))" and "p < n"
  shows "log_step\<^sup>*\<^sup>* (log_view view (sent c) c e) (log_view view (sent c') c' e')"
proof -
  have sent: "sent_change view (nodes c p) (sent c) (sent c')"
    using assms(1) by (simp add: step_at_def)
  then have sub: "sent c \<subseteq> sent c'" by (auto simp: sent_change_def)
  have "log_step\<^sup>*\<^sup>* (log_view view (sent c') c e) (log_view view (sent c') c' e')"
    using elected_log_step [OF assms(1-4) _ _ assms(6)] changed_log_step [OF assms(1-4) _ assms(5) _ sub] assms(1)
    unfolding step_at_def by blast
  with sent_log_step [OF sent, of e] show ?thesis by (rule rtranclp_trans)
qed

section \<open>The contract of a node with a log\<close>

locale cluster_logs = cluster_node +
  fixes view :: "'a log_entry_scheme \<Rightarrow> 'a log_entry_scheme"
    and sent :: "(('a log_entry_scheme, 'b) node_scheme, 'c) cluster_scheme \<Rightarrow> 'a log_entry_scheme AppendEntriesRequest set"
  assumes sent_more: "cluster.more c' = cluster.more c \<Longrightarrow> sent c' = sent c"
    and restart_log: "wf_db s \<Longrightarrow> log_of (restart s) = log_of s"
    and lead_log: "wf_db s \<Longrightarrow> state s = Candidate \<Longrightarrow>
      log_of (snd (become_leader p s)) = log_of s \<and> full_log (snd (become_leader p s)) = log_of s"
    and commit_saved: "good c \<Longrightarrow> commit_index (nodes c p) \<le> length (log_of (nodes c p))"
    and other_logs: "other c c' \<Longrightarrow> good c \<Longrightarrow> \<exists>p < n. step_at view sent p c c'"
begin

lemma restart_step_at:
  assumes "wf_db s" and "log_of s = log_of (nodes c p)"
  shows "step_at view sent p c (crash restart p s c)"
proof -
  have "sent (crash restart p s c) = sent c"
    by (rule sent_more) (simp add: crash_def goto_def)
  then show ?thesis
    using assms restart_db [OF assms(1)] restart_log [OF assms(1)]
    by (simp add: step_at_def sent_change_def log_change_def) (simp add: crash_def goto_def)
qed

lemma frame_run_step_at:
  assumes "keeps frame m" and "wf_db (snd (m (nodes c p)))"
    and "\<And>x s. m (nodes c p) = (Ok x, s) \<Longrightarrow> frame (nodes c p) s \<Longrightarrow> state s = Leader \<Longrightarrow> term_of s = term_of (nodes c p)"
    and "\<And>x c. nodes (k x c) = nodes c" and "\<And>x c. cluster.more (k x c) = cluster.more c"
  shows "step_at view sent p c (run restart p m k c)"
proof (rule run_rule)
  fix x s assume m: "m (nodes c p) = (Ok x, s)"
  show "step_at view sent p c (k x (c\<lparr>nodes := (nodes c)(p := s)\<rparr>))"
    using keepsD [OF assms(1) m] assms(3) [OF m keepsD [OF assms(1) m]] assms(4,5) by (intro frame_step_at [where s = s] sent_more) simp_all
next
  fix e s assume m: "m (nodes c p) = (Err e, s)"
  show "step_at view sent p c (crash restart p s c)"
    using keepsD [OF assms(1) m] assms(2) m by (intro restart_step_at) (simp_all add: frame_def log_of_def)
qed

lemma vote_answer_step_at:
  assumes "implements n c e" and "good c" and "p < n" and "fiber c p = Electing req votes W"
  shows "step_at view sent p c (run restart p
      (RequestVote_response (conf p) (become_leader p) (Ok res :: (RequestVoteResult, unit) Result) votes)
      (\<lambda>votes. goto p (Electing req votes (W - {q}))) c)"
proof -
  let ?s = "nodes c p"
  have wf: "wf_db ?s" by (rule implementsD(4) [OF assms(1)])
  note resp = vote_answer_run [OF assms, of res]
  consider (newer) "rvr_term res > term_of ?s"
    | (won) "\<not> rvr_term res > term_of ?s" "rvr_vote_granted res" "Suc votes = MajorityCount (conf p)" "state ?s = Candidate"
    | (more) "\<not> rvr_term res > term_of ?s" "\<not> (rvr_vote_granted res \<and> Suc votes = MajorityCount (conf p) \<and> state ?s = Candidate)"
    by blast
  then show ?thesis
  proof cases
    case newer
    then show ?thesis
      using wf by (intro frame_step_at [OF frame_step_down] sent_more) (simp_all add: run_def resp goto_def)
  next
    case won
    let ?c = "goto p (Electing req (Suc votes) (W - {q})) (c\<lparr>nodes := (nodes c)(p := snd (become_leader p ?s))\<rparr>)"
    have "sent ?c = sent c" by (rule sent_more) (simp add: goto_def)
    moreover have "elected_change ?s (nodes ?c p)" "electing c p"
      using lead [OF wf won(4), of p] lead_log [OF wf won(4), of p] assms(4) won(4)
      by (auto simp: elected_change_def electing_def goto_def dest: same_dbD)
    ultimately have "step_at view sent p c ?c"
      by (simp add: step_at_def sent_change_def) (simp add: goto_def)
    then show ?thesis using won by (simp add: run_def resp)
  next
    case more
    then show ?thesis
      by (intro frame_step_at [where s = ?s] sent_more) (auto simp: run_def resp goto_def frame_def)
  qed
qed

lemma cluster_step_at:
  assumes "cluster_step conf n restart become_leader other c c'" and "implements n c e" and "good c"
  shows "\<exists>p < n. step_at view sent p c c'"
proof -
  have wf: "wf_db (nodes c p)" for p by (rule implementsD(4) [OF assms(2)])
  from assms(1) show ?thesis
  proof cases
    case (crash p)
    then show ?thesis using restart_step_at [OF wf refl] by blast
  next
    case (sleep p)
    have "step_at view sent p c c'" unfolding sleep(1)
      by (rule frame_run_step_at [OF frame_StartFollower(1) wf_elections(2) [OF wf]])
        (simp_all add: goto_def StartFollower_def modify_run)
    with sleep(2) show ?thesis by blast
  next
    case (wake p)
    have "step_at view sent p c c'" unfolding wake(1)
      by (rule frame_run_step_at [OF frame_StartFollower(2) wf_elections(3) [OF wf]])
        (auto simp: goto_def StartFollower_wake_def exec_simps wf split: if_splits)
    with wake(2) show ?thesis by blast
  next
    case (campaign p)
    have "step_at view sent p c c'" unfolding campaign(1)
      by (rule frame_run_step_at [OF frame_StartCandidate wf_elections(4) [OF wf]])
        (use campaign(4) in \<open>simp_all add: goto_def frame_def split: prod.splits\<close>)
    with campaign(2) show ?thesis by blast
  next
    case (vote_request q req)
    have "state (snd (RequestVote req (nodes c q))) = Leader \<Longrightarrow> term_of (snd (RequestVote req (nodes c q))) = term_of (nodes c q)"
      using vote_entry_facts [OF wf, of req q] wf [of q] by (simp add: RequestVote_run Let_def split: if_splits)
    then have "step_at view sent q c c'" unfolding vote_request(1)
      by (intro frame_run_step_at [OF frame_RequestVote wf_elections(1) [OF wf]]) simp_all
    with vote_request(2) show ?thesis by blast
  next
    case (vote_answer p req votes W q res)
    then show ?thesis using vote_answer_step_at [OF assms(2,3)] by blast
  next
    case (vote_error p req votes W q)
    then show ?thesis
      by (intro exI [of _ p] conjI frame_step_at [OF reflpD [OF frame_refl]] sent_more)
        (simp_all add: run_def RequestVote_response_def ret_run goto_def)
  next
    case (election_timeout p req votes W)
    have "step_at view sent p c c'" unfolding election_timeout(1)
      by (rule frame_run_step_at [OF frame_election_timer wf_elections(5) [OF wf]])
        (simp_all add: election_timer_def modify_run Stop_stop_election_def)
    with election_timeout(2) show ?thesis by blast
  next
    case (election_end p req votes)
    then show ?thesis
      by (intro exI [of _ p] conjI frame_step_at [OF reflpD [OF frame_refl]] sent_more) (simp_all add: goto_def)
  next
    case other
    then show ?thesis using other_logs assms(3) by blast
  qed
qed

text \<open>Every run of the cluster is a run of the protocol, seen through \<open>view\<close>.\<close>

lemma cluster_logs_simulated:
  assumes "(cluster_step conf n restart become_leader other)\<^sup>*\<^sup>* c c'" and "history n c e" and "good c"
  shows "good c' \<and> (\<exists>e'. history n c' e' \<and> log_step\<^sup>*\<^sup>* (log_view view (sent c) c e) (log_view view (sent c') c' e'))"
  using assms(1)
proof (induction rule: rtranclp_induct)
  case base
  then show ?case using assms(2,3) by blast
next
  case (step c1 c2)
  then obtain e1 where 1: "good c1" "history n c1 e1"
    "log_step\<^sup>*\<^sup>* (log_view view (sent c) c e) (log_view view (sent c1) c1 e1)" by blast
  have "implements n c1 e1" using 1(2) by (simp add: history_def)
  from cluster_step_at [OF step(2) this 1(1)] obtain p where p: "p < n" "step_at view sent p c1 c2" by blast
  from history_step [OF step(2) 1(2,1)] obtain e2 where e2: "election_step (majorities n) e1 e2" "history n c2 e2" .
  from step_at_log_steps [OF p(2) e2(1) 1(2) e2(2) commit_saved [OF 1(1)] p(1)] 1(3) e2(2) good_step [OF step(2) 1(1)]
  show ?case by (blast intro: rtranclp_trans)
qed

lemma logs_matching:
  assumes "(cluster_step conf n restart become_leader other)\<^sup>*\<^sup>* c c'" and "history n c e" and "good c"
    and "e_elected e = {}" and "sent c = {}" and "\<And>p. log_of (nodes c p) = [] \<and> state (nodes c p) = Follower"
  shows "\<exists>e' H'. matching (log_view view (sent c') c' e') H'"
proof -
  have "matching (log_view view (sent c) c e) (\<lambda>_. [])"
    by (simp add: matching_def log_view_def assms(4-6) log_ok_def)
  then show ?thesis using cluster_logs_simulated [OF assms(1-3)] log_steps_matching by blast
qed

lemma logs_match:
  assumes "(cluster_step conf n restart become_leader other)\<^sup>*\<^sup>* c c'" and "history n c e" and "good c"
    and "e_elected e = {}" and "sent c = {}" and "\<And>p. log_of (nodes c p) = [] \<and> state (nodes c p) = Follower"
    and "i < length (log_of (nodes c' p))" and "i < length (log_of (nodes c' q))"
    and "entry_term (view (log_of (nodes c' p) ! i)) = entry_term (view (log_of (nodes c' q) ! i))"
  shows "map view (take (Suc i) (log_of (nodes c' p))) = map view (take (Suc i) (log_of (nodes c' q)))"
proof -
  from logs_matching [OF assms(1-6)] obtain e' H' where "matching (log_view view (sent c') c' e') H'" by blast
  from matching_same [OF this, of i p q] assms(7-9) show ?thesis
    by (simp add: log_view_def take_map)
qed

end

end
