(* ===== verification/Replica_Cluster.thy ===== *)
theory Replica_Cluster
  imports Cluster_Logs
begin

text \<open>
  What a cluster of nodes with replicated logs needs to meet the contracts of theories Cluster and Cluster_Logs. The Raft node and the Metamorphosis node
  differ in their state and in some of their operations; the sessions of a leader, the invariant of a cluster and the way a step of
  one node is seen by the cluster are the same, and are treated here once.

  The locale \<open>replica\<close> has the restart of a node and an invariant of its own that the node promises to keep; the locale
  \<open>replica_steps\<close> adds the steps of the cluster. It gives the contract \<open>cluster_logs\<close>.
\<close>

section \<open>State\<close>

text \<open>
  Requests and replies stay available once sent. A session is the call of
  \<^verbatim>\<open>AppendEntries\<close> a leader waits for, by leader, incarnation of its process and peer; a client call is
  what the handler returned when it suspended.
\<close>

record ('n, 'r, 'k) replicas = "'n cluster" +
  append_requests :: "'r set"
  append_replies :: "(nat \<times> 'r \<times> AppendEntriesResult) set"
  session :: "nat \<Rightarrow> nat \<Rightarrow> nat \<Rightarrow> 'r option"
  calls :: "(nat \<times> nat \<times> 'k) set"

definition set_session ::
  "nat \<Rightarrow> nat \<Rightarrow> 'r option \<Rightarrow> ('n, 'r, 'k, 'z) replicas_scheme \<Rightarrow> ('n, 'r, 'k, 'z) replicas_scheme" where
  "set_session p q r c =
     c\<lparr>session := (session c)(p := (session c p)(incarnation c p := (session c p (incarnation c p))(q := r)))\<rparr>"

text \<open>A request as it is compared: the entries seen through \<open>view\<close>.\<close>

definition view_request :: "('e \<Rightarrow> 'e) \<Rightarrow> 'e AppendEntriesRequest \<Rightarrow> 'e AppendEntriesRequest" where
  "view_request view req = req\<lparr>ae_entries := map view (ae_entries req)\<rparr>"

lemma view_request_id [simp]: "view_request id req = req" "view_request id ` R = R"
  by (simp_all add: view_request_def image_def)

lemma view_request_simps [simp]:
  "ae_prev_log_index (view_request view req) = ae_prev_log_index req" "ae_prev_log_term (view_request view req) = ae_prev_log_term req"
  "ae_entries (view_request view req) = map view (ae_entries req)" "ae_term (view_request view req) = ae_term req"
  by (simp_all add: view_request_def)

section \<open>Invariant\<close>

definition peer_ok ::
  "(('e, 'm) node_scheme \<Rightarrow> bool) \<Rightarrow> node_config \<Rightarrow> ('e, 'm) node_scheme \<Rightarrow> main_fiber \<Rightarrow> nat \<Rightarrow>
   (nat \<Rightarrow> nat \<Rightarrow> 'e AppendEntriesRequest option) \<Rightarrow> bool" where
  "peer_ok legal config s f ep ss \<longleftrightarrow> legal s \<and> (state s = Leader \<longrightarrow> leader_ok config s f (ss ep)) \<and> sessions_ok f ep ss"

definition small_request :: "'e AppendEntriesRequest \<Rightarrow> bool" where
  "small_request req \<longleftrightarrow> ae_prev_log_index req + length (ae_entries req) < u64_max"

definition replicas_ok ::
  "(('e, 'm) node_scheme \<Rightarrow> bool) \<Rightarrow> (nat \<Rightarrow> node_config) \<Rightarrow> nat \<Rightarrow>
   (('e, 'm) node_scheme, 'e AppendEntriesRequest, 'k, 'z) replicas_scheme \<Rightarrow> bool" where
  "replicas_ok legal conf n c \<longleftrightarrow> n < u64_max \<and> (\<forall>p. legal (nodes c p)) \<and>
     (\<forall>p < n. peer_ok legal (conf p) (nodes c p) (fiber c p) (incarnation c p) (session c p)) \<and>
     (\<forall>req \<in> append_requests c. small_request req)"

text \<open>A step of one node: how its logs change, and what it may send.\<close>

definition node_step ::
  "(('e log_entry_scheme, 'm) node_scheme \<Rightarrow> bool) \<Rightarrow> (nat \<Rightarrow> node_config) \<Rightarrow> ('e log_entry_scheme \<Rightarrow> 'e log_entry_scheme) \<Rightarrow> nat \<Rightarrow>
   (('e log_entry_scheme, 'm) node_scheme, 'e log_entry_scheme AppendEntriesRequest, 'k, 'z) replicas_scheme \<Rightarrow>
   (('e log_entry_scheme, 'm) node_scheme, 'e log_entry_scheme AppendEntriesRequest, 'k, 'z) replicas_scheme \<Rightarrow> bool" where
  "node_step legal conf view p c c' \<longleftrightarrow>
     (\<exists>s f ep ss. nodes c' = (nodes c)(p := s) \<and> fiber c' = (fiber c)(p := f) \<and>
        incarnation c' = (incarnation c)(p := ep) \<and> session c' = (session c)(p := ss) \<and>
        peer_ok legal (conf p) s f ep ss \<and> quiet (nodes c p) s \<and>
        (f = fiber c p \<or> f \<in> {Loop, Leading True, Leading False}) \<and>
        log_change view (view_request view ` append_requests c) (nodes c p) s) \<and>
     vote_replies c' = vote_replies c \<and>
     (append_requests c' = append_requests c \<or>
      (\<exists>req. state (nodes c p) = Leader \<and> ae_term req = term_of (nodes c p) \<and>
         part_of (map view (full_log (nodes c p))) (view_request view req) \<and> small_request req \<and>
         append_requests c' = insert req (append_requests c)))"

lemma node_step_at:
  assumes "node_step legal conf view p c c'"
  shows "step_at view (\<lambda>c. view_request view ` append_requests c) p c c'"
proof -
  from assms obtain s where s: "nodes c' = (nodes c)(p := s)" "quiet (nodes c p) s"
    "log_change view (view_request view ` append_requests c) (nodes c p) s"
    unfolding node_step_def by blast
  have "state s = Leader \<longrightarrow> term_of s = term_of (nodes c p)"
    using s(2) by (auto simp: quiet_def split: if_splits)
  moreover have "sent_change view (nodes c p) (view_request view ` append_requests c) (view_request view ` append_requests c')"
    using assms unfolding node_step_def sent_change_def by (metis image_insert view_request_simps(4))
  ultimately show ?thesis using s unfolding step_at_def by auto
qed

text \<open>How a log changes when entries are accepted, seen through the view.\<close>

lemma log_change_accepted:
  assumes "req \<in> reqs" and "log_matches req (log_of s)" and "state s' = Follower" and "\<And>e. entry_term (view e) = entry_term e"
    and "committed_agree (ae_prev_log_index req) (commit_index s) (ae_entries req) (log_of s)"
    and "log_of s' = new_log (ae_prev_log_index req) (commit_index s) (ae_entries req) (log_of s)"
    and "commit_index s \<le> length (log_of s)"
  shows "log_change view (view_request view ` reqs) s s'"
proof -
  have m: "log_matches (view_request view req) (map view (log_of s))"
    using assms(2,4) by (auto simp: log_matches_def)
  have le: "ae_prev_log_index req \<le> length (log_of s)" using assms(2) by (simp add: log_matches_def)
  have "committed_agree (ae_prev_log_index req) (commit_index s) (map view (ae_entries req)) (map view (log_of s))"
    using assms(5,7) le by (auto simp: committed_agree_def)
  moreover have "map view (log_of s') = new_log (ae_prev_log_index req) (commit_index s) (map view (ae_entries req)) (map view (log_of s))"
    using assms(6) by (simp add: new_log_def take_map drop_map)
  ultimately show ?thesis
    using assms(1,3) m unfolding log_change_def by (intro disjI2 conjI bexI [where x = "view_request view req"]) simp_all
qed

text \<open>A node that appends nothing and accepts nothing keeps its log; a leader may save what it has pending.\<close>

definition log_kept :: "('e, 'm) node_scheme \<Rightarrow> ('e, 'm) node_scheme \<Rightarrow> bool" where
  "log_kept s s' \<longleftrightarrow>
     log_of s' = log_of s \<and> (state s' = Leader \<longrightarrow> state s = Leader \<and> full_log s' = full_log s) \<or>
     state s = Leader \<and> state s' = Leader \<and> log_of s' = full_log s \<and> full_log s' = full_log s"

lemma log_kept_change: "log_kept s s' \<Longrightarrow> log_change view R s s'"
  by (auto simp: log_kept_def log_change_def)

section \<open>A node\<close>

locale replica =
  fixes conf :: "nat \<Rightarrow> node_config" and n :: nat
    and restart :: "('e log_entry_scheme, 'm) node_scheme \<Rightarrow> ('e log_entry_scheme, 'm) node_scheme"
    and legal :: "('e log_entry_scheme, 'm) node_scheme \<Rightarrow> bool"
    and view :: "'e log_entry_scheme \<Rightarrow> 'e log_entry_scheme"
  assumes config_id: "p < n \<Longrightarrow> node_id (conf p) = p"
    and config_nodes: "p < n \<Longrightarrow> length (cluster_nodes (conf p)) = n"
    and legal_db: "legal s \<Longrightarrow> wf_db s \<and> commit_index s \<le> length (raft_log s) \<and> length (raft_log s) < u64_max"
    and legal_frame: "legal s \<Longrightarrow> frame s s' \<Longrightarrow> wf_db s' \<Longrightarrow> legal s'"
    and legal_restart: "wf_db s \<Longrightarrow> length (raft_log s) < u64_max \<Longrightarrow> legal (restart s)"
    and restart_facts: "wf_db s \<Longrightarrow> wf_db (restart s) \<and> term_of (restart s) = term_of s \<and> vote_of (restart s) = vote_of s \<and>
      log_of (restart s) = log_of s \<and> state (restart s) = Follower"
    and restart_same: "same_db s s' \<Longrightarrow> restart s' = restart s"
    and legal_sessions: "legal s \<Longrightarrow> legal (s\<lparr>next_index := ns, match_index := ms, pending_log := es\<rparr>)"
    and view_term: "entry_term (view e) = entry_term e"
begin

abbreviation ok :: "(('e log_entry_scheme, 'm) node_scheme, 'e log_entry_scheme AppendEntriesRequest, 'k, 'z) replicas_scheme \<Rightarrow> bool" where
  "ok \<equiv> replicas_ok legal conf n"

abbreviation sent :: "(('e log_entry_scheme, 'm) node_scheme, 'e log_entry_scheme AppendEntriesRequest, 'k, 'z) replicas_scheme \<Rightarrow>
    'e log_entry_scheme AppendEntriesRequest set" where
  "sent c \<equiv> view_request view ` append_requests c"

abbreviation pstep :: "nat \<Rightarrow> (('e log_entry_scheme, 'm) node_scheme, 'e log_entry_scheme AppendEntriesRequest, 'k, 'z) replicas_scheme \<Rightarrow>
    (('e log_entry_scheme, 'm) node_scheme, 'e log_entry_scheme AppendEntriesRequest, 'k, 'z) replicas_scheme \<Rightarrow> bool" where
  "pstep \<equiv> node_step legal conf view"

lemma peer_okD:
  assumes "peer_ok legal config s f ep ss"
  shows "legal s" and "wf_db s" and "sessions_ok f ep ss"
    and "state s = Leader \<Longrightarrow> leader_ok config s f (ss ep)"
    and "state s = Leader \<Longrightarrow> leader_inv config s"
    and "commit_index s \<le> length (raft_log s)" and "length (raft_log s) < u64_max"
  using assms legal_db [of s] by (auto simp: peer_ok_def leader_ok_def)

lemma peer_ok_not_leader:
  assumes "legal s" and "state s \<noteq> Leader" and "sessions_ok f ep ss"
  shows "peer_ok legal config s f ep ss"
  using assms by (simp add: peer_ok_def)

lemma okD:
  assumes "ok c"
  shows "legal (nodes c p)" and "wf_db (nodes c p)"
    and "p < n \<Longrightarrow> peer_ok legal (conf p) (nodes c p) (fiber c p) (incarnation c p) (session c p)"
    and "req \<in> append_requests c \<Longrightarrow> small_request req"
  using assms legal_db [of "nodes c p"] by (auto simp: replicas_ok_def)

lemma ok_update:
  assumes "ok c" and "p < n"
    and "nodes c' = (nodes c)(p := s)" and "fiber c' = (fiber c)(p := f)" and "incarnation c' = (incarnation c)(p := ep)"
    and "session c' = (session c)(p := ss)" and "peer_ok legal (conf p) s f ep ss"
    and "\<And>req. req \<in> append_requests c' \<Longrightarrow> req \<in> append_requests c \<or> small_request req"
  shows "ok c'"
  unfolding replicas_ok_def
proof (intro conjI allI ballI impI)
  show "n < u64_max" using assms(1) by (simp add: replicas_ok_def)
  show "legal (nodes c' q)" for q
    using assms(1,3,7) by (simp add: replicas_ok_def peer_ok_def)
  show "peer_ok legal (conf q) (nodes c' q) (fiber c' q) (incarnation c' q) (session c' q)" if "q < n" for q
    using assms(1,3-7) that by (simp add: replicas_ok_def)
  show "small_request req" if "req \<in> append_requests c'" for req
    using assms(8) [OF that] assms(1) by (auto simp: replicas_ok_def)
qed

lemma peer_ok_frame:
  assumes "peer_ok legal config s f ep ss" and "frame s s'" and "wf_db s'"
    and "f' = f \<or> (\<forall>b. f \<noteq> Leading b \<and> f' \<noteq> Leading b)"
  shows "peer_ok legal config s' f' ep ss"
proof -
  have "leader_inv config s' = leader_inv config s" and "full_log s' = full_log s"
    using assms(2) by (simp_all add: frame_def leader_inv_def full_log_def log_of_def)
  then have "leader_ok config s' f' x = leader_ok config s f' x" for x
    using assms(2) by (simp add: leader_ok_def frame_def)
  moreover have "leader_ok config s f x \<Longrightarrow> leader_ok config s f' x" for x
    using assms(4) by (auto simp only: leader_ok_def)
  moreover have "state s' = Leader \<Longrightarrow> state s = Leader" using assms(2) by (simp add: frame_def)
  moreover have "legal s'"
    using assms(1-3) legal_frame by (auto simp only: peer_ok_def)
  moreover have "sessions_ok f' ep ss"
    using assms(1,4) unfolding peer_ok_def sessions_ok_def by blast
  ultimately show ?thesis
    using assms(1) by (simp add: peer_ok_def)
qed

lemma peer_ok_restart:
  assumes "peer_ok legal config s f ep ss" and "wf_db s'" and "length (raft_log s') < u64_max"
  shows "peer_ok legal config (restart s') Loop (Suc ep) ss"
proof -
  have "sessions_ok Loop (Suc ep) ss"
    using assms(1) unfolding peer_ok_def sessions_ok_def by (metis Suc_n_not_le_n le_SucI)
  then show ?thesis
    using restart_facts [OF assms(2)] legal_restart [OF assms(2,3)] by (simp add: peer_ok_def)
qed

lemma crash_ok:
  assumes "ok c" and "p < n" and "wf_db s" and "length (raft_log s) < u64_max"
  shows "ok (crash restart p s c)"
  using peer_ok_restart [OF okD(3) [OF assms(1,2)] assms(3,4)]
  by (intro ok_update [OF assms(1,2)]) (simp_all add: crash_def goto_def fun_upd_idem)

text \<open>Steps of an election.\<close>

lemma frame_ok:
  assumes "ok c" and "p < n" and "frame (nodes c p) s" and "wf_db s"
    and "nodes c' = (nodes c)(p := s)" and "fiber c' = (fiber c)(p := f)" and "incarnation c' = incarnation c"
    and "session c' = session c" and "append_requests c' = append_requests c"
    and "f = fiber c p \<or> (\<forall>b. fiber c p \<noteq> Leading b \<and> f \<noteq> Leading b)"
  shows "ok c'"
  using assms(5-9) peer_ok_frame [OF okD(3) [OF assms(1,2)] assms(3,4,10)]
  by (intro ok_update [OF assms(1,2)]) (simp_all add: fun_upd_idem)

lemma frame_run_ok:
  assumes "ok c" and "p < n" and "keeps frame m" and "wf_db (snd (m (nodes c p)))"
    and "\<And>x s. m (nodes c p) = (Ok x, s) \<Longrightarrow> frame (nodes c p) s \<Longrightarrow> wf_db s \<Longrightarrow>
      ok (k x (c\<lparr>nodes := (nodes c)(p := s)\<rparr>))"
  shows "ok (run restart p m k c)"
proof (rule run_rule)
  fix x s assume m: "m (nodes c p) = (Ok x, s)"
  show "ok (k x (c\<lparr>nodes := (nodes c)(p := s)\<rparr>))"
    using keepsD [OF assms(3) m] assms(4) m by (intro assms(5)) simp_all
next
  fix e s assume m: "m (nodes c p) = (Err e, s)"
  have "length (raft_log s) < u64_max"
    using keepsD [OF assms(3) m] legal_db [OF okD(1) [OF assms(1), of p]] by (simp add: frame_def)
  then show "ok (crash restart p s c)"
    using assms(4) m by (intro crash_ok [OF assms(1,2)]) simp_all
qed

text \<open>Steps that leave the log to the node.\<close>

lemma pstepI:
  assumes "nodes c' = (nodes c)(p := s)" and "fiber c' = (fiber c)(p := f)"
    and "incarnation c' = (incarnation c)(p := ep)" and "session c' = (session c)(p := ss)"
    and "peer_ok legal (conf p) s f ep ss" and "quiet (nodes c p) s"
    and "f = fiber c p \<or> f \<in> {Loop, Leading True, Leading False}"
    and "log_change view (sent c) (nodes c p) s"
    and "vote_replies c' = vote_replies c" and "append_requests c' = append_requests c"
  shows "pstep p c c'"
  using assms unfolding node_step_def by blast

lemma quiet_restart:
  assumes "quiet s0 s"
  shows "quiet s0 (restart s)"
proof -
  have "wf_db s" using assms by (simp add: quiet_def)
  from restart_facts [OF this] assms show ?thesis
    by (auto simp: quiet_def split: if_splits)
qed

lemma crash_pstep:
  assumes "ok c" and "p < n" and "quiet (nodes c p) s" and "length (raft_log s) < u64_max"
    and "log_change view (sent c) (nodes c p) (restart s)"
  shows "pstep p c (crash restart p s c)"
proof -
  have wf: "wf_db s" using assms(3) by (simp add: quiet_def)
  show ?thesis
    using assms(5) quiet_restart [OF assms(3)] peer_ok_restart [OF okD(3) [OF assms(1,2)] wf assms(4)]
    by (intro pstepI [where f = Loop and s = "restart s" and ss = "session c p"])
      (simp_all add: crash_def goto_def)
qed

text \<open>Most operations abort, if at all, with the databases as they were.\<close>

lemma crash_same_pstep:
  assumes "ok c" and "p < n" and "same_db (nodes c p) s"
  shows "pstep p c (crash restart p s c)"
proof -
  note wf = okD(2) [OF assms(1), of p]
  have "pstep p c (crash restart p (nodes c p) c)"
    using wf legal_db [OF okD(1) [OF assms(1), of p]] restart_facts [OF wf]
    by (intro crash_pstep [OF assms(1,2)]) (simp_all add: quiet_refl log_change_def)
  then show ?thesis by (simp add: crash_def restart_same [OF assms(3)])
qed

lemma op_pstep:
  assumes "ok c" and "p < n"
    and "\<And>x s. m (nodes c p) = (Ok x, s) \<Longrightarrow> peer_ok legal (conf p) s f (incarnation c p) ss \<and> quiet (nodes c p) s \<and>
      log_change view (sent c) (nodes c p) s"
    and "\<And>e s. m (nodes c p) = (Err e, s) \<Longrightarrow> same_db (nodes c p) s"
    and "\<And>x s c0. c0 = c\<lparr>nodes := (nodes c)(p := s)\<rparr> \<Longrightarrow> nodes (k x c0) = nodes c0 \<and> fiber (k x c0) = (fiber c)(p := f) \<and>
      incarnation (k x c0) = incarnation c \<and> session (k x c0) = (session c)(p := ss) \<and>
      vote_replies (k x c0) = vote_replies c \<and> append_requests (k x c0) = append_requests c"
    and "f = fiber c p \<or> f \<in> {Loop, Leading True, Leading False}"
  shows "pstep p c (run restart p m k c)"
proof (rule run_rule [where P = "pstep p c"])
  fix x s assume "m (nodes c p) = (Ok x, s)"
  with assms(3,6) assms(5) [OF refl, of x s] show "pstep p c (k x (c\<lparr>nodes := (nodes c)(p := s)\<rparr>))"
    by (intro pstepI [where s = s and f = f and ss = ss and ep = "incarnation c p"]) (simp_all add: fun_upd_idem)
next
  fix e s assume "m (nodes c p) = (Err e, s)"
  with assms(4) show "pstep p c (crash restart p s c)" by (intro crash_same_pstep [OF assms(1,2)])
qed

lemma goto_pstep:
  assumes "ok c" and "p < n" and "fiber c p = Loop" and "nodes c' = nodes c" and "fiber c' = (fiber c)(p := Leading False)"
    and "incarnation c' = incarnation c" and "session c' = session c" and "vote_replies c' = vote_replies c" and "append_requests c' = append_requests c"
  shows "pstep p c c'"
proof -
  note peer = okD(3) [OF assms(1,2)]
  have "sessions_ok (Leading False) (incarnation c p) (session c p)"
    using peer_okD(3) [OF peer] unfolding sessions_ok_def by blast
  moreover have "leader_ok (conf p) (nodes c p) Loop x \<Longrightarrow> leader_ok (conf p) (nodes c p) (Leading False) x" for x
    by (simp add: leader_ok_def)
  ultimately have "peer_ok legal (conf p) (nodes c p) (Leading False) (incarnation c p) (session c p)"
    using peer assms(3) by (simp add: peer_ok_def)
  then show ?thesis
    using okD(2) [OF assms(1), of p] assms(4-)
    by (intro pstepI [where s = "nodes c p" and f = "Leading False" and ss = "session c p" and ep = "incarnation c p"])
      (simp_all add: quiet_refl log_change_def fun_upd_idem)
qed

text \<open>The main session, and its end.\<close>

lemma written_ok:
  assumes "peer_ok legal config s (Leading True) ep ss" and "state s = Leader" and "legal s'" and "state s' = Leader"
    and "log_of s' = full_log s" and "full_log s' = full_log s" and "next_index s' = next_index s"
    and "match_index s' = (match_index s)[node_id config := length (full_log s)]"
  shows "peer_ok legal config s' (Leading True) ep ss"
proof -
  have "length (raft_log s') = length (full_log s)" using assms(5) by (metis length_log_of)
  then have "leader_ok config s' (Leading True) (ss ep)"
    using peer_okD(4) [OF assms(1,2)] assms(6-8) unfolding leader_ok_def leader_inv_full by simp
  then show ?thesis using assms(1,3) by (simp add: peer_ok_def)
qed

lemma main_start_ok:
  assumes "peer_ok legal config s (Leading False) ep ss"
  shows "peer_ok legal config (s\<lparr>match_index := (match_index s)[node_id config := length (raft_log s)]\<rparr>) (Leading True) ep ss"
proof -
  let ?s = "s\<lparr>match_index := (match_index s)[node_id config := length (raft_log s)]\<rparr>"
  have "legal ?s" using legal_sessions [OF peer_okD(1) [OF assms], where ns = "next_index s" and es = "pending_log s"] by simp
  moreover have "state s = Leader \<Longrightarrow> leader_ok config ?s (Leading True) (ss ep)"
    using peer_okD(4) [OF assms] by (simp add: leader_ok_def leader_inv_full full_log_def)
  moreover have "sessions_ok (Leading True) ep ss" using peer_okD(3) [OF assms] by (simp add: sessions_ok_def)
  ultimately show ?thesis by (simp add: peer_ok_def)
qed

lemma resign_pstep:
  assumes "ok c" and "p < n" and "state (nodes c p) \<noteq> Leader" and "\<And>q. session c p (incarnation c p) q = None"
  shows "pstep p c (run restart p (modify (pending_log_update (\<lambda>_. []))) (\<lambda>_. goto p Loop) c)"
proof (rule op_pstep [OF assms(1,2), where f = Loop and ss = "session c p"])
  fix x s assume "modify (pending_log_update (\<lambda>_. [])) (nodes c p) = (Ok x, s)"
  then have s: "s = nodes c p\<lparr>pending_log := []\<rparr>" by (simp add: modify_run)
  have "legal s" unfolding s
    using legal_sessions [OF okD(1) [OF assms(1), of p], where ns = "next_index (nodes c p)" and ms = "match_index (nodes c p)" and es = "[]"] by simp
  moreover have "sessions_ok Loop (incarnation c p) (session c p)"
    using peer_okD(3) [OF okD(3) [OF assms(1,2)]] assms(4) unfolding sessions_ok_def by (metis option.distinct(1))
  ultimately show "peer_ok legal (conf p) s Loop (incarnation c p) (session c p) \<and> quiet (nodes c p) s \<and> log_change view (sent c) (nodes c p) s"
    using assms(3) okD(2) [OF assms(1), of p] by (auto simp: s quiet_def log_change_def intro: peer_ok_not_leader)
qed (simp_all add: modify_run goto_def)

text \<open>A session with a peer: the request.\<close>

lemma send_pstep:
  assumes "ok c" and "p < n" and "fiber c p = Leading b" and "q < n" and "q \<noteq> p"
    and "m (nodes c p) = (Ok None, nodes c p) \<or> (\<exists>e. m (nodes c p) = (Err e, nodes c p)) \<or>
      (\<exists>req. m (nodes c p) = (Ok (Some req), nodes c p) \<and> state (nodes c p) = Leader \<and> ae_term req = term_of (nodes c p) \<and>
         part_of (map view (full_log (nodes c p))) (view_request view req) \<and> ae_prev_log_index req = next_index (nodes c p) ! q - 1)"
  shows "pstep p c (run restart p m
      (\<lambda>r c. case r of None \<Rightarrow> c
         | Some req \<Rightarrow> (set_session p q (Some req) c)\<lparr>append_requests := insert req (append_requests c)\<rparr>) c)"
  using assms(6)
proof (elim disjE exE conjE)
  let ?s = "nodes c p" and ?ep = "incarnation c p"
  note peer = okD(3) [OF assms(1,2), unfolded assms(3)]
  fix req assume req: "m ?s = (Ok (Some req), ?s)" "state ?s = Leader" "ae_term req = term_of ?s"
    "part_of (map view (full_log ?s)) (view_request view req)" "ae_prev_log_index req = next_index ?s ! q - 1"
  have q: "q < length (cluster_nodes (conf p))" "q \<noteq> node_id (conf p)"
    using assms(2,4,5) config_id config_nodes by simp_all
  have "1 \<le> next_index ?s ! q" "length (full_log ?s) < u64_max"
    using peer_okD(5) [OF peer req(2)] q(1) by (simp_all add: leader_inv_full)
  moreover have "ae_prev_log_index req + length (ae_entries req) \<le> length (full_log ?s)"
    using req(4) by (simp add: part_of_def Let_def)
  ultimately have len: "next_index ?s ! q + length (ae_entries req) \<le> Suc (length (full_log ?s))" and small: "small_request req"
    using req(5) by (auto simp: small_request_def)
  have "leader_ok (conf p) ?s (Leading b) ((session c p ?ep)(q := Some req))"
    using peer_okD(4) [OF peer req(2)] q len req(5) by (simp add: leader_ok_def)
  moreover have "sessions_ok (Leading b) ?ep ((session c p)(?ep := (session c p ?ep)(q := Some req)))"
    using peer_okD(3) [OF peer] by (cases b) (auto simp: sessions_ok_def)
  ultimately have sess: "peer_ok legal (conf p) ?s (Leading b) ?ep ((session c p)(?ep := (session c p ?ep)(q := Some req)))"
    using peer_okD(1) [OF peer] by (simp add: peer_ok_def)
  have "pstep p c ((set_session p q (Some req) (c\<lparr>nodes := (nodes c)(p := ?s)\<rparr>))\<lparr>append_requests := insert req (append_requests c)\<rparr>)"
    unfolding node_step_def
  proof (intro conjI exI disjI2)
    show "peer_ok legal (conf p) ?s (Leading b) ?ep ((session c p)(?ep := (session c p ?ep)(q := Some req)))" by (rule sess)
    show "small_request req" by (rule small)
  qed (use req assms(3) okD(2) [OF assms(1), of p] in \<open>simp_all add: set_session_def quiet_refl log_change_def fun_upd_idem\<close>)
  then show ?thesis using req(1) by (simp add: run_def)
next
  assume "m (nodes c p) = (Ok None, nodes c p)"
  then show ?thesis
    using okD(2) [OF assms(1), of p] okD(3) [OF assms(1,2)]
    by (simp add: run_def) (intro pstepI [where s = "nodes c p" and f = "fiber c p" and ss = "session c p" and ep = "incarnation c p"],
        simp_all add: quiet_refl log_change_def)
next
  fix e assume "m (nodes c p) = (Err e, nodes c p)"
  then show ?thesis
    using crash_same_pstep [OF assms(1,2), of "nodes c p"] by (simp add: run_def same_db_def)
qed

text \<open>The follower.\<close>

lemma deliver_pstep:
  assumes "ok c" and "q < n" and "req \<in> append_requests c"
    and "\<And>r s. m (nodes c q) = (r, s) \<Longrightarrow> legal s \<and> quiet (nodes c q) s \<and>
      (s = nodes c q \<or> state s = Follower \<and> (log_of s = log_of (nodes c q) \<or>
        log_matches req (log_of (nodes c q)) \<and>
        committed_agree (ae_prev_log_index req) (commit_index (nodes c q)) (ae_entries req) (log_of (nodes c q)) \<and>
        log_of s = new_log (ae_prev_log_index req) (commit_index (nodes c q)) (ae_entries req) (log_of (nodes c q))))"
  shows "pstep q c (run restart q m (\<lambda>res c. c\<lparr>append_replies := insert (q, req, res) (append_replies c)\<rparr>) c)"
proof -
  note peer = okD(3) [OF assms(1,2)]
  have change: "log_change view (sent c) (nodes c q) s'"
    if "m (nodes c q) = (r, s)" "s' = s \<or> state s' = Follower \<and> log_of s' = log_of s" for r s s'
    using assms(4) [OF that(1)] that(2) log_change_accepted [OF assms(3), of "nodes c q" s' view] view_term
      legal_db [OF okD(1) [OF assms(1), of q]]
    by (auto simp: log_change_def)
  show ?thesis
  proof (rule run_rule [where P = "pstep q c"])
    fix x s assume m: "m (nodes c q) = (Ok x, s)"
    have "peer_ok legal (conf q) s (fiber c q) (incarnation c q) (session c q)"
      using assms(4) [OF m] peer peer_okD(3) [OF peer] peer_ok_not_leader [of s] by auto
    then show "pstep q c ((c\<lparr>nodes := (nodes c)(q := s)\<rparr>)
        \<lparr>append_replies := insert (q, req, x) (append_replies (c\<lparr>nodes := (nodes c)(q := s)\<rparr>))\<rparr>)"
      using assms(4) [OF m] change [OF m]
      by (intro pstepI [where s = s and f = "fiber c q" and ss = "session c q" and ep = "incarnation c q"]) (simp_all add: fun_upd_idem)
  next
    fix e s assume m: "m (nodes c q) = (Err e, s)"
    then show "pstep q c (crash restart q s c)"
      using assms(4) [OF m] legal_db [of s] restart_facts [of s] change [OF m, of "restart s"]
      by (intro crash_pstep [OF assms(1,2)]) simp_all
  qed
qed

text \<open>The answer of the peer; the session ends with it.\<close>

lemma peer_ok_end: "peer_ok legal config s f ep ss \<Longrightarrow> peer_ok legal config s f ep (ss(ep := (ss ep)(q := None)))"
  by (auto simp: peer_ok_def sessions_ok_end leader_ok_end)

lemma next_index_ok:
  assumes "peer_ok legal config s f ep ss" and "state s = Leader" and "q \<noteq> node_id config"
    and "1 \<le> v" and "v \<le> Suc (length (full_log s))" and "ss ep q = None"
  shows "peer_ok legal config (s\<lparr>next_index := (next_index s)[q := v]\<rparr>) f ep ss"
proof -
  let ?s = "s\<lparr>next_index := (next_index s)[q := v]\<rparr>"
  have "full_log ?s = full_log s" by (simp add: full_log_def)
  moreover have "next_index ?s ! r = (if r = q \<and> q < length (next_index s) then v else next_index s ! r)" for r
    by (cases "r = q"; cases "q < length (next_index s)") (simp_all add: list_update_beyond)
  ultimately have "leader_ok config ?s f (ss ep)"
    using peer_okD(4) [OF assms(1,2)] assms(3-6) unfolding leader_ok_def leader_inv_full by auto
  moreover have "legal ?s" using legal_sessions [OF peer_okD(1) [OF assms(1)], where ms = "match_index s" and es = "pending_log s"] by simp
  ultimately show ?thesis using peer_okD(3) [OF assms(1)] by (simp add: peer_ok_def)
qed

lemma match_index_ok:
  assumes "peer_ok legal config s f ep ss" and "q \<noteq> node_id config"
  shows "peer_ok legal config (s\<lparr>match_index := (match_index s)[q := v]\<rparr>) f ep ss"
proof -
  let ?s = "s\<lparr>match_index := (match_index s)[q := v]\<rparr>"
  have "full_log ?s = full_log s" by (simp add: full_log_def)
  then have "leader_ok config s f x \<Longrightarrow> leader_ok config ?s f x" for x
    using assms(2) unfolding leader_ok_def leader_inv_full by simp
  moreover have "legal ?s" using legal_sessions [OF peer_okD(1) [OF assms(1)], where ns = "next_index s" and es = "pending_log s"] by simp
  ultimately show ?thesis using assms(1) by (simp add: peer_ok_def)
qed

lemma set_term_ok:
  assumes "peer_ok legal config s f ep ss" and "t > term_of s"
  shows "peer_ok legal config (step_down (set_term t None s)) f ep ss"
    and "quiet s (step_down (set_term t None s))" and "log_of (step_down (set_term t None s)) = log_of s"
proof -
  let ?s = "step_down (set_term t None s)"
  note wf = peer_okD(2) [OF assms(1)]
  have fr: "frame s ?s" by (rule frame_step_down)
  show "peer_ok legal config ?s f ep ss"
    using peer_ok_frame [OF assms(1) fr] wf by simp
  show "quiet s ?s" "log_of ?s = log_of s"
    using wf assms(2) by (simp_all add: quiet_def log_of_def)
qed

lemma peer_matched_ok:
  assumes "peer_ok legal config s f ep ss" and "state s = Leader" and "ss ep q = Some req"
  shows "peer_ok legal config (peer_matched q req s) f ep (ss(ep := (ss ep)(q := None)))"
proof -
  let ?ss = "ss(ep := (ss ep)(q := None))"
  let ?s1 = "s\<lparr>match_index := (match_index s)[q := ae_prev_log_index req + length (ae_entries req)]\<rparr>"
  note ended = peer_ok_end [OF assms(1), of q]
  have q: "q \<noteq> node_id config" "next_index s ! q + length (ae_entries req) \<le> Suc (length (full_log s))" "1 \<le> next_index s ! q"
    using peer_okD(4) [OF assms(1,2)] assms(3) unfolding leader_ok_def leader_inv_full by auto
  have "peer_ok legal config (?s1\<lparr>next_index := (next_index ?s1)[q := next_index s ! q + length (ae_entries req)]\<rparr>) f ep ?ss"
    using assms(2) q by (intro next_index_ok match_index_ok [OF ended q(1)]) (simp_all add: full_log_def)
  then show ?thesis by (simp add: peer_matched_def)
qed

lemma answer_pstep:
  assumes "ok c" and "p < n" and "session c p (incarnation c p) q = Some req"
    and "(\<exists>x s. m (nodes c p) = (Ok x, s) \<and>
       peer_ok legal (conf p) s (fiber c p) (incarnation c p) ((session c p)(incarnation c p := (session c p (incarnation c p))(q := None))) \<and>
       quiet (nodes c p) s \<and> log_kept (nodes c p) s) \<or>
     (\<exists>e s. m (nodes c p) = (Err e, s) \<and> same_db (nodes c p) s)"
    and "\<And>x c0. nodes (k x c0) = nodes c0 \<and> fiber (k x c0) = fiber c0 \<and> incarnation (k x c0) = incarnation c0 \<and>
      session (k x c0) = session (set_session p q None c0) \<and> vote_replies (k x c0) = vote_replies c0 \<and> append_requests (k x c0) = append_requests c0"
  shows "pstep p c (run restart p m k c)"
proof (rule op_pstep [OF assms(1,2), where f = "fiber c p" and
      ss = "(session c p)(incarnation c p := (session c p (incarnation c p))(q := None))"])
  fix x s assume "m (nodes c p) = (Ok x, s)"
  then have s: "peer_ok legal (conf p) s (fiber c p) (incarnation c p) ((session c p)(incarnation c p := (session c p (incarnation c p))(q := None)))"
      "quiet (nodes c p) s" "log_change view (sent c) (nodes c p) s"
    using assms(4) by (auto intro: log_kept_change)
  then show "peer_ok legal (conf p) s (fiber c p) (incarnation c p)
        ((session c p)(incarnation c p := (session c p (incarnation c p))(q := None))) \<and> quiet (nodes c p) s \<and>
      log_change view (sent c) (nodes c p) s" by simp
qed (use assms(4,5) in \<open>auto simp: set_session_def\<close>)

end

section \<open>The steps of a cluster\<close>

locale replica_steps = replica +
  fixes become_leader :: "nat \<Rightarrow> (('a log_entry_scheme, 'b) node_scheme, unit) exec"
    and other :: "(('a log_entry_scheme, 'b) node_scheme, 'a log_entry_scheme AppendEntriesRequest, 'k, 'z) replicas_scheme \<Rightarrow>
      (('a log_entry_scheme, 'b) node_scheme, 'a log_entry_scheme AppendEntriesRequest, 'k, 'z) replicas_scheme \<Rightarrow> bool"
  assumes becomes_leader: "wf_db s \<Longrightarrow> state s = Candidate \<Longrightarrow> fst (become_leader p s) = Ok () \<and> same_db s (snd (become_leader p s)) \<and>
      state (snd (become_leader p s)) = Leader \<and> full_log (snd (become_leader p s)) = log_of s"
    and lead_legal: "legal s \<Longrightarrow> p < n \<Longrightarrow> state s = Candidate \<Longrightarrow>
      legal (snd (become_leader p s)) \<and> leader_inv (conf p) (snd (become_leader p s))"
    and other_pstep: "other c c' \<Longrightarrow> ok c \<Longrightarrow> \<exists>p < n. pstep p c c'"
begin

lemma vote_response_cases:
  assumes "wf_db s"
  shows "\<exists>x s'. RequestVote_response config (become_leader p) r votes s = (Ok x, s') \<and>
     (s' = snd (become_leader p s) \<and> state s = Candidate \<or> frame s s' \<and> wf_db s')"
proof (cases r)
  case (Ok v)
  obtain s1 where "state s = Candidate \<longrightarrow> become_leader p s = (Ok (), s1)"
    using becomes_leader [OF assms, of p] by (metis prod.collapse)
  then show ?thesis
    using frame_step_down [of s] assms reflpD [OF frame_refl, of s]
    by (auto simp: Ok RequestVote_response_def exec_simps Let_def)
next
  case (Err e)
  then show ?thesis
    using assms reflpD [OF frame_refl, of s] by (simp add: RequestVote_response_def ret_run)
qed

lemma vote_response_ok:
  assumes "ok c" and "p < n" and "fiber c p = Electing req votes W"
  shows "ok (run restart p (RequestVote_response (conf p) (become_leader p) r votes) (\<lambda>votes. goto p (Electing req votes (W - {q}))) c)"
proof -
  obtain x s where out: "RequestVote_response (conf p) (become_leader p) r votes (nodes c p) = (Ok x, s)"
    and s: "s = snd (become_leader p (nodes c p)) \<and> state (nodes c p) = Candidate \<or> frame (nodes c p) s \<and> wf_db s"
    using vote_response_cases [OF okD(2) [OF assms(1), of p]] by blast
  note peer = okD(3) [OF assms(1,2), unfolded assms(3)]
  have none: "session c p (incarnation c p) q = None" for q
    using peer_okD(3) [OF peer] unfolding sessions_ok_def by (metis empty_iff insert_iff main_fiber.distinct(11) not_None_eq)
  have "peer_ok legal (conf p) s (Electing req x (W - {q})) (incarnation c p) (session c p)"
    using s
  proof
    assume "s = snd (become_leader p (nodes c p)) \<and> state (nodes c p) = Candidate"
    then have "legal s" "leader_inv (conf p) s" using lead_legal [OF peer_okD(1) [OF peer] assms(2)] by auto
    moreover have "sessions_ok (Electing req x (W - {q})) (incarnation c p) (session c p)"
      using peer_okD(3) [OF peer] unfolding sessions_ok_def by blast
    ultimately show ?thesis using none by (simp add: peer_ok_def leader_ok_def)
  next
    assume "frame (nodes c p) s \<and> wf_db s"
    then show ?thesis using peer_ok_frame [OF peer, of s "Electing req x (W - {q})"] by simp
  qed
  then show ?thesis
    by (intro ok_update [OF assms(1,2)]) (simp_all add: run_def out goto_def fun_upd_idem)
qed

lemma pstep_ok:
  assumes "pstep p c c'" and "ok c" and "p < n"
  shows "ok c'"
proof -
  from assms(1) obtain s f ep ss where s: "nodes c' = (nodes c)(p := s)" "fiber c' = (fiber c)(p := f)"
    "incarnation c' = (incarnation c)(p := ep)" "session c' = (session c)(p := ss)"
    "peer_ok legal (conf p) s f ep ss"
    unfolding node_step_def by blast
  have "req \<in> append_requests c \<or> small_request req"
    if "req \<in> append_requests c'" for req
    using assms(1) that unfolding node_step_def by auto
  then show ?thesis by (rule ok_update [OF assms(2,3) s])
qed

lemma step_ok:
  assumes "cluster_step conf n restart become_leader other c c'" and "ok c"
  shows "ok c'"
  using assms(1)
proof cases
  case (crash p)
  then show ?thesis
    using crash_ok [OF assms(2)] okD(2) [OF assms(2)] legal_db [OF okD(1) [OF assms(2)]] by blast
next
  case (sleep p)
  show ?thesis unfolding sleep(1)
    by (rule frame_run_ok [OF assms(2) sleep(2) frame_StartFollower(1) wf_elections(2) [OF okD(2) [OF assms(2)]]],
        rule frame_ok [OF assms(2) sleep(2)]) (auto simp: goto_def sleep(3))
next
  case (wake p)
  show ?thesis unfolding wake(1)
    by (rule frame_run_ok [OF assms(2) wake(2) frame_StartFollower(2) wf_elections(3) [OF okD(2) [OF assms(2)]]],
        rule frame_ok [OF assms(2) wake(2)]) (auto simp: goto_def wake(3))
next
  case (campaign p)
  show ?thesis unfolding campaign(1)
  proof (rule frame_run_ok [OF assms(2) campaign(2) frame_StartCandidate wf_elections(4) [OF okD(2) [OF assms(2)]]])
    fix x s assume "frame (nodes c p) s" "wf_db s"
    then show "ok ((\<lambda>(req, votes) c. (goto p (Electing req votes ({..<n} - {p})) c)
        \<lparr>vote_requests := insert req (vote_requests c)\<rparr>) x (c\<lparr>nodes := (nodes c)(p := s)\<rparr>))"
      by (cases x, intro frame_ok [OF assms(2) campaign(2), where f = "Electing (fst x) (snd x) ({..<n} - {p})"])
        (simp_all add: goto_def campaign(3))
  qed
next
  case (vote_request q req)
  show ?thesis unfolding vote_request(1)
    by (rule frame_run_ok [OF assms(2) vote_request(2) frame_RequestVote wf_elections(1) [OF okD(2) [OF assms(2)]]],
        rule frame_ok [OF assms(2) vote_request(2), where f = "fiber c q"]) (auto simp: fun_upd_idem)
next
  case (vote_answer p req votes W q res)
  then show ?thesis using vote_response_ok [OF assms(2)] by blast
next
  case (vote_error p req votes W q)
  then show ?thesis using vote_response_ok [OF assms(2)] by blast
next
  case (election_timeout p req votes W)
  show ?thesis unfolding election_timeout(1)
    by (rule frame_run_ok [OF assms(2) election_timeout(2) frame_election_timer wf_elections(5) [OF okD(2) [OF assms(2)]]],
        rule frame_ok [OF assms(2) election_timeout(2), where f = "fiber c p"]) (auto simp: fun_upd_idem)
next
  case (election_end p req votes)
  show ?thesis unfolding election_end(1)
    by (rule frame_ok [OF assms(2) election_end(2) reflpD [OF frame_refl] okD(2) [OF assms(2)]])
      (auto simp: goto_def election_end(3))
next
  case other
  then show ?thesis
    using other_pstep [OF other assms(2)] pstep_ok [OF _ assms(2)] by blast
qed

end

sublocale replica_steps \<subseteq> cluster_logs conf n restart become_leader other "replicas_ok legal conf n" view
    "\<lambda>c. view_request view ` append_requests c"
proof unfold_locales
  fix c c' :: "(('a log_entry_scheme, 'b) node_scheme, 'a log_entry_scheme AppendEntriesRequest, 'k, 'z) replicas_scheme"
  show "replicas_ok legal conf n c \<Longrightarrow> n < u64_max" by (simp add: replicas_ok_def)
  show "cluster_step conf n restart become_leader other c c' \<Longrightarrow> replicas_ok legal conf n c \<Longrightarrow> replicas_ok legal conf n c'"
    by (rule step_ok)
  show "cluster.more c' = cluster.more c \<Longrightarrow> view_request view ` append_requests c' = view_request view ` append_requests c"
    by (cases c; cases c') simp
  show "replicas_ok legal conf n c \<Longrightarrow> commit_index (nodes c p) \<le> length (log_of (nodes c p))" for p
    using legal_db [OF okD(1) [of c p]] by auto
  assume "other c c'" "replicas_ok legal conf n c"
  from other_pstep [OF this] obtain p where p: "p < n" "node_step legal conf view p c c'" by auto
  from p(2) show "\<exists>p s f. p < n \<and> quiet (nodes c p) s \<and> nodes c' = (nodes c)(p := s) \<and> fiber c' = (fiber c)(p := f) \<and>
        (f = fiber c p \<or> (\<forall>req votes W. f \<noteq> Electing req votes W)) \<and> vote_replies c' = vote_replies c"
    unfolding node_step_def using p(1) by (metis (no_types, lifting) empty_iff insert_iff main_fiber.distinct(3,7,11))
  from p(1) node_step_at [OF p(2)] show "\<exists>p < n. step_at view (\<lambda>c. view_request view ` append_requests c) p c c'" by auto
qed (auto simp: restart_facts becomes_leader config_id config_nodes same_dbD)

end
