(* ===== verification/Raft_Cluster.thy ===== *)
theory Raft_Cluster
  imports Replica_Cluster Raft_Replication
begin

text \<open>
  A cluster of Raft nodes (\<^verbatim>\<open>src/raft/node/node.cpp\<close>): the steps of theory Cluster with,
  as the other steps, the sessions of the leaders, the handler \<^verbatim>\<open>AppendEntries\<close>, and client calls.

  Shown here, for any number of nodes with delayed, lost and repeated requests and with crashes:
  every step keeps the invariant of theory Raft_Replication at every node, and the cluster
  meets the contracts of theories Replica_Cluster, Cluster_Logs and Cluster.

  A log is assumed not to reach \<open>2\<^sup>6\<^sup>4 - 1\<close> entries: a client call is a step only while there
  is room.
\<close>

section \<open>Steps\<close>

type_synonym ('s, 'a) raft_cluster = "(('s, 'a) RaftNode, 'a LogEntry AppendEntriesRequest, nat \<times> nat \<times> nat) replicas"

text \<open>A restarted process opens its databases again.\<close>

definition raft_restart :: "'a \<Rightarrow> 's \<Rightarrow> ('s, 'a) RaftNode \<Rightarrow> ('s, 'a) RaftNode" where
  "raft_restart any0 sm0 s = RaftNode_new any0 sm0 (raft_state s) (raft_log s)"

inductive raft_other ::
  "(nat \<Rightarrow> node_config) \<Rightarrow> nat \<Rightarrow> ('s \<Rightarrow> 'a \<Rightarrow> 's \<times> 'a) \<Rightarrow> 'a \<Rightarrow> 's \<Rightarrow>
   ('s, 'a) raft_cluster \<Rightarrow> ('s, 'a) raft_cluster \<Rightarrow> bool"
  for conf n sm any0 sm0 where
  lead: "p < n \<Longrightarrow> fiber c p = Loop \<Longrightarrow> state (nodes c p) = Leader \<Longrightarrow>
    raft_other conf n sm any0 sm0 c (goto p (Leading False) c)"
| main_start: "p < n \<Longrightarrow> fiber c p = Leading False \<Longrightarrow>
    raft_other conf n sm any0 sm0 c (run (raft_restart any0 sm0) p
      (bind (StartLeaderMainSession (conf p)) (\<lambda>_. StartLeaderMainSession_body (conf p) sm any0))
      (\<lambda>_. goto p (Leading True)) c)"
| main_round: "p < n \<Longrightarrow> fiber c p = Leading True \<Longrightarrow>
    raft_other conf n sm any0 sm0 c (run (raft_restart any0 sm0) p
      (StartLeaderMainSession_body (conf p) sm any0) (\<lambda>_ c. c) c)"
| send: "p < n \<Longrightarrow> fiber c p = Leading b \<Longrightarrow> q < n \<Longrightarrow> q \<noteq> p \<Longrightarrow> session c p (incarnation c p) q = None \<Longrightarrow>
    raft_other conf n sm any0 sm0 c (run (raft_restart any0 sm0) p (StartLeaderNodeSession (conf p) q)
      (\<lambda>r c. case r of None \<Rightarrow> c
         | Some req \<Rightarrow> (set_session p q (Some req) c)\<lparr>append_requests := insert req (append_requests c)\<rparr>) c)"
| deliver: "q < n \<Longrightarrow> req \<in> append_requests c \<Longrightarrow> ae_leader_id req \<noteq> q \<Longrightarrow>
    raft_other conf n sm any0 sm0 c (run (raft_restart any0 sm0) q (AppendEntries sm any0 req)
      (\<lambda>res c. c\<lparr>append_replies := insert (q, req, res) (append_replies c)\<rparr>) c)"
| answer: "p < n \<Longrightarrow> fiber c p = Leading b \<Longrightarrow> session c p (incarnation c p) q = Some req \<Longrightarrow>
    (q, req, res) \<in> append_replies c \<Longrightarrow>
    raft_other conf n sm any0 sm0 c (run (raft_restart any0 sm0) p
      (AppendEntries_response (conf p) sm any0 q req (Ok res :: (AppendEntriesResult, unit) Result))
      (\<lambda>_. set_session p q None) c)"
| no_answer: "p < n \<Longrightarrow> fiber c p = Leading b \<Longrightarrow> session c p (incarnation c p) q = Some req \<Longrightarrow>
    raft_other conf n sm any0 sm0 c (run (raft_restart any0 sm0) p
      (AppendEntries_response (conf p) sm any0 q req (Err () :: (AppendEntriesResult, unit) Result))
      (\<lambda>_. set_session p q None) c)"
| resign: "p < n \<Longrightarrow> fiber c p = Leading True \<Longrightarrow> state (nodes c p) \<noteq> Leader \<Longrightarrow>
    (\<And>q. session c p (incarnation c p) q = None) \<Longrightarrow>
    raft_other conf n sm any0 sm0 c (run (raft_restart any0 sm0) p StartLeader_finish (\<lambda>_. goto p Loop) c)"
| client: "p < n \<Longrightarrow> (state (nodes c p) = Leader \<Longrightarrow> Suc (length (full_log (nodes c p))) < u64_max) \<Longrightarrow>
    raft_other conf n sm any0 sm0 c (run (raft_restart any0 sm0) p (Execute (conf p) any0 request)
      (\<lambda>r c. case r of Inl _ \<Rightarrow> c | Inr call \<Rightarrow> c\<lparr>calls := insert (p, incarnation c p, call) (calls c)\<rparr>) c)"
| client_end: "p < n \<Longrightarrow> (p, incarnation c p, call) \<in> calls c \<Longrightarrow> replication_finished (nodes c p) (fst call) \<Longrightarrow>
    raft_other conf n sm any0 sm0 c (run (raft_restart any0 sm0) p (Execute_finish any0 call)
      (\<lambda>_ c. c\<lparr>calls := calls c - {(p, incarnation c p, call)}\<rparr>) c)"

abbreviation raft_step ::
  "(nat \<Rightarrow> node_config) \<Rightarrow> nat \<Rightarrow> ('s \<Rightarrow> 'a \<Rightarrow> 's \<times> 'a) \<Rightarrow> 'a \<Rightarrow> 's \<Rightarrow>
   ('s, 'a) raft_cluster \<Rightarrow> ('s, 'a) raft_cluster \<Rightarrow> bool" where
  "raft_step conf n sm any0 sm0 \<equiv>
     cluster_step conf n (raft_restart any0 sm0) (\<lambda>p. BecomeLeader (conf p)) (raft_other conf n sm any0 sm0)"

section \<open>What every step keeps\<close>

lemma raft_restart_facts:
  assumes "wf_db s"
  shows "wf_db (raft_restart any0 sm0 s)" and "term_of (raft_restart any0 sm0 s) = term_of s"
    and "vote_of (raft_restart any0 sm0 s) = vote_of s" and "log_of (raft_restart any0 sm0 s) = log_of s"
    and "state (raft_restart any0 sm0 s) = Follower" and "commit_index (raft_restart any0 sm0 s) = 0"
    and "rsm (raft_restart any0 sm0 s) = ExactlyOnce_new sm0"
proof -
  have "\<not> HasError (kv_Get ''current_term'' (raft_state s))"
    using assms by (auto simp: wf_db_def Database_Get_def)
  then show "wf_db (raft_restart any0 sm0 s)" "term_of (raft_restart any0 sm0 s) = term_of s"
    "vote_of (raft_restart any0 sm0 s) = vote_of s" "log_of (raft_restart any0 sm0 s) = log_of s"
    "state (raft_restart any0 sm0 s) = Follower" "commit_index (raft_restart any0 sm0 s) = 0"
    "rsm (raft_restart any0 sm0 s) = ExactlyOnce_new sm0"
    using assms
    by (simp_all add: raft_restart_def RaftNode_new_def wf_db_def term_of_def vote_of_def log_of_def)
qed

lemma more_rsm: "node.more s' = node.more (s :: ('s, 'a) RaftNode) \<Longrightarrow> rsm s' = rsm s"
  by (cases s; cases s') simp

abbreviation raft_good ::
  "(nat \<Rightarrow> node_config) \<Rightarrow> nat \<Rightarrow> ('s \<Rightarrow> 'a \<Rightarrow> 's \<times> 'a) \<Rightarrow> 'a \<Rightarrow> 's \<Rightarrow> ('s, 'a) raft_cluster \<Rightarrow> bool" where
  "raft_good conf n sm any0 sm0 \<equiv> replicas_ok (node_inv sm any0 sm0) conf n"

interpretation raft_node: replica "member_config ns" "length ns" "raft_restart any0 sm0" "node_inv sm any0 sm0" id
  for ns and any0 :: 'a and sm0 :: 's and sm
proof unfold_locales
  fix s s' :: "('s, 'a) RaftNode"
  show "node_inv sm any0 sm0 s \<Longrightarrow> wf_db s \<and> commit_index s \<le> length (raft_log s) \<and> length (raft_log s) < u64_max"
    using node_invD [of sm any0 sm0 s] by simp
  show "node_inv sm any0 sm0 s \<Longrightarrow> frame s s' \<Longrightarrow> wf_db s' \<Longrightarrow> node_inv sm any0 sm0 s'"
    using more_rsm [of s' s] by (simp add: node_inv_def frame_def log_of_def)
  show "wf_db s \<Longrightarrow> length (raft_log s) < u64_max \<Longrightarrow> node_inv sm any0 sm0 (raft_restart any0 sm0 s)"
    using raft_restart_facts [of s any0 sm0] by (simp add: node_inv_def requests_of_def)
  show "node_inv sm any0 sm0 s \<Longrightarrow> node_inv sm any0 sm0 (s\<lparr>next_index := ns, match_index := ms, pending_log := es\<rparr>)" for ns ms es
    by (simp add: node_inv_def)
  show "same_db s s' \<Longrightarrow> raft_restart any0 sm0 s' = raft_restart any0 sm0 s"
    by (simp add: raft_restart_def same_db_def)
qed (simp_all add: raft_restart_facts)

section \<open>Operations of one node\<close>

text \<open>The leader commits, in a round of its main session.\<close>

lemma commit_updated_ok:
  assumes "peer_ok (node_inv sm any0 sm0) config s f ep ss"
  shows "peer_ok (node_inv sm any0 sm0) config (commit_updated config sm any0 s) f ep ss"
  using assms commit_updated_inv [of sm any0 sm0 s config]
  by (simp add: peer_ok_def leader_ok_def leader_inv_def)

lemma pending_written_ok:
  assumes "peer_ok (node_inv sm any0 sm0) config s (Leading True) ep ss" and "state s = Leader"
  shows "peer_ok (node_inv sm any0 sm0) config (pending_written config s) (Leading True) ep ss"
proof -
  note wf = raft_node.peer_okD(2) [OF assms(1)] and inv = raft_node.peer_okD(5) [OF assms]
  note w = pending_written_facts [OF wf, of config]
  have "node_inv sm any0 sm0 (pending_written config s)"
    using raft_node.peer_okD(1) [OF assms(1)] inv w(1) unfolding node_inv_def w
    by (simp add: full_log_def leader_inv_def Let_def pending_written_def)
  then show ?thesis
    using assms(2) w inv by (intro raft_node.written_ok [OF assms]) (simp_all add: leader_inv_full, simp add: pending_written_def full_log_def)
qed

lemma main_body_ok:
  assumes "peer_ok (node_inv sm any0 sm0) config s (Leading True) ep ss"
  obtains s' where "StartLeaderMainSession_body config sm any0 s = (Ok (), s')"
    and "peer_ok (node_inv sm any0 sm0) config s' (Leading True) ep ss" and "quiet s s'" and "log_change id R s s'"
proof (cases "state s = Leader")
  case True
  note ok = raft_node.peer_okD [OF assms]
  note w = pending_written_facts [OF ok(2), of config]
  have run: "StartLeaderMainSession_body config sm any0 s = (Ok (), commit_updated config sm any0 (pending_written config s))"
    using ok True by (intro StartLeaderMainSession_body_run) (simp_all add: leader_ok_def)
  show ?thesis
    using commit_updated_ok [OF pending_written_ok [OF assms True]] w True
    by (intro that [OF run]) (simp_all add: quiet_def log_change_def)
next
  case False
  then show ?thesis
    using assms raft_node.peer_okD(2) [OF assms] by (intro that [of s])
      (simp_all add: StartLeaderMainSession_body_def exec_simps quiet_refl log_change_def)
qed

lemma main_session_ok:
  assumes "peer_ok (node_inv sm any0 sm0) config s (Leading False) ep ss"
  shows "(\<exists>s'. bind (StartLeaderMainSession config) (\<lambda>_. StartLeaderMainSession_body config sm any0) s = (Ok (), s') \<and>
       peer_ok (node_inv sm any0 sm0) config s' (Leading True) ep ss \<and> quiet s s' \<and> log_change id R s s') \<or>
     (\<exists>e. bind (StartLeaderMainSession config) (\<lambda>_. StartLeaderMainSession_body config sm any0) s = (Err e, s))"
proof (cases "node_id config < length (match_index s)")
  case True
  let ?s1 = "s\<lparr>match_index := (match_index s)[node_id config := length (raft_log s)]\<rparr>"
  have start: "StartLeaderMainSession config s = (Ok (), ?s1)"
    using True raft_node.peer_okD(2) [OF assms] by (simp add: StartLeaderMainSession_def exec_simps)
  obtain s' where s': "StartLeaderMainSession_body config sm any0 ?s1 = (Ok (), s')"
    "peer_ok (node_inv sm any0 sm0) config s' (Leading True) ep ss" "quiet ?s1 s'" "log_change id R ?s1 s'"
    using main_body_ok [OF raft_node.main_start_ok [OF assms], of R] by blast
  have "quiet s s'" by (rule quiet_left [OF s'(3)]) simp_all
  moreover have "log_change id R s s'" using s'(4) by (simp add: log_change_def full_log_def)
  ultimately show ?thesis using start s'(1,2) by (simp add: bind_run)
next
  case False
  then show ?thesis
    using raft_node.peer_okD(2) [OF assms] by (simp add: StartLeaderMainSession_def exec_simps)
qed

text \<open>A session with a peer: the request.\<close>

lemma part_of_request:
  assumes "next_index s ! q \<le> Suc (length (raft_log s))"
  shows "part_of (full_log s) (append_request config q s)"
  using assms by (auto simp: part_of_def Let_def append_request_def full_log_def)

lemma send_ok:
  assumes "peer_ok (node_inv sm any0 sm0) config s f ep ss" and "q < length (cluster_nodes config)"
  shows "StartLeaderNodeSession config q s = (Ok None, s) \<or> (\<exists>e. StartLeaderNodeSession config q s = (Err e, s)) \<or>
     (\<exists>req. StartLeaderNodeSession config q s = (Ok (Some req), s) \<and> state s = Leader \<and> ae_term req = term_of s \<and>
        part_of (map id (full_log s)) (view_request id req) \<and> ae_prev_log_index req = next_index s ! q - 1)"
proof (cases "state s = Leader")
  case True
  note ok = raft_node.peer_okD [OF assms(1)]
  show ?thesis
  proof (cases "next_index s ! q \<le> Suc (length (raft_log s))")
    case le: True
    from StartLeaderNodeSession_run [OF ok(2) True ok(5) [OF True] assms(2) le] part_of_request [OF le]
      append_request_facts [OF le, of config] True show ?thesis by simp
  next
    case False
    have idx: "q < length (next_index s)" "next_index s ! q \<le> u64_max"
      using ok(5) [OF True] assms(2) by (auto simp: leader_inv_full)
    have dec: "u64_dec (next_index s ! q) = next_index s ! q - 1"
      using False idx(2) by (intro u64_dec_exact) auto
    have "\<not> next_index s ! q - 1 \<le> length (raft_log s)" using False by linarith
    then have "raft_log_Get (next_index s ! q - 1) s = (Err (VerifyFailed ''Result does not hold value: NotFound''), s)"
      using ok(2) by (simp add: raft_log_Get_run)
    then show ?thesis
      using False True idx(1) ok(2)
      by (simp add: StartLeaderNodeSession_def bind_run gets_run at_run verify_run GetCurrentTerm_run dec del: One_nat_def)
  qed
qed (simp add: StartLeaderNodeSession_def exec_simps)

text \<open>The follower.\<close>

lemma deliver_ok:
  assumes "node_inv sm any0 sm0 s" and "small_request req" and "AppendEntries sm any0 req s = (r, s')"
  shows "node_inv sm any0 sm0 s' \<and> quiet s s' \<and> (s' = s \<or> state s' = Follower \<and> (log_of s' = log_of s \<or>
      log_matches req (log_of s) \<and> committed_agree (ae_prev_log_index req) (commit_index s) (ae_entries req) (log_of s) \<and>
      log_of s' = new_log (ae_prev_log_index req) (commit_index s) (ae_entries req) (log_of s)))"
proof -
  note inv = node_invD [OF assms(1)]
  have fit: "fits req s" using inv(2,3) assms(2) by (simp add: fits_def small_request_def)
  show ?thesis
    using inv(1) fit assms(3)
  proof (cases rule: AppendEntries_cases)
    case dismissed
    then show ?thesis using assms(1) inv(1) by (simp add: quiet_refl)
  next
    case unmatched
    then show ?thesis
      using ae_entry_facts [OF inv(1), of req] ae_entry_inv [OF assms(1), of req] by (auto simp: quiet_def max_def)
  next
    case accepted
    then have "ae_prev_log_index req \<le> length (raft_log s)" by (simp add: log_matches_def)
    from accepted_inv [OF assms(1) fit this] accepted accepted_facts [OF inv(1), of sm any0 req] show ?thesis
      by (auto simp: quiet_def max_def log_of_accepted)
  qed
qed

text \<open>The answer of the peer; the session ends with it.\<close>

lemma answer_ok:
  assumes "peer_ok (node_inv sm any0 sm0) config s f ep ss" and "ss ep q = Some req"
  shows "(\<exists>x s'. AppendEntries_response config sm any0 q req r s = (Ok x, s') \<and>
       peer_ok (node_inv sm any0 sm0) config s' f ep (ss(ep := (ss ep)(q := None))) \<and> quiet s s' \<and> log_kept s s') \<or>
     (\<exists>e s'. AppendEntries_response config sm any0 q req r s = (Err e, s') \<and> same_db s s')"
proof (cases "state s = Leader \<and> (\<exists>res. r = Ok res)")
  case False
  then have "AppendEntries_response config sm any0 q req r s = (Ok (), s)"
    by (cases r) (auto simp: AppendEntries_response_def exec_simps)
  then show ?thesis
    using raft_node.peer_ok_end [OF assms(1)] raft_node.peer_okD(2) [OF assms(1)] by (simp add: quiet_refl log_kept_def)
next
  case True
  then obtain res where l: "state s = Leader" and r: "r = Ok res" by blast
  let ?ss = "ss(ep := (ss ep)(q := None))"
  note ok = raft_node.peer_okD [OF assms(1)] and ended = raft_node.peer_ok_end [OF assms(1), of q]
  have q: "q < length (cluster_nodes config)" "q \<noteq> node_id config" "ae_prev_log_index req = next_index s ! q - 1"
    "next_index s ! q + length (ae_entries req) \<le> Suc (length (full_log s))" "length (full_log s) < u64_max"
    "1 \<le> next_index s ! q" "next_index s ! q \<le> Suc (length (full_log s))"
    using ok(4) [OF l] assms(2) unfolding leader_ok_def leader_inv_full by auto
  have "ae_prev_log_index req + length (ae_entries req) \<le> u64_max" "next_index s ! q + length (ae_entries req) \<le> u64_max"
    using q(3-6) by linarith+
  note run = AppendEntries_response_run [OF ok(2) l ok(5) [OF l] ok(6) q(1) this, of sm any0 res]
  consider (newer) "aer_term res > term_of s" | (failed) "\<not> aer_term res > term_of s" "\<not> aer_success res" "next_index s ! q \<ge> 2"
    | (abort) "\<not> aer_term res > term_of s" "\<not> aer_success res" "\<not> next_index s ! q \<ge> 2"
    | (success) "\<not> aer_term res > term_of s" "aer_success res" by blast
  then show ?thesis
  proof cases
    case newer
    from raft_node.set_term_ok [OF ended newer] newer r show ?thesis by (simp add: run log_kept_def)
  next
    case failed
    have "peer_ok (node_inv sm any0 sm0) config (s\<lparr>next_index := (next_index s)[q := next_index s ! q - 1]\<rparr>) f ep ?ss"
      using failed(3) q by (intro raft_node.next_index_ok [OF ended l]) simp_all
    with failed r ok(2) l show ?thesis by (simp add: run quiet_def log_kept_def full_log_def)
  next
    case abort
    with r show ?thesis by (simp add: run same_db_def)
  next
    case success
    from commit_updated_ok [OF raft_node.peer_matched_ok [OF assms(1) l assms(2)]] success r ok(2) l show ?thesis
      by (simp add: run quiet_def log_kept_def peer_matched_def full_log_def)
  qed
qed

text \<open>Clients.\<close>

lemma client_ok:
  assumes "peer_ok (node_inv sm any0 sm0) config s f ep ss" and "state s = Leader" and "Suc (length (full_log s)) < u64_max"
  shows "peer_ok (node_inv sm any0 sm0) config (executed config any0 request s) f ep ss" and "quiet s (executed config any0 request s)"
proof -
  let ?s = "executed config any0 request s"
  note ok = raft_node.peer_okD [OF assms(1)]
  have "next_index ?s ! r = (if r = node_id config then Suc (next_index s ! r) else next_index s ! r)"
    if "r < length (next_index s)" for r
    using that by (simp add: executed_facts nth_list_update)
  moreover have "length (next_index ?s) = length (next_index s)" "match_index ?s = match_index s"
    "raft_log ?s = raft_log s" "length (full_log ?s) = Suc (length (full_log s))"
    by (simp_all add: executed_facts)
  ultimately have "leader_ok config ?s f (ss ep)"
    using ok(4) [OF assms(2)] assms(3) unfolding leader_ok_def leader_inv_full by fastforce
  moreover have "node_inv sm any0 sm0 ?s"
    using ok(1) by (simp add: node_inv_def executed_facts)
  ultimately show "peer_ok (node_inv sm any0 sm0) config ?s f ep ss"
    using ok(3) by (simp add: peer_ok_def)
  show "quiet s ?s"
    using ok(2) by (simp add: quiet_def executed_facts)
qed

lemma client_call_ok:
  assumes "peer_ok (node_inv sm any0 sm0) config s f ep ss" and "state s = Leader \<Longrightarrow> Suc (length (full_log s)) < u64_max"
  shows "\<exists>x s'. Execute config any0 request s = (Ok x, s') \<and> peer_ok (node_inv sm any0 sm0) config s' f ep ss \<and> quiet s s' \<and> log_change id R s s'"
proof (cases "state s = Leader")
  case True
  note ok = raft_node.peer_okD [OF assms(1)]
  from Execute_run [OF ok(2) True ok(5) [OF True] assms(2) [OF True]] client_ok [OF assms(1) True assms(2) [OF True], of request] True
  show ?thesis by (simp add: log_change_def executed_facts)
next
  case False
  then show ?thesis
    using assms(1) raft_node.peer_okD(2) [OF assms(1)] by (simp add: Execute_not_leader quiet_refl log_change_def)
qed

lemma client_end_ok:
  assumes "peer_ok (node_inv sm any0 sm0) config s f ep ss" and "Execute_finish any0 call s = (Ok x, s')"
  shows "peer_ok (node_inv sm any0 sm0) config s' f ep ss \<and> quiet s s' \<and> log_change id R s s'"
proof -
  obtain ptr i t where call: "call = (ptr, i, t)" by (cases call)
  let ?s = "s\<lparr>pending_requests := (pending_requests s)(i := None), stop_leader := StopCallback_delete ptr (stop_leader s)\<rparr>"
  note ok = raft_node.peer_okD [OF assms(1)]
  have s': "s' = ?s" using assms(2) Execute_finish_run [OF ok(2), of any0 ptr i t] by (simp add: call Let_def split: if_splits)
  have full: "full_log ?s = full_log s" by (simp add: full_log_def)
  then have "leader_ok config ?s f x = leader_ok config s f x" for x
    by (simp add: leader_ok_def leader_inv_full)
  moreover have "node_inv sm any0 sm0 ?s = node_inv sm any0 sm0 s"
    by (simp add: node_inv_def)
  ultimately show ?thesis
    using assms(1) ok(2) by (simp add: s' peer_ok_def quiet_def log_change_def full)
qed

section \<open>Every step keeps the invariant\<close>

lemma raft_other_pstep:
  assumes "raft_other (member_config ns) (length ns) sm any0 sm0 c c'" and "raft_good (member_config ns) (length ns) sm any0 sm0 c"
  shows "\<exists>p < length ns. node_step (node_inv sm any0 sm0) (member_config ns) id p c c'"
  using assms(1)
proof cases
  case (lead p)
  then show ?thesis using raft_node.goto_pstep [OF assms(2)] by (auto simp: goto_def)
next
  case (main_start p)
  note out = main_session_ok [OF raft_node.okD(3) [OF assms(2) main_start(2), unfolded main_start(3)], of "append_requests c"]
  show ?thesis
    unfolding main_start(1) using main_start(2) out
    by (intro exI [of _ p] conjI raft_node.op_pstep [OF assms(2), where f = "Leading True" and ss = "session c p"])
      (auto simp: goto_def same_db_def)
next
  case (main_round p)
  note out = main_body_ok [OF raft_node.okD(3) [OF assms(2) main_round(2), unfolded main_round(3)], of "append_requests c"]
  obtain s where "StartLeaderMainSession_body (member_config ns p) sm any0 (nodes c p) = (Ok (), s)"
      "peer_ok (node_inv sm any0 sm0) (member_config ns p) s (Leading True) (incarnation c p) (session c p)" "quiet (nodes c p) s"
      "log_change id (append_requests c) (nodes c p) s"
    using out by blast
  then show ?thesis
    unfolding main_round(1) using main_round(2,3)
    by (intro exI [of _ p] conjI raft_node.op_pstep [OF assms(2), where f = "Leading True" and ss = "session c p"])
      (auto simp: fun_upd_idem)
next
  case (send p b q)
  from send_ok [OF raft_node.okD(3) [OF assms(2) send(2)], of q] send raft_node.config_nodes [OF send(2)] show ?thesis
    unfolding send(1) by (intro exI [of _ p] conjI raft_node.send_pstep [OF assms(2)]) simp_all
next
  case (deliver q req)
  from deliver_ok [OF raft_node.okD(1) [OF assms(2), of q] raft_node.okD(4) [OF assms(2) deliver(3)]] deliver show ?thesis
    unfolding deliver(1) by (intro exI [of _ q] conjI raft_node.deliver_pstep [OF assms(2)]) simp_all
next
  case (answer p b q req res)
  from answer_ok [OF raft_node.okD(3) [OF assms(2) answer(2)] answer(4)] answer show ?thesis
    unfolding answer(1) by (intro exI [of _ p] conjI raft_node.answer_pstep [OF assms(2)]) (simp_all add: set_session_def)
next
  case (no_answer p b q req)
  from answer_ok [OF raft_node.okD(3) [OF assms(2) no_answer(2)] no_answer(4)] no_answer show ?thesis
    unfolding no_answer(1) by (intro exI [of _ p] conjI raft_node.answer_pstep [OF assms(2)]) (simp_all add: set_session_def)
next
  case (resign p)
  then show ?thesis using raft_node.resign_pstep [OF assms(2)] by (auto simp: StartLeader_finish_def)
next
  case (client p request)
  note ok = raft_node.okD(3) [OF assms(2) client(2)]
  note out = client_call_ok [OF ok client(3), of request "append_requests c"]
  show ?thesis
    unfolding client(1)
  proof (intro exI [of _ p] conjI raft_node.op_pstep [OF assms(2), where f = "fiber c p" and ss = "session c p"])
    fix x s assume "Execute (member_config ns p) any0 request (nodes c p) = (Ok x, s)"
    with out show "peer_ok (node_inv sm any0 sm0) (member_config ns p) s (fiber c p) (incarnation c p) (session c p)"
      "quiet (nodes c p) s" "log_change id (view_request id ` append_requests c) (nodes c p) s" by auto
  qed (use client(2) out in \<open>auto split: sum.splits\<close>)
next
  case (client_end p call)
  note ok = raft_node.okD(3) [OF assms(2) client_end(2)]
  have "same_db (nodes c p) s" if "Execute_finish any0 call (nodes c p) = (Err e, s)" for e s
    using that Execute_finish_run [OF raft_node.peer_okD(2) [OF ok]] by (cases call) (auto simp: Let_def same_db_def split: if_splits)
  then show ?thesis
    unfolding client_end(1) using client_end(2) client_end_ok [OF ok]
    by (intro exI [of _ p] conjI raft_node.op_pstep [OF assms(2), where f = "fiber c p" and ss = "session c p"]) simp_all
qed

interpretation raft: replica_steps "member_config ns" "length ns" "raft_restart any0 sm0" "node_inv sm any0 sm0" id
    "\<lambda>p. BecomeLeader (member_config ns p)" "raft_other (member_config ns) (length ns) sm any0 sm0"
  for ns and any0 :: 'a and sm0 :: 's and sm
proof unfold_locales
  fix s :: "('s, 'a) RaftNode" and p
  show "wf_db s \<Longrightarrow> state s = Candidate \<Longrightarrow> fst (BecomeLeader (member_config ns p) s) = Ok () \<and> same_db s (snd (BecomeLeader (member_config ns p) s)) \<and>
      state (snd (BecomeLeader (member_config ns p) s)) = Leader \<and> full_log (snd (BecomeLeader (member_config ns p) s)) = log_of s"
    by (simp add: BecomeLeader_run same_db_def leader_of_def full_log_def Stop_stop_election_def)
  show "node_inv sm any0 sm0 s \<Longrightarrow> p < length ns \<Longrightarrow> state s = Candidate \<Longrightarrow>
      node_inv sm any0 sm0 (snd (BecomeLeader (member_config ns p) s)) \<and> leader_inv (member_config ns p) (snd (BecomeLeader (member_config ns p) s))"
    using node_invD [of sm any0 sm0 s] raft_node.config_id [of p ns] raft_node.config_nodes [of p ns]
    by (auto simp: BecomeLeader_run intro!: leader_of_inv) (simp add: node_inv_def leader_of_def Stop_stop_election_def)
qed (rule raft_other_pstep)

end
