(* ===== verification/Schedules.thy ===== *)
theory Schedules
  imports Replica_Cluster
begin

text \<open>
  Schedules of a cluster: its steps as data, and the cluster after a list of them. The steps of elections are those of theory Cluster; the steps of
  replication are a parameter, since the Raft and the Metamorphosis nodes have their own. A schedule that can be performed is a run, so
  an evaluation shows that a state can be reached.
\<close>

datatype 'o action =
    Crash nat | Sleep nat | Wake nat | Campaign nat | Ask_vote nat nat | Take_vote nat nat RequestVoteResult
  | Lose_vote nat nat | End_election nat | Other 'o

text \<open>The steps of replication, over the type of requests between nodes, of requests of clients, and of waiting calls.\<close>

datatype ('r, 'q, 'k) replication_action =
    Lead nat | Main_start nat | Main_round nat | Send nat nat
  | Deliver nat 'r | Answer nat nat AppendEntriesResult | No_answer nat nat
  | Client nat 'q | Client_end nat 'k

definition enabled :: "bool \<Rightarrow> 'c \<Rightarrow> 'c option" where
  "enabled b c = (if b then Some c else None)"

lemma enabled_Some: "enabled b c = Some c' \<longleftrightarrow> b \<and> c' = c"
  by (auto simp: enabled_def)

fun perform ::
  "(string \<times> nat) list \<Rightarrow> (('e log_entry_scheme, 'm) node_scheme \<Rightarrow> ('e log_entry_scheme, 'm) node_scheme) \<Rightarrow>
   (nat \<Rightarrow> (('e log_entry_scheme, 'm) node_scheme, unit) exec) \<Rightarrow>
   ('o \<Rightarrow> (('e log_entry_scheme, 'm) node_scheme, 'z) cluster_scheme \<Rightarrow> (('e log_entry_scheme, 'm) node_scheme, 'z) cluster_scheme option) \<Rightarrow>
   'o action \<Rightarrow> (('e log_entry_scheme, 'm) node_scheme, 'z) cluster_scheme \<Rightarrow> (('e log_entry_scheme, 'm) node_scheme, 'z) cluster_scheme option" where
  "perform ns restart become_leader other (Crash p) c = enabled (p < length ns) (crash restart p (nodes c p) c)"
| "perform ns restart become_leader other (Sleep p) c = enabled (p < length ns \<and> fiber c p = Loop \<and> state (nodes c p) = Follower)
     (run restart p StartFollower (\<lambda>_. goto p Sleeping) c)"
| "perform ns restart become_leader other (Wake p) c = enabled (p < length ns \<and> fiber c p = Sleeping)
     (run restart p StartFollower_wake (\<lambda>_. goto p Loop) c)"
| "perform ns restart become_leader other (Campaign p) c = enabled (p < length ns \<and> fiber c p = Loop \<and> state (nodes c p) = Candidate)
     (run restart p (StartCandidate (member_config ns p)) (\<lambda>(req, votes) c.
       (goto p (Electing req votes ({..<length ns} - {p})) c)\<lparr>vote_requests := insert req (vote_requests c)\<rparr>) c)"
| "perform ns restart become_leader other (Ask_vote p q) c = (case fiber c p of
     Electing req votes W \<Rightarrow> enabled (q < length ns \<and> req \<in> vote_requests c \<and> rv_candidate_id req \<noteq> q)
       (run restart q (RequestVote req) (\<lambda>res c. c\<lparr>vote_replies := insert (q, req, res) (vote_replies c)\<rparr>) c)
   | _ \<Rightarrow> None)"
| "perform ns restart become_leader other (Take_vote p q res) c = (case fiber c p of
     Electing req votes W \<Rightarrow> enabled (p < length ns \<and> q \<in> W \<and> (q, req, res) \<in> vote_replies c)
       (run restart p (RequestVote_response (member_config ns p) (become_leader p) (Ok res :: (RequestVoteResult, unit) Result) votes)
         (\<lambda>votes. goto p (Electing req votes (W - {q}))) c)
   | _ \<Rightarrow> None)"
| "perform ns restart become_leader other (Lose_vote p q) c = (case fiber c p of
     Electing req votes W \<Rightarrow> enabled (p < length ns \<and> q \<in> W)
       (run restart p (RequestVote_response (member_config ns p) (become_leader p) (Err () :: (RequestVoteResult, unit) Result) votes)
         (\<lambda>votes. goto p (Electing req votes (W - {q}))) c)
   | _ \<Rightarrow> None)"
| "perform ns restart become_leader other (End_election p) c = (case fiber c p of
     Electing req votes W \<Rightarrow> enabled (p < length ns \<and> W = {}) (goto p Loop c)
   | _ \<Rightarrow> None)"
| "perform ns restart become_leader other (Other a) c = other a c"

fun performs where
  "performs ns restart become_leader other [] c = Some c"
| "performs ns restart become_leader other (a # as) c =
     (case perform ns restart become_leader other a c of None \<Rightarrow> None | Some c' \<Rightarrow> performs ns restart become_leader other as c')"

lemma perform_step:
  assumes "perform ns restart become_leader perform_other a c = Some c'" and "\<And>a c c'. perform_other a c = Some c' \<Longrightarrow> other c c'"
  shows "cluster_step (member_config ns) (length ns) restart become_leader other c c'"
  using assms
  by (cases a) (auto simp: enabled_Some split: main_fiber.splits intro: cluster_step.intros)

lemma performs_run:
  assumes "performs ns restart become_leader perform_other as c = Some c'" and "\<And>a c c'. perform_other a c = Some c' \<Longrightarrow> other c c'"
  shows "(cluster_step (member_config ns) (length ns) restart become_leader other)\<^sup>*\<^sup>* c c'"
  using assms(1)
proof (induction as arbitrary: c)
  case (Cons a as)
  then obtain c1 where c1: "perform ns restart become_leader perform_other a c = Some c1"
      "performs ns restart become_leader perform_other as c1 = Some c'"
    by (auto split: option.splits)
  from perform_step [OF c1(1) assms(2)] Cons.IH [OF c1(2)] show ?case by (rule converse_rtranclp_into_rtranclp)
qed simp

text \<open>A node stands for election and gets the vote of another.\<close>

definition elected :: "nat \<Rightarrow> nat \<Rightarrow> nat \<Rightarrow> 'o action list" where
  "elected p q t = [Sleep p, Wake p, Campaign p, Ask_vote p q, Take_vote p q \<lparr>rvr_term = t, rvr_vote_granted = True\<rparr>]"

section \<open>Start\<close>

definition dbs_ok :: "(nat \<Rightarrow> (string, nat) omap \<times> (nat, 'e) omap) \<Rightarrow> bool" where
  "dbs_ok dbs \<longleftrightarrow> (\<forall>p. keys_ordered (fst (dbs p)) \<and> is_log (snd (dbs p)) \<and> length (snd (dbs p)) < u64_max)"

definition no_databases :: "nat \<Rightarrow> (string, nat) omap \<times> (nat, 'e) omap" where
  "no_databases p = ([], [])"

lemma no_databases_ok: "dbs_ok no_databases"
  by (simp add: dbs_ok_def no_databases_def keys_ordered_def u64_max_def)

definition three_nodes :: "(string \<times> nat) list" where
  "three_nodes = [(''a'', 1), (''b'', 2), (''c'', 3)]"

lemma three_small: "length three_nodes < u64_max"
  by (simp add: three_nodes_def u64_max_def)

definition holds_in :: "'c option \<Rightarrow> ('c \<Rightarrow> bool) \<Rightarrow> bool" where
  "holds_in r P \<longleftrightarrow> (case r of None \<Rightarrow> False | Some c \<Rightarrow> P c)"

lemma holds_inE: "holds_in r P \<Longrightarrow> (\<And>c. r = Some c \<Longrightarrow> P c \<Longrightarrow> thesis) \<Longrightarrow> thesis"
  by (auto simp: holds_in_def split: option.splits)

end
