(* ===== verification/Raft_Runs.thy ===== *)
theory Raft_Runs
  imports Raft_Cluster Schedules "HOL-Library.Code_Target_Nat"
begin

text \<open>
  Runs of a cluster of Raft nodes from its start, and what holds in all of them: one leader per
  term, matching logs, and state machines that have applied the same entries. Schedules
  are lists of steps that can be evaluated; one of them shows that a committed
  entry can be lost.
\<close>

section \<open>Start\<close>

definition raft_start ::
  "'a \<Rightarrow> 's \<Rightarrow> (nat \<Rightarrow> (string, nat) omap \<times> (nat, 'a LogEntry) omap) \<Rightarrow> ('s, 'a) raft_cluster" where
  "raft_start any0 sm0 dbs =
     \<lparr>nodes = (\<lambda>p. RaftNode_new any0 sm0 (fst (dbs p)) (snd (dbs p))), fiber = (\<lambda>_. Loop), incarnation = (\<lambda>_. 0),
      vote_requests = {}, vote_replies = {}, append_requests = {}, append_replies = {}, session = (\<lambda>_ _ _. None),
      calls = {}\<rparr>"

lemma RaftNode_new_facts:
  assumes "keys_ordered st" and "is_log lg"
  shows "wf_db (RaftNode_new any0 sm0 st lg)" and "state (RaftNode_new any0 sm0 st lg) = Follower"
    and "log_of (RaftNode_new any0 sm0 st lg) = map snd lg" and "length lg < u64_max \<Longrightarrow> node_inv sm any0 sm0 (RaftNode_new any0 sm0 st lg)"
proof -
  show wf: "wf_db (RaftNode_new any0 sm0 st lg)"
    using assms
    by (auto simp: wf_db_def RaftNode_new_def Database_Get_def Database_Put_def om_find_assign om.invar_put split: option.splits)
  show "state (RaftNode_new any0 sm0 st lg) = Follower" "log_of (RaftNode_new any0 sm0 st lg) = map snd lg"
    by (simp_all add: RaftNode_new_def log_of_def)
  show "node_inv sm any0 sm0 (RaftNode_new any0 sm0 st lg)" if "length lg < u64_max"
    using wf that by (simp add: node_inv_def requests_of_def) (simp add: RaftNode_new_def)
qed

lemma raft_start_good:
  assumes "dbs_ok dbs" and "n < u64_max"
  shows "raft_good conf n sm any0 sm0 (raft_start any0 sm0 dbs)" and "started (raft_start any0 sm0 dbs)"
proof -
  have node: "node_inv sm any0 sm0 (RaftNode_new any0 sm0 (fst (dbs p)) (snd (dbs p)))"
    "wf_db (RaftNode_new any0 sm0 (fst (dbs p)) (snd (dbs p)))" "state (RaftNode_new any0 sm0 (fst (dbs p)) (snd (dbs p))) = Follower" for p
    using assms(1) RaftNode_new_facts [of "fst (dbs p)" "snd (dbs p)"] by (auto simp: dbs_ok_def)
  show "raft_good conf n sm any0 sm0 (raft_start any0 sm0 dbs)" "started (raft_start any0 sm0 dbs)"
    using assms(2) node by (simp_all add: replicas_ok_def raft_start_def peer_ok_def sessions_ok_def started_def)
qed

section \<open>Schedules\<close>

type_synonym 'a raft_action = "('a LogEntry AppendEntriesRequest, 'a Request, nat \<times> nat \<times> nat) replication_action"

fun perform_other ::
  "(string \<times> nat) list \<Rightarrow> ('s \<Rightarrow> 'a \<Rightarrow> 's \<times> 'a) \<Rightarrow> 'a \<Rightarrow> 's \<Rightarrow> 'a raft_action \<Rightarrow> ('s, 'a) raft_cluster \<Rightarrow> ('s, 'a) raft_cluster option" where
  "perform_other ns sm any0 sm0 (Lead p) c = enabled (p < length ns \<and> fiber c p = Loop \<and> state (nodes c p) = Leader)
     (goto p (Leading False) c)"
| "perform_other ns sm any0 sm0 (Main_start p) c = enabled (p < length ns \<and> fiber c p = Leading False)
     (run (raft_restart any0 sm0) p
       (bind (StartLeaderMainSession (member_config ns p)) (\<lambda>_. StartLeaderMainSession_body (member_config ns p) sm any0))
       (\<lambda>_. goto p (Leading True)) c)"
| "perform_other ns sm any0 sm0 (Main_round p) c = enabled (p < length ns \<and> fiber c p = Leading True)
     (run (raft_restart any0 sm0) p (StartLeaderMainSession_body (member_config ns p) sm any0) (\<lambda>_ c. c) c)"
| "perform_other ns sm any0 sm0 (Send p q) c = (case fiber c p of
     Leading b \<Rightarrow> enabled (p < length ns \<and> q < length ns \<and> q \<noteq> p \<and> session c p (incarnation c p) q = None)
       (run (raft_restart any0 sm0) p (StartLeaderNodeSession (member_config ns p) q)
         (\<lambda>r c. case r of None \<Rightarrow> c
            | Some req \<Rightarrow> (set_session p q (Some req) c)\<lparr>append_requests := insert req (append_requests c)\<rparr>) c)
   | _ \<Rightarrow> None)"
| "perform_other ns sm any0 sm0 (Deliver q req) c = enabled (q < length ns \<and> req \<in> append_requests c \<and> ae_leader_id req \<noteq> q)
     (run (raft_restart any0 sm0) q (AppendEntries sm any0 req)
       (\<lambda>res c. c\<lparr>append_replies := insert (q, req, res) (append_replies c)\<rparr>) c)"
| "perform_other ns sm any0 sm0 (Answer p q res) c = (case (fiber c p, session c p (incarnation c p) q) of
     (Leading b, Some req) \<Rightarrow> enabled (p < length ns \<and> (q, req, res) \<in> append_replies c)
       (run (raft_restart any0 sm0) p
         (AppendEntries_response (member_config ns p) sm any0 q req (Ok res :: (AppendEntriesResult, unit) Result))
         (\<lambda>_. set_session p q None) c)
   | _ \<Rightarrow> None)"
| "perform_other ns sm any0 sm0 (No_answer p q) c = (case (fiber c p, session c p (incarnation c p) q) of
     (Leading b, Some req) \<Rightarrow> enabled (p < length ns)
       (run (raft_restart any0 sm0) p
         (AppendEntries_response (member_config ns p) sm any0 q req (Err () :: (AppendEntriesResult, unit) Result))
         (\<lambda>_. set_session p q None) c)
   | _ \<Rightarrow> None)"
| "perform_other ns sm any0 sm0 (Client p request) c =
     enabled (p < length ns \<and> (state (nodes c p) = Leader \<longrightarrow> Suc (length (full_log (nodes c p))) < u64_max))
     (run (raft_restart any0 sm0) p (Execute (member_config ns p) any0 request)
       (\<lambda>r c. case r of Inl _ \<Rightarrow> c | Inr call \<Rightarrow> c\<lparr>calls := insert (p, incarnation c p, call) (calls c)\<rparr>) c)"
| "perform_other ns sm any0 sm0 (Client_end p call) c =
     enabled (p < length ns \<and> (p, incarnation c p, call) \<in> calls c \<and> replication_finished (nodes c p) (fst call))
     (run (raft_restart any0 sm0) p (Execute_finish any0 call)
       (\<lambda>_ c. c\<lparr>calls := calls c - {(p, incarnation c p, call)}\<rparr>) c)"

lemma perform_other_step:
  assumes "perform_other ns sm any0 sm0 a c = Some c'"
  shows "raft_other (member_config ns) (length ns) sm any0 sm0 c c'"
  using assms
  by (cases a) (auto simp: enabled_Some split: main_fiber.splits option.splits intro: raft_other.intros)

section \<open>Properties of all runs\<close>

lemma raft_run_good:
  assumes "length ns < u64_max" and "dbs_ok dbs"
    and "(raft_step (member_config ns) (length ns) sm any0 sm0)\<^sup>*\<^sup>* (raft_start any0 sm0 dbs) c"
  shows "raft_good (member_config ns) (length ns) sm any0 sm0 c"
proof -
  obtain e where "history (length ns) (raft_start any0 sm0 dbs) e"
    using started_history [where n = "length ns", OF raft_start_good(2) [where ?any0.0 = any0 and ?sm0.0 = sm0, OF assms(2,1)]]
    by auto
  from raft.history_run [OF assms(3) this raft_start_good(1) [OF assms(2,1)]] show ?thesis by blast
qed

lemma raft_logs_match:
  assumes "length ns < u64_max"
    and "(raft_step (member_config ns) (length ns) sm any0 sm0)\<^sup>*\<^sup>* (raft_start any0 sm0 no_databases) c"
    and "i < length (log_of (nodes c p))" and "i < length (log_of (nodes c q))"
    and "entry_term (log_of (nodes c p) ! i) = entry_term (log_of (nodes c q) ! i)"
  shows "take (Suc i) (log_of (nodes c p)) = take (Suc i) (log_of (nodes c q))"
proof -
  let ?c = "raft_start any0 sm0 no_databases"
  obtain e where e: "history (length ns) ?c e" "e_elected e = {}"
    using started_history [where n = "length ns", OF raft_start_good(2) [where ?any0.0 = any0 and ?sm0.0 = sm0, OF no_databases_ok assms(1)]]
    by auto
  have "view_request id ` append_requests ?c = {}" "log_of (nodes ?c p) = [] \<and> state (nodes ?c p) = Follower" for p
    by (simp_all add: raft_start_def no_databases_def RaftNode_new_def log_of_def)
  from raft.logs_match [OF assms(2) e(1) raft_start_good(1) [OF no_databases_ok assms(1)] e(2) this assms(3,4)] assms(5)
  show ?thesis by simp
qed

text \<open>
  C1. Election safety: from whatever databases the nodes start, with requests and answers lost, delayed and repeated and
  with crashes at any point, a term never has two leaders, neither at the same time nor
  one after the other.
\<close>

theorem election_safety:
  assumes "length ns < u64_max" and "dbs_ok dbs"
    and "(raft_step (member_config ns) (length ns) sm any0 sm0)\<^sup>*\<^sup>* (raft_start any0 sm0 dbs) c1"
    and "(raft_step (member_config ns) (length ns) sm any0 sm0)\<^sup>*\<^sup>* c1 c2"
    and "state (nodes c1 p) = Leader" and "state (nodes c2 q) = Leader" and "term_of (nodes c1 p) = term_of (nodes c2 q)"
  shows "p = q"
proof -
  obtain e where "history (length ns) (raft_start any0 sm0 dbs) e"
    using started_history [where n = "length ns", OF raft_start_good(2) [where ?any0.0 = any0 and ?sm0.0 = sm0, OF assms(2,1)]]
    by auto
  from raft.leaders_of_a_term [OF assms(3,4) this raft_start_good(1) [OF assms(2,1)] assms(5-7)] show ?thesis .
qed

text \<open>
  C2. Log matching: in every state a new cluster can reach, two logs that hold an entry of the same term at
  the same index are equal up to and including that index.
\<close>

theorem log_matching:
  assumes "length ns < u64_max"
    and "(raft_step (member_config ns) (length ns) sm any0 sm0)\<^sup>*\<^sup>* (raft_start any0 sm0 no_databases) c"
    and "i < length (log_of (nodes c p))" and "i < length (log_of (nodes c q))"
    and "entry_term (log_of (nodes c p) ! i) = entry_term (log_of (nodes c q) ! i)"
  shows "take (Suc i) (log_of (nodes c p)) = take (Suc i) (log_of (nodes c q))"
  by (rule raft_logs_match [OF assms])

text \<open>
  C3. In every state a new cluster can reach, the state machine of a node, together with its
  table of answered requests, is the result of applying the committed entries of the node's own log in order;
  so two nodes that have committed the same number of entries, the last of the same term, have
  equal state machines and would answer a client alike.
\<close>

theorem state_machines_agree:
  assumes "length ns < u64_max"
    and "(raft_step (member_config ns) (length ns) sm any0 sm0)\<^sup>*\<^sup>* (raft_start any0 sm0 no_databases) c"
    and "commit_index (nodes c p) = Suc i" and "commit_index (nodes c q) = Suc i"
    and "entry_term (log_of (nodes c p) ! i) = entry_term (log_of (nodes c q) ! i)"
  shows "rsm (nodes c p) = Apply_all sm any0 (requests_of (take (Suc i) (log_of (nodes c p)))) (ExactlyOnce_new sm0) \<and>
    rsm (nodes c q) = rsm (nodes c p)"
proof -
  note inv = node_invD [OF raft_node.okD(1) [OF raft_run_good [OF assms(1) no_databases_ok assms(2)]]]
  have "i < length (log_of (nodes c p))" "i < length (log_of (nodes c q))"
    using inv(2) [of p] inv(2) [of q] assms(3,4) by simp_all
  from raft_logs_match [OF assms(1,2) this assms(5)] show ?thesis
    using inv(4) [of p] inv(4) [of q] assms(3,4) by simp
qed

text \<open>
  C9. In every state a cluster can reach, from whatever databases its nodes start, the database of every node holds a current term and a log indexed
  without gaps from 1, the commit index does not exceed the log, and a leader has a match index and a next index for every node, the next indices between 1 and
  the one after the last entry of its own log.
\<close>

theorem nodes_well_formed:
  assumes "length ns < u64_max" and "dbs_ok dbs"
    and "(raft_step (member_config ns) (length ns) sm any0 sm0)\<^sup>*\<^sup>* (raft_start any0 sm0 dbs) c" and "p < length ns"
  shows "wf_db (nodes c p) \<and> commit_index (nodes c p) \<le> length (raft_log (nodes c p)) \<and>
    (state (nodes c p) = Leader \<longrightarrow> leader_inv (member_config ns p) (nodes c p))"
  using raft_node.peer_okD(2,5,6) [OF raft_node.okD(3) [OF raft_run_good [OF assms(1-3)] assms(4)]] by simp

section \<open>Runs of three nodes\<close>

definition sent_by_0 :: "nat \<Rightarrow> nat LogEntry list \<Rightarrow> nat LogEntry AppendEntriesRequest" where
  "sent_by_0 i es = \<lparr>ae_term = 1, ae_leader_id = 0, ae_prev_log_index = i, ae_prev_log_term = i, ae_entries = es,
     ae_leader_commit = i\<rparr>"

text \<open>
  Node 0 leads. A heartbeat to node 1 is delayed, and its session with node 1 goes on after an error. The
  client's entry is sent to node 1 and saved there.
\<close>

definition until_replicated :: "nat raft_action action list" where
  "until_replicated = elected 0 1 0 @ [Lose_vote 0 2, End_election 0] @ map Other
     [Lead 0, Main_start 0, Send 0 1, No_answer 0 1,
      Client 0 (entry_request (sample_entry 1 10)), Main_round 0, Send 0 1, Deliver 1 (sent_by_0 0 [sample_entry 1 10])]"

definition until_both_committed :: "nat raft_action action list" where
  "until_both_committed = map Other [Answer 0 1 \<lparr>aer_term = 1, aer_success = True\<rparr>, Send 0 1, Deliver 1 (sent_by_0 1 [])]"

text \<open>The delayed heartbeat reaches node 1 before the leader gets its answer.\<close>

definition until_committed :: "nat raft_action action list" where
  "until_committed = map Other [Deliver 1 (sent_by_0 0 []), Answer 0 1 \<lparr>aer_term = 1, aer_success = True\<rparr>]"

text \<open>The leader crashes, and node 1 is elected by node 2.\<close>

definition until_lost :: "nat raft_action action list" where
  "until_lost = Crash 0 # elected 1 2 0"

abbreviation sample_performs :: "nat raft_action action list \<Rightarrow> (nat, nat) raft_cluster \<Rightarrow> (nat, nat) raft_cluster option" where
  "sample_performs \<equiv> performs three_nodes (raft_restart 0 0) (\<lambda>p. BecomeLeader (member_config three_nodes p))
     (perform_other three_nodes sample_apply 0 0)"

abbreviation sample_runs :: "(nat, nat) raft_cluster \<Rightarrow> (nat, nat) raft_cluster \<Rightarrow> bool" where
  "sample_runs \<equiv> (raft_step (member_config three_nodes) (length three_nodes) sample_apply 0 0)\<^sup>*\<^sup>*"

definition holds_after :: "nat raft_action action list \<Rightarrow> (nat, nat) raft_cluster \<Rightarrow> ((nat, nat) raft_cluster \<Rightarrow> bool) \<Rightarrow> bool" where
  "holds_after as c P \<longleftrightarrow> holds_in (sample_performs as c) P"

lemma holds_afterE:
  assumes "holds_after as c P"
  obtains c' where "sample_runs c c'" and "P c'"
proof -
  from assms obtain c' where c': "sample_performs as c = Some c'" "P c'"
    unfolding holds_after_def by (elim holds_inE)
  show ?thesis by (rule that [OF performs_run [OF c'(1)] c'(2)]) (rule perform_other_step)
qed

definition replicated :: "(nat, nat) raft_cluster \<Rightarrow> bool" where
  "replicated c \<longleftrightarrow> state (nodes c 0) = Leader \<and> term_of (nodes c 0) = 1 \<and>
     log_of (nodes c 0) = [sample_entry 1 10] \<and> log_of (nodes c 1) = [sample_entry 1 10]"

definition reported :: "(nat, nat) raft_cluster \<Rightarrow> bool" where
  "reported c \<longleftrightarrow> (0, incarnation c 0, 0, 1, 1) \<in> calls c \<and> replication_finished (nodes c 0) 0 \<and>
     fst (Execute_finish 0 (0, 1, 1) (nodes c 0)) = Ok \<lparr>response_status = Commited, response_result = 10\<rparr> \<and>
     commit_index (nodes c 0) = 1 \<and> log_of (nodes c 0) = [sample_entry 1 10]"

definition led_without :: "(nat, nat) raft_cluster \<Rightarrow> bool" where
  "led_without c \<longleftrightarrow> state (nodes c 1) = Leader \<and> term_of (nodes c 1) = 2 \<and> full_log (nodes c 1) = []"

lemma sample_evaluation:
  "holds_after until_replicated (raft_start 0 0 no_databases) (\<lambda>c. replicated c \<and>
     holds_after until_both_committed c (\<lambda>c1. replicated c1 \<and> commit_index (nodes c1 0) = 1 \<and> commit_index (nodes c1 1) = 1) \<and>
     holds_after until_committed c (\<lambda>c2. reported c2 \<and> holds_after until_lost c2 led_without))"
  by code_simp

lemma sample_replicated:
  obtains c c1 where "sample_runs (raft_start 0 0 no_databases) c" and "replicated c" and "sample_runs c c1" and "replicated c1"
    and "commit_index (nodes c1 0) = 1" and "commit_index (nodes c1 1) = 1"
  using sample_evaluation by (elim holds_afterE conjE) (rule that)

theorem election_safety_witness:
  "\<exists>c1 c2. sample_runs (raft_start 0 0 no_databases) c1 \<and> sample_runs c1 c2 \<and> state (nodes c1 0) = Leader \<and>
     state (nodes c2 0) = Leader \<and> term_of (nodes c1 0) = 1 \<and> term_of (nodes c2 0) = 1 \<and> (0 :: nat) = 0"
proof -
  obtain c c1 where c: "sample_runs (raft_start 0 0 no_databases) c" "replicated c" "sample_runs c c1" "replicated c1"
    "commit_index (nodes c1 0) = 1" "commit_index (nodes c1 1) = 1"
    using sample_replicated .
  have s: "state (nodes c 0) = Leader" "state (nodes c1 0) = Leader" "term_of (nodes c 0) = 1" "term_of (nodes c1 0) = 1"
    using c(2,4) by (simp_all add: replicated_def)
  have "(0 :: nat) = 0"
    by (rule election_safety [OF three_small no_databases_ok c(1,3) s(1,2)]) (simp add: s)
  then show ?thesis using c(1,3) s by blast
qed

theorem nodes_well_formed_witness:
  "\<exists>c. sample_runs (raft_start 0 0 no_databases) c \<and> state (nodes c 0) = Leader \<and> wf_db (nodes c 0) \<and>
     leader_inv (member_config three_nodes 0) (nodes c 0)"
proof -
  obtain c c1 where c: "sample_runs (raft_start 0 0 no_databases) c" "replicated c" "sample_runs c c1" "replicated c1"
    "commit_index (nodes c1 0) = 1" "commit_index (nodes c1 1) = 1"
    using sample_replicated .
  have "wf_db (nodes c 0) \<and> leader_inv (member_config three_nodes 0) (nodes c 0)"
    using nodes_well_formed [OF three_small no_databases_ok c(1), of 0] c(2) by (simp add: replicated_def three_nodes_def)
  with c(1,2) show ?thesis by (auto simp: replicated_def)
qed

theorem log_matching_witness:
  "\<exists>c. sample_runs (raft_start 0 0 no_databases) c \<and> log_of (nodes c 0) = [sample_entry 1 10] \<and>
     take (Suc 0) (log_of (nodes c 0)) = take (Suc 0) (log_of (nodes c 1))"
proof -
  obtain c c1 where c: "sample_runs (raft_start 0 0 no_databases) c" "replicated c" "sample_runs c c1" "replicated c1"
    "commit_index (nodes c1 0) = 1" "commit_index (nodes c1 1) = 1"
    using sample_replicated .
  have "take (Suc 0) (log_of (nodes c 0)) = take (Suc 0) (log_of (nodes c 1))"
    using c(2) by (intro log_matching [OF three_small c(1)]) (simp_all add: replicated_def del: length_log_of)
  with c show ?thesis by (auto simp: replicated_def)
qed

theorem state_machines_agree_witness:
  "\<exists>c. sample_runs (raft_start 0 0 no_databases) c \<and> commit_index (nodes c 0) = 1 \<and> commit_index (nodes c 1) = 1 \<and>
     rsm (nodes c 1) = rsm (nodes c 0)"
proof -
  obtain c c1 where c: "sample_runs (raft_start 0 0 no_databases) c" "replicated c" "sample_runs c c1" "replicated c1"
    "commit_index (nodes c1 0) = 1" "commit_index (nodes c1 1) = 1"
    using sample_replicated .
  have run: "sample_runs (raft_start 0 0 no_databases) c1" using c(1,3) by (rule rtranclp_trans)
  have "rsm (nodes c1 1) = rsm (nodes c1 0)"
    using state_machines_agree [OF three_small run, of 0 0 1] c(4-6) by (simp add: replicated_def)
  with run c(5,6) show ?thesis by blast
qed

text \<open>
  C4. A committed entry can be lost. In a run of three new nodes the leader commits an entry and tells the client
  so, and later another node leads a newer term with a log that does not hold the entry: before the leader got
  the follower's answer, a heartbeat sent earlier reached the follower, whose handler deletes everything after the
  entries of a request even when nothing conflicts.
\<close>

theorem committed_entry_lost:
  "\<exists>c c'. sample_runs (raft_start 0 0 no_databases) c \<and> sample_runs c c' \<and>
     commit_index (nodes c 0) = 1 \<and> log_of (nodes c 0) = [sample_entry 1 10] \<and>
     (0, incarnation c 0, 0, 1, 1) \<in> calls c \<and> replication_finished (nodes c 0) 0 \<and>
     fst (Execute_finish 0 (0, 1, 1) (nodes c 0)) = Ok \<lparr>response_status = Commited, response_result = 10\<rparr> \<and>
     state (nodes c' 1) = Leader \<and> term_of (nodes c' 1) = 2 \<and> full_log (nodes c' 1) = []"
proof -
  obtain c0 c c' where run: "sample_runs (raft_start 0 0 no_databases) c0" "sample_runs c0 c" "sample_runs c c'"
    and c: "reported c" "led_without c'"
    using sample_evaluation by (elim holds_afterE conjE) blast
  have "sample_runs (raft_start 0 0 no_databases) c" using run(1,2) by (rule rtranclp_trans)
  with run(3) c show ?thesis unfolding reported_def led_without_def by blast
qed

end
