(* ===== verification/Mtf_Node.thy ===== *)
theory Mtf_Node
  imports Raft_Log Rpc_Errors
begin

text \<open>
  The Metamorphosis node (\<^verbatim>\<open>src/metamorphosis/node/node.cpp\<close>,
  \<^verbatim>\<open>src/metamorphosis/metamorphosis.proto\<close>): a queue over a variant of Raft in which the
  nodes outside the first majority may get only the hash of a committed message, and a producer's
  appends are numbered.

  The state extends the record of Raft_Core. \<open>producer_next_sequence_id\<close> is a
  \<^verbatim>\<open>std::unordered_map\<close> read and written only through \<^verbatim>\<open>operator[]\<close>, so a
  total function that is 0 where nothing was stored; \<open>pending_offset\<close> is the member
  \<^verbatim>\<open>offset\<close> of the \<^verbatim>\<open>PendingRequest\<close> a pointer names. The MD5 digest of OpenSSL
  is the parameter \<open>md5\<close> of \<open>Append\<close>.

  The class repeats much of the Raft node. Its members are given here in full, with the suffix
  \<open>_mtf\<close> where the Raft node has one of the same name, and are then shown to be the
  operations of Raft_Core.
\<close>

section \<open>Messages and state\<close>

record LogEntry_mtf = log_entry +
  entry_producer_id :: nat
  entry_data :: string
  entry_md5hash :: string

datatype AppendRsp_Status = AppendRsp_NotALeader | AppendRsp_Commited | InvalidSequenceId | ParallelRequest

record AppendReq =
  append_data :: string
  append_producer_id :: nat
  append_sequence_id :: nat

record AppendRsp =
  append_status :: AppendRsp_Status
  append_offset :: nat
  append_next_sequence_id :: nat

datatype ReadRsp_Status = NOT_FOUND | HASH_ONLY | FULL_MESSAGE

datatype ReadRsp_Payload = Payload_not_set | Payload_data string | Payload_md5hash string

record ReadRsp =
  read_status :: ReadRsp_Status
  read_payload :: ReadRsp_Payload

record MetamorphosisNode = "LogEntry_mtf node" +
  producer_next_sequence_id :: "nat \<Rightarrow> nat"
  pending_producers :: "nat set"
  pending_offset :: "nat \<Rightarrow> nat"
  alive_main_nodes_count :: nat

section \<open>Accessors\<close>

definition MajorityCount_mtf :: "node_config \<Rightarrow> nat" where
  "MajorityCount_mtf config = length (cluster_nodes config) div 2 + 1"

definition IsMainNode :: "node_config \<Rightarrow> nat \<Rightarrow> bool" where
  "IsMainNode config index =
     (let majority_count = MajorityCount_mtf config;
          majority_count = (if node_id config \<ge> majority_count then u64_dec majority_count else majority_count)
      in index < majority_count)"

definition GetCurrentTerm_mtf :: "(('e, 'm) node_scheme, nat) exec" where
  "GetCurrentTerm_mtf =
     bind (gets (\<lambda>s. kv_Get ''current_term'' (raft_state s))) (\<lambda>r. lift (GetValue DBError_Message r))"

definition GetVotedFor_mtf :: "(('e, 'm) node_scheme, nat option) exec" where
  "GetVotedFor_mtf =
     bind (gets (\<lambda>s. kv_Get ''voted_for'' (raft_state s))) (\<lambda>result.
     if HasError result then ret None
     else bind (lift (GetValue DBError_Message result)) (\<lambda>v. ret (Some v)))"

definition GetSavedLogSize_mtf :: "(('e, 'm) node_scheme, nat) exec" where
  "GetSavedLogSize_mtf =
     bind (gets (\<lambda>s. SeekToLast (NewIterator (raft_log s)))) (\<lambda>iterator.
     bind (lift (Valid iterator)) (\<lambda>valid.
     if valid then lift (GetKey iterator) else ret 0))"

definition GetLastSavedLogTerm_mtf :: "(('e log_entry_scheme, 'm) node_scheme, nat) exec" where
  "GetLastSavedLogTerm_mtf =
     bind (gets (\<lambda>s. SeekToLast (NewIterator (raft_log s)))) (\<lambda>iterator.
     bind (lift (Valid iterator)) (\<lambda>valid.
     if valid then bind (lift (IterValue iterator)) (\<lambda>e. ret (entry_term e)) else ret 0))"

definition GetLogEntry_mtf :: "nat \<Rightarrow> (('e, 'm) node_scheme, 'e) exec" where
  "GetLogEntry_mtf index =
     bind GetSavedLogSize_mtf (\<lambda>saved_log_size.
     bind (gets pending_log) (\<lambda>pending.
     bind (verify (0 < index \<and> index \<le> u64_add saved_log_size (length pending)) ''Invalid log index'') (\<lambda>_.
     if index \<le> saved_log_size then raft_log_Get index
     else at pending (u64_sub (u64_sub index saved_log_size) 1))))"

definition UpdateTerm_mtf :: "nat \<Rightarrow> nat option \<Rightarrow> (('e, 'm) node_scheme, unit) exec" where
  "UpdateTerm_mtf term voted_for =
     bind GetCurrentTerm_mtf (\<lambda>current_term.
     bind (verify (term > current_term) ''Invalid update term'') (\<lambda>_.
     let write_batch = WriteBatch_Put ''current_term'' term MakeWriteBatch;
         write_batch = (case voted_for of
             Some v \<Rightarrow> WriteBatch_Put ''voted_for'' v write_batch
           | None \<Rightarrow> WriteBatch_Delete ''voted_for'' write_batch)
     in bind (with_state (kv_Write write_batch)) expect_ok))"

text \<open>The two statements that count a producer's messages; the counter is a 64-bit integer.\<close>

definition inc_sequence_id :: "nat \<Rightarrow> (MetamorphosisNode, unit) exec" where
  "inc_sequence_id producer_id =
     modify (\<lambda>s. s\<lparr>producer_next_sequence_id :=
       (producer_next_sequence_id s)(producer_id := u64_inc (producer_next_sequence_id s producer_id))\<rparr>)"

definition dec_sequence_id :: "nat \<Rightarrow> (MetamorphosisNode, unit) exec" where
  "dec_sequence_id producer_id =
     modify (\<lambda>s. s\<lparr>producer_next_sequence_id :=
       (producer_next_sequence_id s)(producer_id := u64_dec (producer_next_sequence_id s producer_id))\<rparr>)"

section \<open>The constructor\<close>

definition count_saved_entries :: "(MetamorphosisNode, unit) exec" where
  "count_saved_entries =
     bind GetSavedLogSize_mtf (\<lambda>log_size.
     for_each [1 ..< Suc log_size] (\<lambda>index.
       bind (raft_log_Get index) (\<lambda>entry. inc_sequence_id (entry_producer_id entry))))"

definition MetamorphosisNode_new ::
  "(string, nat) omap \<Rightarrow> (nat, LogEntry_mtf) omap \<Rightarrow> (unit, panic) Result \<times> MetamorphosisNode" where
  "MetamorphosisNode_new state_db log_db =
     count_saved_entries
       \<lparr>state = Follower,
        raft_state = (if HasError (kv_Get ''current_term'' state_db)
                      then snd (kv_Put ''current_term'' 0 state_db) else state_db),
        raft_log = log_db,
        commit_index = 0, match_index = [], next_index = [], current_term_start_index = 0,
        pending_requests = Map.empty, pending_log = [],
        replication_finished = (\<lambda>_. False), next_request = 0,
        stop_election = new_StopState, stop_leader = new_StopState,
        reset_election_timeout = new_StopState, reset_heartbeat_timeout = new_StopState,
        producer_next_sequence_id = (\<lambda>_. 0), pending_producers = {}, pending_offset = (\<lambda>_. 0),
        alive_main_nodes_count = 0\<rparr>"

section \<open>Append and Read\<close>

definition mk_AppendRsp :: "AppendRsp_Status \<Rightarrow> AppendRsp" where
  "mk_AppendRsp status = \<lparr>append_status = status, append_offset = 0, append_next_sequence_id = 0\<rparr>"

text \<open>
  \<^verbatim>\<open>Append\<close> up to the await. The guard that erases the producer from
  \<^verbatim>\<open>pending_producers\<close> runs at every return after it was made. A pending call is its
  pointer, its log index, the term it was made in and its producer.
\<close>

definition Append ::
  "node_config \<Rightarrow> (string \<Rightarrow> string) \<Rightarrow> AppendReq \<Rightarrow> (MetamorphosisNode, AppendRsp + nat \<times> nat \<times> nat \<times> nat) exec" where
  "Append config md5 request =
     bind (gets state) (\<lambda>st.
     if st \<noteq> Leader then ret (Inl (mk_AppendRsp AppendRsp_NotALeader))
     else
     bind (gets pending_producers) (\<lambda>producers.
     if append_producer_id request \<in> producers then ret (Inl (mk_AppendRsp ParallelRequest))
     else
     bind (modify (\<lambda>s. s\<lparr>pending_producers := insert (append_producer_id request) (pending_producers s)\<rparr>)) (\<lambda>_.
     bind (gets (\<lambda>s. producer_next_sequence_id s (append_producer_id request))) (\<lambda>next_sequence_id.
     if append_sequence_id request \<noteq> next_sequence_id
     then bind (modify (\<lambda>s. s\<lparr>pending_producers := pending_producers s - {append_producer_id request}\<rparr>)) (\<lambda>_.
          ret (Inl ((mk_AppendRsp InvalidSequenceId)\<lparr>append_next_sequence_id := next_sequence_id\<rparr>)))
     else
     let md5hash = md5 (append_data request) in
     bind (gets next_index) (\<lambda>next.
     bind (at next (node_id config)) (\<lambda>new_log_index.
     bind (set_at next_index next_index_update (node_id config) (u64_inc new_log_index)) (\<lambda>_.
     bind GetCurrentTerm_mtf (\<lambda>current_term.
     let entry = \<lparr>entry_term = current_term, entry_producer_id = append_producer_id request,
                  entry_data = append_data request, entry_md5hash = md5hash\<rparr> in
     bind (modify (\<lambda>s. s\<lparr>pending_log := pending_log s @ [entry]\<rparr>)) (\<lambda>_.
     bind (gets next_request) (\<lambda>ptr.
     bind (modify (\<lambda>s. s\<lparr>next_request := Suc ptr,
         replication_finished := (replication_finished s)(ptr := False),
         pending_offset := (pending_offset s)(ptr := 0)\<rparr>)) (\<lambda>_.
     bind (modify (\<lambda>s. let (ran, st) = StopCallback_new ptr (stop_leader s)
         in s\<lparr>stop_leader := st, replication_finished := signal_all ran (replication_finished s)\<rparr>)) (\<lambda>_.
     bind (modify (\<lambda>s. s\<lparr>pending_requests := (pending_requests s)(new_log_index \<mapsto> ptr)\<rparr>)) (\<lambda>_.
     bind (modify (\<lambda>s. s\<lparr>reset_heartbeat_timeout := snd (StopSource_Stop (reset_heartbeat_timeout s))\<rparr>)) (\<lambda>_.
     bind (modify (reset_heartbeat_timeout_update (\<lambda>_. new_StopState))) (\<lambda>_.
     ret (Inr (ptr, new_log_index, current_term, append_producer_id request)))))))))))))))))"

text \<open>After the await; the callback is unlinked and the producer erased on the way out.\<close>

definition Append_finish :: "nat \<times> nat \<times> nat \<times> nat \<Rightarrow> (MetamorphosisNode, AppendRsp) exec" where
  "Append_finish pending =
     (case pending of (ptr, new_log_index, current_term, producer_id) \<Rightarrow>
     bind (modify (\<lambda>s. s\<lparr>pending_requests := (pending_requests s)(new_log_index := None)\<rparr>)) (\<lambda>_.
     bind GetCurrentTerm_mtf (\<lambda>term.
     bind (if current_term \<noteq> term then ret (mk_AppendRsp AppendRsp_NotALeader)
           else
           bind (gets state) (\<lambda>st.
           bind (verify (st = Leader) ''Invalid session state'') (\<lambda>_.
           bind (gets (\<lambda>s. (pending_offset s ptr, producer_next_sequence_id s producer_id))) (\<lambda>(offset, next_sequence_id).
           ret \<lparr>append_status = AppendRsp_Commited, append_offset = offset,
                append_next_sequence_id = next_sequence_id\<rparr>)))) (\<lambda>response.
     bind (modify (\<lambda>s. s\<lparr>stop_leader := StopCallback_delete ptr (stop_leader s)\<rparr>)) (\<lambda>_.
     bind (modify (\<lambda>s. s\<lparr>pending_producers := pending_producers s - {producer_id}\<rparr>)) (\<lambda>_.
     ret response))))))"

definition Read :: "nat \<Rightarrow> (MetamorphosisNode, (ReadRsp, RpcError) Result) exec" where
  "Read offset =
     bind (gets commit_index) (\<lambda>commit.
     if offset > commit then ret (Ok \<lparr>read_status = NOT_FOUND, read_payload = Payload_not_set\<rparr>)
     else
     bind (gets (\<lambda>s. kv_Get offset (raft_log s))) (\<lambda>result.
     case result of
       Err e \<Rightarrow> ret (Err (mk_RpcError RpcInternal (DBError_Message e)))
     | Ok entry \<Rightarrow>
         if entry_data entry \<noteq> ''''
         then ret (Ok \<lparr>read_status = FULL_MESSAGE, read_payload = Payload_data (entry_data entry)\<rparr>)
         else ret (Ok \<lparr>read_status = HASH_ONLY, read_payload = Payload_md5hash (entry_md5hash entry)\<rparr>)))"

section \<open>Changing state\<close>

definition BecomeLeader_mtf :: "node_config \<Rightarrow> (MetamorphosisNode, unit) exec" where
  "BecomeLeader_mtf config =
     bind GetCurrentTerm_mtf (\<lambda>_.
     bind (gets state) (\<lambda>st.
     bind (verify (st = Candidate) ''Invalid state'') (\<lambda>_.
     bind (modify (pending_log_update (\<lambda>_. []))) (\<lambda>_.
     bind GetSavedLogSize_mtf (\<lambda>size.
     bind (modify (\<lambda>s. s\<lparr>current_term_start_index := u64_inc size,
         next_index := replicate (length (cluster_nodes config)) (u64_inc size),
         match_index := replicate (length (cluster_nodes config)) 0,
         reset_heartbeat_timeout := new_StopState,
         stop_leader := new_StopState\<rparr>)) (\<lambda>_.
     bind (modify Stop_stop_election) (\<lambda>_.
     bind (modify (alive_main_nodes_count_update (\<lambda>_. MajorityCount_mtf config))) (\<lambda>_.
     modify (state_update (\<lambda>_. Leader))))))))))"

definition BecomeFollower_mtf :: "(('e, 'm) node_scheme, unit) exec" where
  "BecomeFollower_mtf =
     bind GetCurrentTerm_mtf (\<lambda>_.
     bind (gets state) (\<lambda>st.
     bind (verify (st \<noteq> Follower) ''Invalid state'') (\<lambda>_.
     bind (if st = Leader then modify Stop_stop_leader
           else if st = Candidate then modify Stop_stop_election else ret ()) (\<lambda>_.
     modify (state_update (\<lambda>_. Follower))))))"

definition BecomeCandidate_mtf :: "(('e, 'm) node_scheme, unit) exec" where
  "BecomeCandidate_mtf =
     bind GetCurrentTerm_mtf (\<lambda>_.
     bind (gets state) (\<lambda>st.
     bind (verify (st = Follower) ''Invalid state'') (\<lambda>_.
     bind (modify Stop_reset_election_timeout) (\<lambda>_.
     modify (state_update (\<lambda>_. Candidate))))))"

section \<open>Internal calls\<close>

definition RequestVote_mtf ::
  "RequestVoteRequest \<Rightarrow> (('e log_entry_scheme, 'm) node_scheme, RequestVoteResult) exec" where
  "RequestVote_mtf request =
     bind GetCurrentTerm_mtf (\<lambda>current_term.
     let response = (\<lambda>granted. \<lparr>rvr_term = current_term, rvr_vote_granted = granted\<rparr>) in
     if rv_term request < current_term then ret (response False)
     else
     bind (if rv_term request > current_term
           then bind (UpdateTerm_mtf (rv_term request) None) (\<lambda>_.
                bind (gets state) (\<lambda>st. if st \<noteq> Follower then BecomeFollower_mtf else ret ()))
           else ret ()) (\<lambda>_.
     bind GetVotedFor_mtf (\<lambda>voted_for.
     if voted_for = Some (rv_candidate_id request) then ret (response True)
     else if voted_for \<noteq> None then ret (response False)
     else
     bind GetLastSavedLogTerm_mtf (\<lambda>last_log_term.
     bind (if last_log_term > rv_last_log_term request then ret False
           else if last_log_term = rv_last_log_term request
           then bind GetSavedLogSize_mtf (\<lambda>size. ret (size \<le> rv_last_log_index request))
           else ret True) (\<lambda>granted.
     bind (if granted
           then bind (with_state (run_db (kv_Put ''voted_for'' (rv_candidate_id request)))) expect_ok
           else ret ()) (\<lambda>_.
     ret (response granted)))))))"

text \<open>
  The loops of \<^verbatim>\<open>AppendEntries\<close>: the sequence ids of all entries after the preceding one
  are given back, then those of the entries that are written are taken again. The check that
  the counter is not negative is written as in the source.
\<close>

definition uncount_entries :: "nat \<Rightarrow> (MetamorphosisNode, unit) exec" where
  "uncount_entries prev =
     bind GetSavedLogSize_mtf (\<lambda>log_size.
     for_each [u64_inc prev ..< Suc log_size] (\<lambda>index.
       bind (raft_log_Get index) (\<lambda>entry.
       bind (dec_sequence_id (entry_producer_id entry)) (\<lambda>_.
       bind (gets (\<lambda>s. producer_next_sequence_id s (entry_producer_id entry))) (\<lambda>id.
       verify (id \<ge> 0) ''Producer next sequence id must be non-negative'')))))"

definition accept_entries_mtf :: "LogEntry_mtf AppendEntriesRequest \<Rightarrow> (MetamorphosisNode, unit) exec" where
  "accept_entries_mtf request =
     (let prev = ae_prev_log_index request in
     bind (gets commit_index) (\<lambda>commit.
     bind (check_committed commit (u64_inc prev) (ae_entries request)) (\<lambda>_.
     bind (uncount_entries prev) (\<lambda>_.
     let first = u64_inc (max prev commit);
         new_entries = drop (u64_sub (u64_sub first prev) 1) (ae_entries request);
         write_batch = put_entries first new_entries (WriteBatch_DeleteRange first u64_max MakeWriteBatch) in
     bind (for_each new_entries (\<lambda>log_entry. inc_sequence_id (entry_producer_id log_entry))) (\<lambda>_.
     bind (bind (with_log (kv_Write write_batch)) expect_ok) (\<lambda>_.
     bind GetSavedLogSize_mtf (\<lambda>log_size.
     modify (commit_index_update (\<lambda>_. max commit (min (ae_leader_commit request) log_size))))))))))"

definition AppendEntries_mtf ::
  "LogEntry_mtf AppendEntriesRequest \<Rightarrow> (MetamorphosisNode, AppendEntriesResult) exec" where
  "AppendEntries_mtf request =
     bind GetCurrentTerm_mtf (\<lambda>current_term.
     let response = (\<lambda>success. \<lparr>aer_term = current_term, aer_success = success\<rparr>) in
     if ae_term request < current_term then ret (response False)
     else
     bind (modify Stop_reset_election_timeout) (\<lambda>_.
     bind (gets state) (\<lambda>st.
     bind (if ae_term request \<ge> current_term \<and> st \<noteq> Follower then BecomeFollower_mtf else ret ()) (\<lambda>_.
     bind GetCurrentTerm_mtf (\<lambda>term.
     bind (if ae_term request > term then UpdateTerm_mtf (ae_term request) None else ret ()) (\<lambda>_.
     bind (verify (ae_prev_log_index request \<noteq> 0 \<or> ae_prev_log_term request = 0) ''invalid prev_log_term'') (\<lambda>_.
     bind GetSavedLogSize_mtf (\<lambda>log_size.
     if ae_prev_log_index request > log_size then ret (response False)
     else
     bind (if ae_prev_log_index request \<noteq> 0
           then bind (raft_log_Get (ae_prev_log_index request)) (\<lambda>e.
                ret (entry_term e = ae_prev_log_term request))
           else ret True) (\<lambda>consistent.
     if \<not> consistent then ret (response False)
     else
     bind (accept_entries_mtf request) (\<lambda>_.
     ret (response True)))))))))))"

section \<open>The leader\<close>

definition StartLeader_finish_mtf :: "(MetamorphosisNode, unit) exec" where
  "StartLeader_finish_mtf = modify (pending_log_update (\<lambda>_. []))"

text \<open>
  \<^verbatim>\<open>UpdateCommitIndex\<close>: the greatest index a majority holds, then the waiting appends
  between the old and the new commit index get their offsets.
\<close>

definition FindCommitIndex_mtf :: "node_config \<Rightarrow> (('e, 'm) node_scheme, nat) exec" where
  "FindCommitIndex_mtf config =
     bind GetSavedLogSize_mtf (\<lambda>log_size.
     bind (gets (\<lambda>s. (match_index s, commit_index s, current_term_start_index s))) (\<lambda>(match, commit, start).
     if log_size > commit \<and> log_size \<ge> start \<and> length match < length (cluster_nodes config)
     then lift (Err (UndefinedBehaviour ''vector index''))
     else ret (find_commit_index config match commit start log_size)))"

definition answer_pending_mtf :: "nat \<Rightarrow> (MetamorphosisNode, unit) exec" where
  "answer_pending_mtf index =
     bind (gets (\<lambda>s. pending_requests s index)) (\<lambda>it.
     case it of
       None \<Rightarrow> ret ()
     | Some ptr \<Rightarrow> modify (\<lambda>s. s\<lparr>pending_offset := (pending_offset s)(ptr := index),
         replication_finished := (replication_finished s)(ptr := True)\<rparr>))"

definition UpdateCommitIndex_mtf :: "node_config \<Rightarrow> (MetamorphosisNode, unit) exec" where
  "UpdateCommitIndex_mtf config =
     bind (FindCommitIndex_mtf config) (\<lambda>new_commit_index.
     bind (gets commit_index) (\<lambda>commit.
     bind (for_each [u64_inc commit ..< Suc new_commit_index] answer_pending_mtf) (\<lambda>_.
     modify (commit_index_update (\<lambda>_. new_commit_index)))))"

text \<open>The main session before its loop, and the body of the loop up to the await.\<close>

definition StartLeaderMainSession_mtf :: "node_config \<Rightarrow> (MetamorphosisNode, unit) exec" where
  "StartLeaderMainSession_mtf config =
     bind GetSavedLogSize_mtf (\<lambda>log_size.
     set_at match_index match_index_update (node_id config) log_size)"

definition StartLeaderMainSession_body_mtf :: "node_config \<Rightarrow> (MetamorphosisNode, unit) exec" where
  "StartLeaderMainSession_body_mtf config =
     bind (gets state) (\<lambda>st.
     if st \<noteq> Leader then ret ()
     else
     bind (gets pending_log) (\<lambda>pending.
     bind (gets match_index) (\<lambda>match.
     bind (at match (node_id config)) (\<lambda>own.
     bind (for_each pending (\<lambda>log_entry.
         bind (inc_sequence_id (entry_producer_id log_entry)) (\<lambda>_.
         modify (\<lambda>s. s\<lparr>pending_producers := pending_producers s - {entry_producer_id log_entry}\<rparr>)))) (\<lambda>_.
     bind (bind (with_log (kv_Write (put_entries (u64_inc own) pending MakeWriteBatch))) expect_ok) (\<lambda>_.
     bind (set_at match_index match_index_update (node_id config) (u64_add own (length pending))) (\<lambda>_.
     bind (modify (pending_log_update (\<lambda>_. []))) (\<lambda>_.
     UpdateCommitIndex_mtf config))))))))"

text \<open>
  A session with another node, one round: the request, and what is done with its result. The local
  variable \<^verbatim>\<open>is_alive\<close> of the session goes in and out. Entries that are known to be
  committed are sent without their data; a node outside the main ones gets only
  those, as long as all main nodes are alive.
\<close>

definition clear_data :: "LogEntry_mtf \<Rightarrow> LogEntry_mtf" where
  "clear_data entry = entry\<lparr>entry_data := ''''\<rparr>"

definition StartLeaderNodeSession_mtf ::
  "node_config \<Rightarrow> nat \<Rightarrow> (MetamorphosisNode, LogEntry_mtf AppendEntriesRequest option) exec" where
  "StartLeaderNodeSession_mtf config peer =
     bind (gets state) (\<lambda>st.
     if st \<noteq> Leader then ret None
     else
     bind (gets next_index) (\<lambda>next.
     bind (at next peer) (\<lambda>next_peer.
     bind (verify (next_peer \<ge> 1) ''invalid next_index'') (\<lambda>_.
     bind GetCurrentTerm_mtf (\<lambda>term.
     bind (if next_peer = 1 then ret 0
           else bind (raft_log_Get (u64_dec next_peer)) (\<lambda>e. ret (entry_term e))) (\<lambda>prev_log_term.
     bind (gets commit_index) (\<lambda>commit.
     bind (gets alive_main_nodes_count) (\<lambda>alive.
     bind (if \<not> IsMainNode config peer \<and> alive = MajorityCount_mtf config then ret commit
           else bind (at next (node_id config)) (\<lambda>next_own. ret (u64_dec next_own))) (\<lambda>last_log_entry_index.
     bind (map_exec [next_peer ..< Suc last_log_entry_index] (\<lambda>index.
         bind (GetLogEntry_mtf index) (\<lambda>log_entry.
         ret (if index \<le> commit then clear_data log_entry else log_entry)))) (\<lambda>entries.
     ret (Some \<lparr>ae_term = term, ae_leader_id = node_id config, ae_prev_log_index = u64_dec next_peer,
          ae_prev_log_term = prev_log_term, ae_entries = entries, ae_leader_commit = commit\<rparr>)))))))))))"

definition AppendEntries_response_mtf ::
  "node_config \<Rightarrow> nat \<Rightarrow> LogEntry_mtf AppendEntriesRequest \<Rightarrow> (AppendEntriesResult, 'err) Result \<Rightarrow> bool \<Rightarrow>
   (MetamorphosisNode, bool) exec" where
  "AppendEntries_response_mtf config peer request result is_alive =
     bind (gets state) (\<lambda>st.
     if st \<noteq> Leader then ret is_alive
     else case result of
       Err _ \<Rightarrow>
         if is_alive
         then bind (if IsMainNode config peer
                then modify (\<lambda>s. s\<lparr>alive_main_nodes_count := u64_dec (alive_main_nodes_count s)\<rparr>) else ret ()) (\<lambda>_.
              ret False)
         else ret is_alive
     | Ok response \<Rightarrow>
         bind (if \<not> is_alive \<and> IsMainNode config peer
               then modify (\<lambda>s. s\<lparr>alive_main_nodes_count := u64_inc (alive_main_nodes_count s)\<rparr>) else ret ()) (\<lambda>_.
         bind GetCurrentTerm_mtf (\<lambda>term.
         if aer_term response > term
         then bind (UpdateTerm_mtf (aer_term response) None) (\<lambda>_.
              bind (gets state) (\<lambda>st.
              bind (if st \<noteq> Follower then BecomeFollower_mtf else ret ()) (\<lambda>_. ret True)))
         else
         if \<not> aer_success response
         then bind (gets next_index) (\<lambda>next.
              bind (at next peer) (\<lambda>next_peer.
              bind (verify (next_peer \<ge> 2) ''invalid state'') (\<lambda>_.
              bind (set_at next_index next_index_update peer (u64_dec next_peer)) (\<lambda>_. ret True))))
         else
         bind (set_at match_index match_index_update peer
             (u64_add (ae_prev_log_index request) (length (ae_entries request)))) (\<lambda>_.
         bind (gets next_index) (\<lambda>next.
         bind (at next peer) (\<lambda>next_peer.
         bind (set_at next_index next_index_update peer
             (u64_add next_peer (length (ae_entries request)))) (\<lambda>_.
         bind (UpdateCommitIndex_mtf config) (\<lambda>_. ret True))))))))"

section \<open>Followers and candidates\<close>

definition StartFollower_mtf :: "(('e, 'm) node_scheme, unit) exec" where
  "StartFollower_mtf = modify (reset_election_timeout_update (\<lambda>_. new_StopState))"

definition StartFollower_wake_mtf :: "(('e, 'm) node_scheme, unit) exec" where
  "StartFollower_wake_mtf =
     bind (gets (\<lambda>s. cancelled (reset_election_timeout s))) (\<lambda>stopped.
     if \<not> stopped then BecomeCandidate_mtf else ret ())"

definition StartCandidate_mtf ::
  "node_config \<Rightarrow> (('e log_entry_scheme, 'm) node_scheme, RequestVoteRequest \<times> nat) exec" where
  "StartCandidate_mtf config =
     bind (modify (stop_election_update (\<lambda>_. new_StopState))) (\<lambda>_.
     bind GetCurrentTerm_mtf (\<lambda>term.
     bind (UpdateTerm_mtf (u64_inc term) (Some (node_id config))) (\<lambda>_.
     bind GetCurrentTerm_mtf (\<lambda>term'.
     bind GetLastSavedLogTerm_mtf (\<lambda>last_log_term.
     bind GetSavedLogSize_mtf (\<lambda>last_log_index.
     ret (\<lparr>rv_term = term', rv_candidate_id = node_id config, rv_last_log_index = last_log_index,
           rv_last_log_term = last_log_term\<rparr>, 1)))))))"

definition election_timer_mtf :: "(('e, 'm) node_scheme, unit) exec" where
  "election_timer_mtf = modify Stop_stop_election"

definition RequestVote_response_mtf ::
  "node_config \<Rightarrow> (RequestVoteResult, 'err) Result \<Rightarrow> nat \<Rightarrow> (MetamorphosisNode, nat) exec" where
  "RequestVote_response_mtf config result votes_count =
     (case result of
        Err _ \<Rightarrow> ret votes_count
      | Ok v \<Rightarrow>
          bind GetCurrentTerm_mtf (\<lambda>current_term.
          if current_term < rvr_term v
          then bind (UpdateTerm_mtf (rvr_term v) None) (\<lambda>_.
               bind (gets state) (\<lambda>st.
               bind (if st \<noteq> Follower then BecomeFollower_mtf else ret ()) (\<lambda>_. ret votes_count)))
          else if \<not> rvr_vote_granted v then ret votes_count
          else let votes_count = u64_inc votes_count in
            bind (gets state) (\<lambda>st.
            bind (if votes_count = MajorityCount_mtf config \<and> st = Candidate
                  then BecomeLeader_mtf config else ret ()) (\<lambda>_.
            ret votes_count))))"

section \<open>The members that repeat the Raft node\<close>

lemma core_accessors:
  "MajorityCount_mtf = MajorityCount" "GetCurrentTerm_mtf = GetCurrentTerm" "GetVotedFor_mtf = GetVotedFor"
  "GetSavedLogSize_mtf = GetSavedLogSize" "GetLastSavedLogTerm_mtf = GetLastSavedLogTerm"
  by (simp_all only: fun_eq_iff MajorityCount_mtf_def MajorityCount_def GetCurrentTerm_mtf_def GetCurrentTerm_def
      GetVotedFor_mtf_def GetVotedFor_def GetSavedLogSize_mtf_def GetSavedLogSize_def
      GetLastSavedLogTerm_mtf_def GetLastSavedLogTerm_def) simp_all

lemma core_log: "GetLogEntry_mtf = GetLogEntry" "UpdateTerm_mtf = UpdateTerm"
  by (simp_all only: fun_eq_iff GetLogEntry_mtf_def GetLogEntry_def UpdateTerm_mtf_def UpdateTerm_def
      core_accessors) simp_all

lemma core_states: "BecomeFollower_mtf = BecomeFollower" "BecomeCandidate_mtf = BecomeCandidate"
  by (simp_all only: BecomeFollower_mtf_def BecomeFollower_def BecomeCandidate_mtf_def BecomeCandidate_def core_accessors)

lemma core_elections:
  "RequestVote_mtf = RequestVote" "StartFollower_mtf = StartFollower" "StartFollower_wake_mtf = StartFollower_wake"
  "StartCandidate_mtf = StartCandidate" "election_timer_mtf = election_timer"
  "FindCommitIndex_mtf = FindCommitIndex"
  by (simp_all only: fun_eq_iff RequestVote_mtf_def RequestVote_def BecomeFollower_if_needed_def StartFollower_mtf_def
      StartFollower_def StartFollower_wake_mtf_def StartFollower_wake_def StartCandidate_mtf_def StartCandidate_def
      election_timer_mtf_def election_timer_def FindCommitIndex_mtf_def FindCommitIndex_def
      core_accessors core_log core_states) simp_all

lemma core_vote_response:
  "RequestVote_response_mtf config result votes = RequestVote_response config (BecomeLeader_mtf config) result votes"
  unfolding RequestVote_response_mtf_def RequestVote_response_def BecomeFollower_if_needed_def
    core_accessors core_log core_states bind_assoc ..

lemmas core_simps = core_accessors core_log core_states core_elections core_vote_response

end
