(* ===== verification/Mtf_Replication.thy ===== *)
theory Mtf_Replication
  imports Mtf_Node
begin

text \<open>
  What the operations of the Metamorphosis node (\<^verbatim>\<open>src/metamorphosis/node/node.cpp\<close>)
  do: the effect of each of them as an equation, the counters that make appends idempotent, the commit index and
  the offsets of the waiting appends, and the requests of a leader to its peers.
\<close>

section \<open>Sequence ids\<close>

text \<open>Counting up and down, one entry at a time.\<close>

definition inc_ids :: "nat list \<Rightarrow> (nat \<Rightarrow> nat) \<Rightarrow> nat \<Rightarrow> nat" where
  "inc_ids ids f = fold (\<lambda>i f. f(i := u64_inc (f i))) ids f"

definition dec_ids :: "nat list \<Rightarrow> (nat \<Rightarrow> nat) \<Rightarrow> nat \<Rightarrow> nat" where
  "dec_ids ids f = fold (\<lambda>i f. f(i := u64_dec (f i))) ids f"

definition producers :: "LogEntry_mtf list \<Rightarrow> nat list" where
  "producers es = map entry_producer_id es"

lemma inc_ids_word: "(of_nat (inc_ids ids f i) :: 64 word) = of_nat (f i) + of_nat (count_list ids i)"
proof (induction ids arbitrary: f)
  case (Cons a ids)
  then show ?case
    using Cons.IH [of "f(a := u64_inc (f a))"] by (auto simp: inc_ids_def u64_inc_def word_u64_add)
qed (simp add: inc_ids_def)

lemma dec_ids_word: "(of_nat (dec_ids ids f i) :: 64 word) = of_nat (f i) - of_nat (count_list ids i)"
proof (induction ids arbitrary: f)
  case (Cons a ids)
  then show ?case
    using Cons.IH [of "f(a := u64_dec (f a))"] by (auto simp: dec_ids_def u64_dec_def word_u64_sub)
qed (simp add: dec_ids_def)

lemma ids_le:
  "f i \<le> u64_max \<Longrightarrow> inc_ids ids f i \<le> u64_max" "f i \<le> u64_max \<Longrightarrow> dec_ids ids f i \<le> u64_max"
proof -
  show "f i \<le> u64_max \<Longrightarrow> inc_ids ids f i \<le> u64_max"
    by (induction ids arbitrary: f) (auto simp: inc_ids_def u64_le)
  show "f i \<le> u64_max \<Longrightarrow> dec_ids ids f i \<le> u64_max"
    by (induction ids arbitrary: f) (auto simp: dec_ids_def u64_le)
qed

lemma ids_append: "inc_ids (xs @ ys) f = inc_ids ys (inc_ids xs f)" "dec_ids (xs @ ys) f = dec_ids ys (dec_ids xs f)"
  by (simp_all add: inc_ids_def dec_ids_def)

text \<open>What the comment on the field promises: the number of messages in the log, by producer.\<close>

definition sequence_ids_ok :: "MetamorphosisNode \<Rightarrow> bool" where
  "sequence_ids_ok s \<longleftrightarrow> (\<forall>i. producer_next_sequence_id s i = count_list (producers (log_of s)) i)"

section \<open>Fields of their own\<close>

lemma mtf_update_db [simp]:
  "term_of (producer_next_sequence_id_update f s) = term_of s" "vote_of (producer_next_sequence_id_update f s) = vote_of s"
  "log_of (producer_next_sequence_id_update f s) = log_of s" "wf_db (producer_next_sequence_id_update f s) = wf_db s"
  "term_of (pending_producers_update g s) = term_of s" "vote_of (pending_producers_update g s) = vote_of s"
  "log_of (pending_producers_update g s) = log_of s" "wf_db (pending_producers_update g s) = wf_db s"
  "term_of (pending_offset_update h s) = term_of s" "vote_of (pending_offset_update h s) = vote_of s"
  "log_of (pending_offset_update h s) = log_of s" "wf_db (pending_offset_update h s) = wf_db s"
  "term_of (alive_main_nodes_count_update k s) = term_of s" "vote_of (alive_main_nodes_count_update k s) = vote_of s"
  "log_of (alive_main_nodes_count_update k s) = log_of s" "wf_db (alive_main_nodes_count_update k s) = wf_db s"
  by (simp_all add: term_of_def vote_of_def log_of_def wf_db_def)

lemma ids_ae_entry [simp]:
  "producer_next_sequence_id (ae_entry request s) = producer_next_sequence_id s"
  "pending_producers (ae_entry request s) = pending_producers s"
  by (simp_all add: ae_entry_def set_term_def step_down_def follower_of_def Stop_stop_leader_def
      Stop_stop_election_def Stop_reset_election_timeout_def Let_def split: prod.splits)

text \<open>The loops.\<close>

lemma count_up_run:
  "for_each es (\<lambda>e. inc_sequence_id (entry_producer_id e)) s =
     (Ok (), s\<lparr>producer_next_sequence_id := inc_ids (producers es) (producer_next_sequence_id s)\<rparr>)"
  by (induction es arbitrary: s)
    (simp_all add: producers_def inc_ids_def inc_sequence_id_def exec_simps)

lemma uncount_loop:
  assumes "wf_db s" and "c \<le> length (raft_log s)"
  shows "for_each [Suc c ..< Suc (length (raft_log s))] (\<lambda>index.
       bind (raft_log_Get index) (\<lambda>entry.
       bind (dec_sequence_id (entry_producer_id entry)) (\<lambda>_.
       bind (gets (\<lambda>s. producer_next_sequence_id s (entry_producer_id entry))) (\<lambda>id.
       verify (id \<ge> 0) ''Producer next sequence id must be non-negative'')))) s =
     (Ok (), s\<lparr>producer_next_sequence_id := dec_ids (producers (drop c (log_of s))) (producer_next_sequence_id s)\<rparr>)"
  using assms
proof (induction "length (raft_log s) - c" arbitrary: c s)
  case 0
  then have "c = length (log_of s)" by simp
  then show ?case by (simp add: ret_run producers_def dec_ids_def)
next
  case (Suc k)
  let ?f = "producer_next_sequence_id s" and ?i = "entry_producer_id (log_of s ! c)"
  let ?s = "s\<lparr>producer_next_sequence_id := ?f(?i := u64_dec (?f ?i))\<rparr>"
  have lt: "c < length (raft_log s)" using Suc.hyps(2) by simp
  then have d: "drop c (log_of s) = log_of s ! c # drop (Suc c) (log_of s)"
    by (simp add: Cons_nth_drop_Suc)
  have "[Suc c ..< Suc (length (raft_log s))] = Suc c # [Suc (Suc c) ..< Suc (length (raft_log s))]"
    using lt by (simp add: upt_conv_Cons)
  then show ?case
    using Suc.hyps(1) [of ?s "Suc c"] Suc.hyps(2) Suc.prems lt
    by (simp add: d bind_run raft_log_Get_run dec_sequence_id_def modify_run gets_run verify_run producers_def dec_ids_def
        del: upt_Suc)
qed

lemma uncount_entries_run:
  assumes "wf_db s" and "prev \<le> length (raft_log s)" and "length (raft_log s) < u64_max"
  shows "uncount_entries prev s =
     (Ok (), s\<lparr>producer_next_sequence_id := dec_ids (producers (drop prev (log_of s))) (producer_next_sequence_id s)\<rparr>)"
proof -
  have "u64_inc prev = Suc prev" using assms by (simp add: u64_inc_exact)
  then show ?thesis
    using uncount_loop [OF assms(1,2)] assms(1)
    by (simp add: uncount_entries_def core_simps bind_run GetSavedLogSize_run del: upt_Suc)
qed

section \<open>AppendEntries\<close>

definition accepted_mtf :: "LogEntry_mtf AppendEntriesRequest \<Rightarrow> MetamorphosisNode \<Rightarrow> MetamorphosisNode" where
  "accepted_mtf request s =
     (let prev = ae_prev_log_index request; c = commit_index s;
          new = drop (max prev c - prev) (ae_entries request);
          m' = append_log (take (max prev c) (raft_log s)) new
      in (ae_entry request s)\<lparr>raft_log := m', commit_index := new_commit request c (length m'),
           producer_next_sequence_id := inc_ids (producers new)
             (dec_ids (producers (drop prev (log_of s))) (producer_next_sequence_id s))\<rparr>)"

lemma accept_entries_mtf_run:
  assumes "wf_db s" and "fits request s" and "ae_prev_log_index request \<le> length (raft_log s)"
  shows "accept_entries_mtf request (ae_entry request s) =
    (if committed_agree (ae_prev_log_index request) (commit_index s) (ae_entries request) (log_of s)
     then (Ok (), accepted_mtf request s)
     else (Err (VerifyFailed ''invalid state: committed log is inconsistent''), ae_entry request s))"
proof -
  let ?s1 = "ae_entry request s" and ?prev = "ae_prev_log_index request" and ?c = "commit_index s"
  let ?new = "drop (max ?prev ?c - ?prev) (ae_entries request)"
  let ?m' = "append_log (take (max ?prev ?c) (raft_log s)) ?new"
  let ?f = "inc_ids (producers ?new) (dec_ids (producers (drop ?prev (log_of s))) (producer_next_sequence_id s))"
  let ?s2 = "?s1\<lparr>producer_next_sequence_id := ?f\<rparr>"
  note s1 = ae_entry_facts [OF assms(1), of request]
  have fit: "?c \<le> length (raft_log s)" "length (raft_log s) < u64_max"
    "?prev + length (ae_entries request) < u64_max"
    using assms(2) by (auto simp: fits_def)
  have check: "check_committed ?c (u64_inc ?prev) (ae_entries request) ?s1 =
     (if committed_agree ?prev ?c (ae_entries request) (log_of s) then (Ok (), ?s1)
      else (Err (VerifyFailed ''invalid state: committed log is inconsistent''), ?s1))"
    using fit assms(3) by (simp add: check_committed_run s1 committed_agree_def u64_inc_exact)
  have uncount: "uncount_entries ?prev ?s1 =
     (Ok (), ?s1\<lparr>producer_next_sequence_id := dec_ids (producers (drop ?prev (log_of s))) (producer_next_sequence_id s)\<rparr>)"
    using uncount_entries_run [OF s1(1), of ?prev] fit assms(3) by (simp add: s1)
  have first: "u64_sub (u64_sub (u64_inc (max ?prev ?c)) ?prev) 1 = max ?prev ?c - ?prev"
    using fit assms(3) by (simp add: u64_inc_exact u64_sub_exact)
  have run_write: "with_log (kv_Write (put_entries (u64_inc (max ?prev ?c)) ?new
       (WriteBatch_DeleteRange (u64_inc (max ?prev ?c)) u64_max MakeWriteBatch))) ?s2 = (Ok (Ok ()), ?s2\<lparr>raft_log := ?m'\<rparr>)"
  proof -
    have wf: "wf_db ?s2" and eq: "raft_log ?s2 = raft_log s" "commit_index ?s2 = ?c" using s1 by simp_all
    from accept_entries_run [OF wf, of ?prev "ae_entries request", unfolded eq first] fit assms(3) show ?thesis by blast
  qed
  have wf: "wf_db (?s2\<lparr>raft_log := ?m'\<rparr>)"
    using s1(1) by (simp add: wf_db_def is_log_append_log is_log_take s1)
  have sz: "GetSavedLogSize (?s2\<lparr>raft_log := ?m'\<rparr>) = (Ok (length ?m'), ?s2\<lparr>raft_log := ?m'\<rparr>)"
    using GetSavedLogSize_run [OF wf] by (simp del: length_append_log)
  show ?thesis
    by (simp add: accept_entries_mtf_def core_simps Let_def bind_run gets_run s1(7) check uncount first count_up_run
        run_write expect_ok_run sz modify_run accepted_mtf_def new_commit_def del: length_append_log One_nat_def)
qed

lemma AppendEntries_mtf_core:
  "AppendEntries_mtf request =
     bind GetCurrentTerm (\<lambda>current_term.
     let response = (\<lambda>success. \<lparr>aer_term = current_term, aer_success = success\<rparr>) in
     if ae_term request < current_term then ret (response False)
     else
     bind (follow_leader (ae_term request) current_term) (\<lambda>_.
     bind (check_prev_log (ae_prev_log_index request) (ae_prev_log_term request)) (\<lambda>consistent.
     if \<not> consistent then ret (response False)
     else bind (accept_entries_mtf request) (\<lambda>_. ret (response True)))))"
  unfolding AppendEntries_mtf_def follow_leader_def check_prev_log_def core_simps Let_def bind_assoc bind_if bind_ret
    not_False_eq_True not_True_eq_False if_True if_False ..

lemma AppendEntries_mtf_run:
  assumes "wf_db s" and "fits request s"
  shows "AppendEntries_mtf request s =
    (let res = (\<lambda>b. Ok \<lparr>aer_term = term_of s, aer_success = b\<rparr>); s1 = ae_entry request s;
         prev = ae_prev_log_index request in
     if ae_term request < term_of s then (res False, s)
     else if prev = 0 \<and> ae_prev_log_term request \<noteq> 0
     then (Err (VerifyFailed ''invalid prev_log_term''), s1)
     else if \<not> log_matches request (log_of s) then (res False, s1)
     else if \<not> committed_agree prev (commit_index s) (ae_entries request) (log_of s)
     then (Err (VerifyFailed ''invalid state: committed log is inconsistent''), s1)
     else (res True, accepted_mtf request s))"
proof -
  note s1 = ae_entry_facts [OF assms(1), of request]
  have "log_matches request (log_of s) \<Longrightarrow> ae_prev_log_index request \<le> length (raft_log s)"
    by (simp add: log_matches_def)
  then show ?thesis
    using assms
    by (auto simp: AppendEntries_mtf_core exec_simps Let_def not_less follow_leader_run check_prev_log_run
        accept_entries_mtf_run s1)
qed

lemma accepted_mtf_facts:
  assumes "wf_db s"
  shows "wf_db (accepted_mtf request s)"
    and "term_of (accepted_mtf request s) = max (term_of s) (ae_term request)"
    and "vote_of (accepted_mtf request s) = (if ae_term request > term_of s then None else vote_of s)"
    and "state (accepted_mtf request s) = Follower"
    and "log_of (accepted_mtf request s) =
       new_log (ae_prev_log_index request) (commit_index s) (ae_entries request) (log_of s)"
    and "commit_index (accepted_mtf request s) =
       new_commit request (commit_index s) (length (log_of (accepted_mtf request s)))"
proof -
  note s1 = ae_entry_facts [OF assms, of request]
  show "wf_db (accepted_mtf request s)"
    "term_of (accepted_mtf request s) = max (term_of s) (ae_term request)"
    "vote_of (accepted_mtf request s) = (if ae_term request > term_of s then None else vote_of s)"
    "state (accepted_mtf request s) = Follower"
    using assms s1
    by (simp_all add: accepted_mtf_def Let_def wf_db_def term_of_def vote_of_def is_log_append_log is_log_take)
  show "log_of (accepted_mtf request s) =
      new_log (ae_prev_log_index request) (commit_index s) (ae_entries request) (log_of s)"
    by (simp add: accepted_mtf_def Let_def log_of_def new_log_def take_map)
  show "commit_index (accepted_mtf request s) =
      new_commit request (commit_index s) (length (log_of (accepted_mtf request s)))"
    by (simp add: accepted_mtf_def Let_def)
qed

text \<open>
  The counters after an accepted request: the entries between the preceding one and the
  commit index, which stay in the log, are given back but not taken again.
\<close>

lemma count_producers_append: "count_list (producers (xs @ ys)) i = count_list (producers xs) i + count_list (producers ys) i"
  by (simp add: producers_def)

lemma count_producers_le: "count_list (producers xs) i \<le> length xs"
  using count_le_length [of "producers xs" i] by (simp add: producers_def)

lemma accepted_sequence_ids:
  assumes "sequence_ids_ok s" and "fits request s" and "ae_prev_log_index request \<le> length (raft_log s)"
  shows "producer_next_sequence_id (accepted_mtf request s) i =
    u64_sub (count_list (producers (log_of (accepted_mtf request s))) i)
      (count_list (producers (entries_between (ae_prev_log_index request) (commit_index s) (log_of s))) i)"
proof -
  let ?prev = "ae_prev_log_index request" and ?c = "commit_index s" and ?es = "log_of s"
  let ?m = "max ?prev ?c"
  let ?new = "drop (?m - ?prev) (ae_entries request)"
  let ?n = "\<lambda>xs. count_list (producers xs) i"
  have log: "log_of (accepted_mtf request s) = take ?m ?es @ ?new"
    by (simp add: accepted_mtf_def Let_def log_of_def take_map)
  have ids: "producer_next_sequence_id (accepted_mtf request s) i =
      inc_ids (producers ?new) (dec_ids (producers (drop ?prev ?es)) (producer_next_sequence_id s)) i"
    by (simp add: accepted_mtf_def Let_def)
  have start: "producer_next_sequence_id s i = ?n ?es" using assms(1) by (simp add: sequence_ids_ok_def)
  have split: "?n ?es = ?n (take ?prev ?es) + ?n (drop ?prev ?es)"
    by (simp flip: count_producers_append)
  have "take ?prev ?es @ entries_between ?prev ?c ?es = take ?m ?es"
    using entries_between_append [of ?prev ?c ?es] by (cases "?prev \<le> ?c") (simp_all add: max_def, simp add: entries_between_def)
  then have upto: "?n (take ?m ?es) = ?n (take ?prev ?es) + ?n (entries_between ?prev ?c ?es)"
    by (metis count_producers_append)
  have "?n ?es \<le> u64_max"
    using count_producers_le [of ?es i] assms(2) by (simp add: fits_def)
  then have le: "producer_next_sequence_id (accepted_mtf request s) i \<le> u64_max"
    unfolding ids by (intro ids_le) (simp add: start)
  have "(of_nat (producer_next_sequence_id (accepted_mtf request s) i) :: 64 word) =
      of_nat (?n ?es) - of_nat (?n (drop ?prev ?es)) + of_nat (?n ?new)"
    unfolding ids by (simp add: inc_ids_word dec_ids_word start)
  also have "\<dots> = of_nat (?n (take ?m ?es @ ?new)) - of_nat (?n (entries_between ?prev ?c ?es))"
    by (simp add: split upto count_producers_append)
  also have "\<dots> = of_nat (u64_sub (?n (log_of (accepted_mtf request s))) (?n (entries_between ?prev ?c ?es)))"
    by (simp add: word_u64_sub log)
  finally show ?thesis
    using le u64_le(2) word_u64_inject by blast
qed

section \<open>UpdateCommitIndex\<close>

text \<open>The appends that wait for the indices of a list get their offsets.\<close>

primrec answer_offsets :: "nat list \<Rightarrow> MetamorphosisNode \<Rightarrow> MetamorphosisNode" where
  "answer_offsets [] s = s"
| "answer_offsets (i # is) s = answer_offsets is
     (case pending_requests s i of
        None \<Rightarrow> s
      | Some ptr \<Rightarrow> s\<lparr>pending_offset := (pending_offset s)(ptr := i),
          replication_finished := (replication_finished s)(ptr := True)\<rparr>)"

lemma answer_offsets_keeps:
  "raft_state (answer_offsets is s) = raft_state s" "raft_log (answer_offsets is s) = raft_log s"
  "state (answer_offsets is s) = state s" "commit_index (answer_offsets is s) = commit_index s"
  "pending_requests (answer_offsets is s) = pending_requests s" "match_index (answer_offsets is s) = match_index s"
  "next_index (answer_offsets is s) = next_index s" "pending_log (answer_offsets is s) = pending_log s"
  "next_request (answer_offsets is s) = next_request s"
  "current_term_start_index (answer_offsets is s) = current_term_start_index s"
  "producer_next_sequence_id (answer_offsets is s) = producer_next_sequence_id s"
  "pending_producers (answer_offsets is s) = pending_producers s"
  "alive_main_nodes_count (answer_offsets is s) = alive_main_nodes_count s"
  by (induction "is" arbitrary: s) (auto split: option.splits)

lemma answer_offsets_other:
  "(\<And>j. j \<in> set is \<Longrightarrow> pending_requests s j \<noteq> Some p) \<Longrightarrow>
     pending_offset (answer_offsets is s) p = pending_offset s p \<and>
     replication_finished (answer_offsets is s) p = replication_finished s p"
  by (induction "is" arbitrary: s) (auto split: option.splits)

lemma answer_offsets_answered:
  assumes "pending_inj s" and "pending_requests s i = Some p" and "i \<in> set is"
  shows "pending_offset (answer_offsets is s) p = i \<and> replication_finished (answer_offsets is s) p"
  using assms
proof (induction "is" arbitrary: s)
  case (Cons j js)
  let ?s = "case pending_requests s j of None \<Rightarrow> s
     | Some ptr \<Rightarrow> s\<lparr>pending_offset := (pending_offset s)(ptr := j),
         replication_finished := (replication_finished s)(ptr := True)\<rparr>"
  have same: "pending_requests ?s = pending_requests s" by (simp split: option.splits)
  show ?case
  proof (cases "i \<in> set js")
    case True
    then show ?thesis
      using Cons.IH [of ?s] Cons.prems(1,2) same by (simp add: pending_inj_def)
  next
    case False
    then have j: "j = i" using Cons.prems(3) by simp
    have "pending_requests ?s k \<noteq> Some p" if "k \<in> set js" for k
      using Cons.prems(1,2) False that unfolding same pending_inj_def by blast
    with j show ?thesis
      using answer_offsets_other [of js ?s p] Cons.prems(2) by simp
  qed
qed simp

lemma answer_loop: "for_each is answer_pending_mtf s = (Ok (), answer_offsets is s)"
  by (induction "is" arbitrary: s) (auto simp: exec_simps answer_pending_mtf_def split: option.splits)

definition commit_updated_mtf :: "node_config \<Rightarrow> MetamorphosisNode \<Rightarrow> MetamorphosisNode" where
  "commit_updated_mtf config s =
     (answer_offsets [Suc (commit_index s) ..< Suc (committed_to config s)] s)\<lparr>commit_index := committed_to config s\<rparr>"

lemma UpdateCommitIndex_mtf_run:
  assumes "wf_db s" and "commit_index s \<le> length (raft_log s)" and "length (raft_log s) < u64_max"
    and "length (cluster_nodes config) \<le> length (match_index s)"
  shows "UpdateCommitIndex_mtf config s = (Ok (), commit_updated_mtf config s)"
proof -
  have inc: "u64_inc (commit_index s) = Suc (commit_index s)"
    using assms(2,3) by (simp add: u64_inc_exact)
  have find: "FindCommitIndex config s = (Ok (committed_to config s), s)"
    using assms(1,4) by (simp add: FindCommitIndex_run committed_to_def)
  show ?thesis
    by (simp add: UpdateCommitIndex_mtf_def core_simps bind_run find gets_run inc modify_run answer_loop
        commit_updated_mtf_def del: upt_Suc)
qed

lemma commit_updated_mtf_facts [simp]:
  "raft_state (commit_updated_mtf config s) = raft_state s" "raft_log (commit_updated_mtf config s) = raft_log s"
  "state (commit_updated_mtf config s) = state s" "commit_index (commit_updated_mtf config s) = committed_to config s"
  "match_index (commit_updated_mtf config s) = match_index s" "next_index (commit_updated_mtf config s) = next_index s"
  "pending_log (commit_updated_mtf config s) = pending_log s"
  "pending_requests (commit_updated_mtf config s) = pending_requests s"
  "next_request (commit_updated_mtf config s) = next_request s"
  "producer_next_sequence_id (commit_updated_mtf config s) = producer_next_sequence_id s"
  "pending_producers (commit_updated_mtf config s) = pending_producers s"
  "alive_main_nodes_count (commit_updated_mtf config s) = alive_main_nodes_count s"
  "term_of (commit_updated_mtf config s) = term_of s" "vote_of (commit_updated_mtf config s) = vote_of s"
  "log_of (commit_updated_mtf config s) = log_of s" "wf_db (commit_updated_mtf config s) = wf_db s"
  "full_log (commit_updated_mtf config s) = full_log s"
  by (simp_all add: commit_updated_mtf_def answer_offsets_keeps term_of_def vote_of_def log_of_def wf_db_def full_log_def
      del: upt_Suc)

section \<open>Sessions of the leader\<close>

definition pending_written_mtf :: "node_config \<Rightarrow> MetamorphosisNode \<Rightarrow> MetamorphosisNode" where
  "pending_written_mtf config s =
     (pending_written config s)
       \<lparr>producer_next_sequence_id := inc_ids (producers (pending_log s)) (producer_next_sequence_id s),
        pending_producers := pending_producers s - set (producers (pending_log s))\<rparr>"

lemma pending_written_mtf_facts:
  assumes "wf_db s"
  shows "wf_db (pending_written_mtf config s)" "term_of (pending_written_mtf config s) = term_of s"
    "vote_of (pending_written_mtf config s) = vote_of s" "state (pending_written_mtf config s) = state s"
    "log_of (pending_written_mtf config s) = full_log s" "full_log (pending_written_mtf config s) = full_log s"
    "commit_index (pending_written_mtf config s) = commit_index s"
    "length (raft_log (pending_written_mtf config s)) = length (full_log s)"
    "next_index (pending_written_mtf config s) = next_index s" "pending_log (pending_written_mtf config s) = []"
    "match_index (pending_written_mtf config s) = (match_index s)[node_id config := length (full_log s)]"
  using pending_written_facts [OF assms, of config]
  by (simp_all add: pending_written_mtf_def full_log_def) (simp add: pending_written_def)

lemma record_pending_run:
  "for_each es (\<lambda>e. bind (inc_sequence_id (entry_producer_id e)) (\<lambda>_.
       modify (\<lambda>s. s\<lparr>pending_producers := pending_producers s - {entry_producer_id e}\<rparr>))) s =
     (Ok (), s\<lparr>producer_next_sequence_id := inc_ids (producers es) (producer_next_sequence_id s),
        pending_producers := pending_producers s - set (producers es)\<rparr>)"
proof -
  have "P - {a} - B = P - insert a B" for P B and a :: nat by auto
  then show ?thesis
    by (induction es arbitrary: s) (simp_all add: producers_def inc_ids_def inc_sequence_id_def exec_simps)
qed

lemma StartLeaderMainSession_body_mtf_run:
  assumes "wf_db s" and "state s = Leader" and "leader_inv config s"
    and "match_index s ! node_id config = length (raft_log s)" and "commit_index s \<le> length (raft_log s)"
  shows "StartLeaderMainSession_body_mtf config s = (Ok (), commit_updated_mtf config (pending_written_mtf config s))"
proof -
  let ?own = "node_id config" and ?n = "length (raft_log s)" and ?p = "pending_log s"
  let ?s0 = "s\<lparr>producer_next_sequence_id := inc_ids (producers ?p) (producer_next_sequence_id s),
      pending_producers := pending_producers s - set (producers ?p)\<rparr>"
  let ?s1 = "?s0\<lparr>raft_log := append_log (raft_log s) ?p\<rparr>"
  have len: "?n + length ?p < u64_max" and own: "?own < length (match_index s)"
    and m: "length (cluster_nodes config) = length (match_index s)"
    using assms(3) by (auto simp: leader_inv_def Let_def)
  have inc: "u64_inc ?n = Suc ?n" and add: "u64_add ?n (length ?p) = ?n + length ?p"
    using len by (simp_all add: u64_inc_exact u64_add_exact)
  have "is_log (raft_log s)" using assms(1) by (simp add: wf_db_def)
  then have run_write: "with_log (kv_Write (put_entries (Suc ?n) ?p MakeWriteBatch)) ?s0 = (Ok (Ok ()), ?s1)"
    using Write_append [of "raft_log s" ?p] len by (simp add: with_log_def)
  have "UpdateCommitIndex_mtf config (pending_written_mtf config s) =
      (Ok (), commit_updated_mtf config (pending_written_mtf config s))"
    using pending_written_mtf_facts [OF assms(1), of config] assms(5) len m
    by (intro UpdateCommitIndex_mtf_run) (simp_all add: full_log_def)
  moreover have "?s1\<lparr>match_index := (match_index s)[?own := ?n + length ?p], pending_log := []\<rparr> = pending_written_mtf config s"
    by (cases s) (simp add: pending_written_mtf_def pending_written_def)
  ultimately show ?thesis
    using assms(2,4) own
    by (simp add: StartLeaderMainSession_body_mtf_def bind_run gets_run at_run inc record_pending_run run_write expect_ok_run
        set_at_run add modify_run)
qed

text \<open>The last index that is sent to a peer, and the entries up to it.\<close>

definition last_sent :: "node_config \<Rightarrow> nat \<Rightarrow> MetamorphosisNode \<Rightarrow> nat" where
  "last_sent config peer s =
     (if \<not> IsMainNode config peer \<and> alive_main_nodes_count s = MajorityCount config then commit_index s
      else length (full_log s))"

definition sent_entry :: "nat \<Rightarrow> LogEntry_mtf list \<Rightarrow> nat \<Rightarrow> LogEntry_mtf" where
  "sent_entry commit es i = (if i \<le> commit then clear_data (es ! (i - 1)) else es ! (i - 1))"

definition append_request_mtf :: "node_config \<Rightarrow> nat \<Rightarrow> MetamorphosisNode \<Rightarrow> LogEntry_mtf AppendEntriesRequest" where
  "append_request_mtf config peer s =
     (append_request config peer s)\<lparr>ae_entries :=
        map (sent_entry (commit_index s) (full_log s)) [next_index s ! peer ..< Suc (last_sent config peer s)]\<rparr>"

lemma StartLeaderNodeSession_mtf_run:
  assumes "wf_db s" and "state s = Leader" and "leader_inv config s" and "peer < length (cluster_nodes config)"
    and "next_index s ! peer \<le> Suc (length (raft_log s))" and "commit_index s \<le> length (raft_log s)"
  shows "StartLeaderNodeSession_mtf config peer s = (Ok (Some (append_request_mtf config peer s)), s)"
proof -
  let ?next = "next_index s ! peer" and ?own = "next_index s ! node_id config"
  have len: "length (full_log s) < u64_max" and own: "?own = Suc (length (full_log s))"
    and idx: "peer < length (next_index s)" "node_id config < length (next_index s)" "1 \<le> ?next"
    using assms(3,4) by (auto simp: leader_inv_def Let_def full_log_def)
  have dec: "u64_dec ?next = ?next - 1" "u64_dec ?own = length (full_log s)"
    using idx(3) assms(5) len own by (simp_all add: u64_dec_exact full_log_def)
  have prev: "(if ?next = 1 then ret 0 else bind (raft_log_Get (u64_dec ?next)) (\<lambda>e. ret (entry_term e))) s =
      (Ok (ae_prev_log_term (append_request_mtf config peer s)), s)"
    using assms(1,5) idx(3) dec
    by (auto simp: exec_simps append_request_mtf_def append_request_def Let_def full_log_def nth_append)
  have final: "(if \<not> IsMainNode config peer \<and> alive_main_nodes_count s = MajorityCount config then ret (commit_index s)
      else bind (at (next_index s) (node_id config)) (\<lambda>next_own. ret (u64_dec next_own))) s = (Ok (last_sent config peer s), s)"
    using idx(2) dec(2) by (simp add: last_sent_def bind_run at_run ret_run)
  have le: "last_sent config peer s \<le> length (full_log s)"
    using assms(6) by (simp add: last_sent_def full_log_def)
  have entry: "bind (GetLogEntry i) (\<lambda>e. ret (if i \<le> commit_index s then clear_data e else e)) s =
      (Ok (sent_entry (commit_index s) (full_log s) i), s)" if "i \<in> set [?next ..< Suc (last_sent config peer s)]" for i
  proof -
    have "GetLogEntry i s = (Ok (full_log s ! (i - 1)), s)"
      using that idx(3) le len assms(1) by (intro GetLogEntry_run) auto
    then show ?thesis by (simp add: bind_run ret_run sent_entry_def)
  qed
  have entries: "map_exec [?next ..< Suc (last_sent config peer s)]
      (\<lambda>i. bind (GetLogEntry i) (\<lambda>e. ret (if i \<le> commit_index s then clear_data e else e))) s =
      (Ok (ae_entries (append_request_mtf config peer s)), s)"
    using map_exec_run [where f = "sent_entry (commit_index s) (full_log s)" and s = s,
        where xs = "[?next ..< Suc (last_sent config peer s)]"
          and body = "\<lambda>i. bind (GetLogEntry i) (\<lambda>e. ret (if i \<le> commit_index s then clear_data e else e))"] entry
    by (simp add: append_request_mtf_def del: upt_Suc)
  have fields: "append_request_mtf config peer s = \<lparr>ae_term = term_of s, ae_leader_id = node_id config,
      ae_prev_log_index = ?next - 1, ae_prev_log_term = ae_prev_log_term (append_request_mtf config peer s),
      ae_entries = ae_entries (append_request_mtf config peer s), ae_leader_commit = commit_index s\<rparr>"
    by (simp add: append_request_mtf_def append_request_def Let_def)
  show ?thesis
    using assms(1,2) idx
    by (subst fields) (simp add: StartLeaderNodeSession_mtf_def core_simps bind_run gets_run at_run verify_run GetCurrentTerm_run
        prev final entries ret_run dec(1) del: upt_Suc One_nat_def)
qed

text \<open>The answer of a peer: its liveness is recorded first.\<close>

definition alive_again :: "node_config \<Rightarrow> nat \<Rightarrow> bool \<Rightarrow> MetamorphosisNode \<Rightarrow> MetamorphosisNode" where
  "alive_again config peer is_alive s =
     (if \<not> is_alive \<and> IsMainNode config peer then s\<lparr>alive_main_nodes_count := u64_inc (alive_main_nodes_count s)\<rparr> else s)"

lemma alive_again_facts [simp]:
  "raft_state (alive_again config peer b s) = raft_state s" "raft_log (alive_again config peer b s) = raft_log s"
  "state (alive_again config peer b s) = state s" "commit_index (alive_again config peer b s) = commit_index s"
  "match_index (alive_again config peer b s) = match_index s" "next_index (alive_again config peer b s) = next_index s"
  "pending_log (alive_again config peer b s) = pending_log s"
  "current_term_start_index (alive_again config peer b s) = current_term_start_index s"
  "pending_requests (alive_again config peer b s) = pending_requests s"
  "producer_next_sequence_id (alive_again config peer b s) = producer_next_sequence_id s"
  "term_of (alive_again config peer b s) = term_of s" "vote_of (alive_again config peer b s) = vote_of s"
  "log_of (alive_again config peer b s) = log_of s" "wf_db (alive_again config peer b s) = wf_db s"
  "full_log (alive_again config peer b s) = full_log s" "leader_inv config' (alive_again config peer b s) = leader_inv config' s"
  by (simp_all add: alive_again_def full_log_def leader_inv_def)

lemma AppendEntries_response_mtf_run:
  assumes "wf_db s" and "state s = Leader" and "leader_inv config s"
    and "commit_index s \<le> length (raft_log s)" and "peer < length (cluster_nodes config)"
    and "ae_prev_log_index request + length (ae_entries request) \<le> u64_max"
    and "next_index s ! peer + length (ae_entries request) \<le> u64_max"
  shows "AppendEntries_response_mtf config peer request (Ok response) is_alive s =
     (let s = alive_again config peer is_alive s in
      if aer_term response > term_of s then (Ok True, step_down (set_term (aer_term response) None s))
      else if \<not> aer_success response
      then if next_index s ! peer \<ge> 2
           then (Ok True, s\<lparr>next_index := (next_index s)[peer := next_index s ! peer - 1]\<rparr>)
           else (Err (VerifyFailed ''invalid state''), s)
      else (Ok True, commit_updated_mtf config (peer_matched peer request s)))"
proof -
  let ?s = "alive_again config peer is_alive s"
  have idx: "peer < length (next_index s)" "peer < length (match_index s)" "length (raft_log s) < u64_max"
    "length (match_index s) = length (cluster_nodes config)"
    using assms(3,5) by (auto simp: leader_inv_def Let_def)
  have add: "u64_add (ae_prev_log_index request) (length (ae_entries request)) =
      ae_prev_log_index request + length (ae_entries request)"
    "u64_add (next_index s ! peer) (length (ae_entries request)) = next_index s ! peer + length (ae_entries request)"
    using assms(6,7) by (simp_all add: u64_add_exact)
  have wf: "wf_db (peer_matched peer request ?s)"
    using assms(1) by (simp add: peer_matched_def)
  have upd: "UpdateCommitIndex_mtf config (peer_matched peer request ?s) =
      (Ok (), commit_updated_mtf config (peer_matched peer request ?s))"
    using assms(4) idx wf by (intro UpdateCommitIndex_mtf_run) (simp_all add: peer_matched_def)
  have dec: "next_index s ! peer \<ge> 2 \<Longrightarrow> u64_dec (next_index s ! peer) = next_index s ! peer - 1"
    using assms(7) by (simp add: u64_dec_exact)
  have eq: "?s\<lparr>match_index := (match_index s)[peer := ae_prev_log_index request + length (ae_entries request)],
       next_index := (next_index s)[peer := next_index s ! peer + length (ae_entries request)]\<rparr> =
       peer_matched peer request ?s"
    by (simp add: peer_matched_def)
  have first: "(if \<not> is_alive \<and> IsMainNode config peer
       then modify (\<lambda>s. s\<lparr>alive_main_nodes_count := u64_inc (alive_main_nodes_count s)\<rparr>) else ret ()) s = (Ok (), ?s)"
    by (simp add: alive_again_def modify_run ret_run)
  have down: "(if st \<noteq> Follower then BecomeFollower else ret ()) x = (if st = Follower then (Ok (), x) else BecomeFollower x)" for st x
    by (simp add: ret_run)
  show ?thesis
    using assms(1,2) idx add upd dec
    by (simp add: AppendEntries_response_mtf_def core_simps bind_run gets_run first Let_def GetCurrentTerm_run UpdateTerm_run
        BecomeFollower_run at_run verify_run set_at_run eq ret_run step_down_def del: One_nat_def)
qed

section \<open>Append\<close>

definition appended :: "node_config \<Rightarrow> (string \<Rightarrow> string) \<Rightarrow> AppendReq \<Rightarrow> MetamorphosisNode \<Rightarrow> MetamorphosisNode" where
  "appended config md5 request s =
     (let own = node_id config; ptr = next_request s; i = next_index s ! own;
          (ran, st) = StopCallback_new ptr (stop_leader s)
      in s\<lparr>next_index := (next_index s)[own := Suc i],
           pending_log := pending_log s @ [\<lparr>entry_term = term_of s, entry_producer_id = append_producer_id request,
             entry_data = append_data request, entry_md5hash = md5 (append_data request)\<rparr>],
           next_request := Suc ptr,
           replication_finished := signal_all ran ((replication_finished s)(ptr := False)),
           stop_leader := st,
           pending_requests := (pending_requests s)(i \<mapsto> ptr),
           reset_heartbeat_timeout := new_StopState,
           pending_producers := insert (append_producer_id request) (pending_producers s),
           pending_offset := (pending_offset s)(ptr := 0)\<rparr>)"

lemma appended_facts:
  "raft_state (appended config md5 request s) = raft_state s" "raft_log (appended config md5 request s) = raft_log s"
  "state (appended config md5 request s) = state s" "commit_index (appended config md5 request s) = commit_index s"
  "match_index (appended config md5 request s) = match_index s"
  "next_index (appended config md5 request s) = (next_index s)[node_id config := Suc (next_index s ! node_id config)]"
  "full_log (appended config md5 request s) = full_log s @ [\<lparr>entry_term = term_of s,
     entry_producer_id = append_producer_id request, entry_data = append_data request,
     entry_md5hash = md5 (append_data request)\<rparr>]"
  "pending_requests (appended config md5 request s) = (pending_requests s)(next_index s ! node_id config \<mapsto> next_request s)"
  "producer_next_sequence_id (appended config md5 request s) = producer_next_sequence_id s"
  "pending_producers (appended config md5 request s) = insert (append_producer_id request) (pending_producers s)"
  "term_of (appended config md5 request s) = term_of s" "vote_of (appended config md5 request s) = vote_of s"
  "log_of (appended config md5 request s) = log_of s" "wf_db (appended config md5 request s) = wf_db s"
  by (simp_all add: appended_def Let_def full_log_def term_of_def vote_of_def log_of_def wf_db_def split: prod.splits)

lemma Append_run:
  assumes "wf_db s" and "state s = Leader \<Longrightarrow> leader_inv config s"
    and "state s = Leader \<Longrightarrow> Suc (length (full_log s)) < u64_max"
  shows "Append config md5 request s =
    (let i = append_producer_id request; next = producer_next_sequence_id s i in
     if state s \<noteq> Leader then (Ok (Inl (mk_AppendRsp AppendRsp_NotALeader)), s)
     else if i \<in> pending_producers s then (Ok (Inl (mk_AppendRsp ParallelRequest)), s)
     else if append_sequence_id request \<noteq> next
     then (Ok (Inl \<lparr>append_status = InvalidSequenceId, append_offset = 0, append_next_sequence_id = next\<rparr>), s)
     else (Ok (Inr (next_request s, Suc (length (full_log s)), term_of s, i)), appended config md5 request s))"
proof (cases "state s = Leader \<and> append_producer_id request \<notin> pending_producers s \<and>
    append_sequence_id request = producer_next_sequence_id s (append_producer_id request)")
  case False
  then show ?thesis
    by (auto simp: Append_def exec_simps Let_def mk_AppendRsp_def)
next
  case True
  have own: "node_id config < length (next_index s)"
    and i: "next_index s ! node_id config = Suc (length (full_log s))"
    using assms(2) True by (auto simp: leader_inv_def Let_def full_log_def)
  have inc: "u64_inc (Suc (length (full_log s))) = Suc (Suc (length (full_log s)))"
    using assms(3) True by (simp add: u64_inc_exact)
  show ?thesis
    using True assms(1) own i
    by (simp add: Append_def core_simps exec_simps Let_def inc split: prod.splits)
      (cases s, simp add: appended_def Let_def split: prod.splits)
qed

lemma Append_finish_run:
  assumes "wf_db s"
  shows "Append_finish (ptr, i, t, producer) s =
    (let s' = s\<lparr>pending_requests := (pending_requests s)(i := None),
               stop_leader := StopCallback_delete ptr (stop_leader s),
               pending_producers := pending_producers s - {producer}\<rparr>
     in if t \<noteq> term_of s then (Ok (mk_AppendRsp AppendRsp_NotALeader), s')
        else if state s = Leader
        then (Ok \<lparr>append_status = AppendRsp_Commited, append_offset = pending_offset s ptr,
                append_next_sequence_id = producer_next_sequence_id s producer\<rparr>, s')
        else (Err (VerifyFailed ''Invalid session state''), s\<lparr>pending_requests := (pending_requests s)(i := None)\<rparr>))"
  using assms by (simp add: Append_finish_def core_simps exec_simps Let_def)

section \<open>Read\<close>

lemma Read_run:
  assumes "wf_db s" and "commit_index s \<le> length (raft_log s)"
  shows "Read offset s =
    (if offset > commit_index s then (Ok (Ok \<lparr>read_status = NOT_FOUND, read_payload = Payload_not_set\<rparr>), s)
     else if offset = 0 then (Ok (Err (mk_RpcError RpcInternal ''NotFound'')), s)
     else let e = log_of s ! (offset - 1) in
       (Ok (Ok (if entry_data e \<noteq> '''' then \<lparr>read_status = FULL_MESSAGE, read_payload = Payload_data (entry_data e)\<rparr>
                else \<lparr>read_status = HASH_ONLY, read_payload = Payload_md5hash (entry_md5hash e)\<rparr>)), s))"
  using assms by (auto simp: Read_def exec_simps kv_Get_log Let_def DBError_Message_def mk_DBError_def)

section \<open>The constructor and the leader\<close>

definition leader_of_mtf :: "node_config \<Rightarrow> MetamorphosisNode \<Rightarrow> MetamorphosisNode" where
  "leader_of_mtf config s = (leader_of config s)\<lparr>alive_main_nodes_count := MajorityCount config\<rparr>"

lemma BecomeLeader_mtf_run:
  assumes "wf_db s"
  shows "BecomeLeader_mtf config s =
     (if state s = Candidate then (Ok (), leader_of_mtf config s) else (Err (VerifyFailed ''Invalid state''), s))"
proof -
  have "wf_db (s\<lparr>pending_log := []\<rparr>)"
    using assms by (simp add: wf_db_def)
  then show ?thesis
    using assms by (simp add: BecomeLeader_mtf_def core_simps exec_simps leader_of_mtf_def leader_of_def Stop_stop_election_def)
qed

end
