(* ===== verification/Mtf_Cluster.thy ===== *)
theory Mtf_Cluster
  imports Replica_Cluster Mtf_Replication
begin

text \<open>
  A cluster of Metamorphosis nodes (\<^verbatim>\<open>src/metamorphosis/node/node.cpp\<close>): the steps of theory Cluster with, as the other steps, the sessions of
  the leaders, the handler \<^verbatim>\<open>AppendEntries\<close>, and the appends of producers. Nodes may hold an entry with its data or with its hash only, so
  logs are compared without data, through \<open>clear_data\<close>.

  Shown here, for any number of nodes with delayed, lost and repeated requests and with crashes: every step keeps the databases of every node well formed, and the
  cluster meets the contracts of theories Replica_Cluster, Cluster_Logs and Cluster.

  A log is assumed not to reach \<open>2\<^sup>6\<^sup>4 - 1\<close> entries: an append is a step only while there is room.
\<close>

section \<open>Steps\<close>

text \<open>The local variable \<^verbatim>\<open>is_alive\<close> of a session is kept by leader and peer.\<close>

record mtf_cluster = "(MetamorphosisNode, LogEntry_mtf AppendEntriesRequest, nat \<times> nat \<times> nat \<times> nat) replicas" +
  alive :: "nat \<Rightarrow> nat \<Rightarrow> bool"

text \<open>A restarted process opens its databases again.\<close>

definition mtf_restart :: "MetamorphosisNode \<Rightarrow> MetamorphosisNode" where
  "mtf_restart s = snd (MetamorphosisNode_new (raft_state s) (raft_log s))"

definition end_session :: "nat \<Rightarrow> nat \<Rightarrow> bool \<Rightarrow> mtf_cluster \<Rightarrow> mtf_cluster" where
  "end_session p q is_alive c = (set_session p q None c)\<lparr>alive := (alive c)(p := (alive c p)(q := is_alive))\<rparr>"

inductive mtf_other ::
  "(nat \<Rightarrow> node_config) \<Rightarrow> nat \<Rightarrow> (string \<Rightarrow> string) \<Rightarrow> mtf_cluster \<Rightarrow> mtf_cluster \<Rightarrow> bool"
  for conf n md5 where
  lead: "p < n \<Longrightarrow> fiber c p = Loop \<Longrightarrow> state (nodes c p) = Leader \<Longrightarrow>
    mtf_other conf n md5 c ((goto p (Leading False) c)\<lparr>alive := (alive c)(p := (\<lambda>_. True))\<rparr>)"
| main_start: "p < n \<Longrightarrow> fiber c p = Leading False \<Longrightarrow>
    mtf_other conf n md5 c (run mtf_restart p
      (bind (StartLeaderMainSession_mtf (conf p)) (\<lambda>_. StartLeaderMainSession_body_mtf (conf p)))
      (\<lambda>_. goto p (Leading True)) c)"
| main_round: "p < n \<Longrightarrow> fiber c p = Leading True \<Longrightarrow>
    mtf_other conf n md5 c (run mtf_restart p (StartLeaderMainSession_body_mtf (conf p)) (\<lambda>_ c. c) c)"
| send: "p < n \<Longrightarrow> fiber c p = Leading b \<Longrightarrow> q < n \<Longrightarrow> q \<noteq> p \<Longrightarrow> session c p (incarnation c p) q = None \<Longrightarrow>
    mtf_other conf n md5 c (run mtf_restart p (StartLeaderNodeSession_mtf (conf p) q)
      (\<lambda>r c. case r of None \<Rightarrow> c
         | Some req \<Rightarrow> (set_session p q (Some req) c)\<lparr>append_requests := insert req (append_requests c)\<rparr>) c)"
| deliver: "q < n \<Longrightarrow> req \<in> append_requests c \<Longrightarrow> ae_leader_id req \<noteq> q \<Longrightarrow>
    mtf_other conf n md5 c (run mtf_restart q (AppendEntries_mtf req)
      (\<lambda>res c. c\<lparr>append_replies := insert (q, req, res) (append_replies c)\<rparr>) c)"
| answer: "p < n \<Longrightarrow> fiber c p = Leading b \<Longrightarrow> session c p (incarnation c p) q = Some req \<Longrightarrow>
    (q, req, res) \<in> append_replies c \<Longrightarrow>
    mtf_other conf n md5 c (run mtf_restart p
      (AppendEntries_response_mtf (conf p) q req (Ok res :: (AppendEntriesResult, unit) Result) (alive c p q))
      (end_session p q) c)"
| no_answer: "p < n \<Longrightarrow> fiber c p = Leading b \<Longrightarrow> session c p (incarnation c p) q = Some req \<Longrightarrow>
    mtf_other conf n md5 c (run mtf_restart p
      (AppendEntries_response_mtf (conf p) q req (Err () :: (AppendEntriesResult, unit) Result) (alive c p q))
      (end_session p q) c)"
| resign: "p < n \<Longrightarrow> fiber c p = Leading True \<Longrightarrow> state (nodes c p) \<noteq> Leader \<Longrightarrow>
    (\<And>q. session c p (incarnation c p) q = None) \<Longrightarrow>
    mtf_other conf n md5 c (run mtf_restart p StartLeader_finish_mtf (\<lambda>_. goto p Loop) c)"
| append: "p < n \<Longrightarrow> (state (nodes c p) = Leader \<Longrightarrow> Suc (length (full_log (nodes c p))) < u64_max) \<Longrightarrow>
    mtf_other conf n md5 c (run mtf_restart p (Append (conf p) md5 request)
      (\<lambda>r c. case r of Inl _ \<Rightarrow> c | Inr call \<Rightarrow> c\<lparr>calls := insert (p, incarnation c p, call) (calls c)\<rparr>) c)"
| append_end: "p < n \<Longrightarrow> (p, incarnation c p, call) \<in> calls c \<Longrightarrow> replication_finished (nodes c p) (fst call) \<Longrightarrow>
    mtf_other conf n md5 c (run mtf_restart p (Append_finish call)
      (\<lambda>_ c. c\<lparr>calls := calls c - {(p, incarnation c p, call)}\<rparr>) c)"

abbreviation mtf_step :: "(nat \<Rightarrow> node_config) \<Rightarrow> nat \<Rightarrow> (string \<Rightarrow> string) \<Rightarrow> mtf_cluster \<Rightarrow> mtf_cluster \<Rightarrow> bool" where
  "mtf_step conf n md5 \<equiv> cluster_step conf n mtf_restart (\<lambda>p. BecomeLeader_mtf (conf p)) (mtf_other conf n md5)"

section \<open>The constructor\<close>

lemma count_saved_run:
  assumes "wf_db s"
  shows "count_saved_entries s =
    (Ok (), s\<lparr>producer_next_sequence_id := inc_ids (producers (log_of s)) (producer_next_sequence_id s)\<rparr>)"
proof -
  have loop: "for_each [Suc c ..< Suc (length (raft_log s))]
      (\<lambda>index. bind (raft_log_Get index) (\<lambda>entry. inc_sequence_id (entry_producer_id entry))) s =
      (Ok (), s\<lparr>producer_next_sequence_id := inc_ids (producers (drop c (log_of s))) (producer_next_sequence_id s)\<rparr>)"
    if "wf_db s" "c \<le> length (raft_log s)" for c and s :: MetamorphosisNode
    using that
  proof (induction "length (raft_log s) - c" arbitrary: c s)
    case 0
    then have "c = length (log_of s)" by simp
    then show ?case by (simp add: ret_run producers_def inc_ids_def)
  next
    case (Suc k)
    let ?f = "producer_next_sequence_id s" and ?i = "entry_producer_id (log_of s ! c)"
    let ?s = "s\<lparr>producer_next_sequence_id := ?f(?i := u64_inc (?f ?i))\<rparr>"
    have lt: "c < length (raft_log s)" using Suc.hyps(2) by simp
    then have d: "drop c (log_of s) = log_of s ! c # drop (Suc c) (log_of s)"
      by (simp add: Cons_nth_drop_Suc)
    have "[Suc c ..< Suc (length (raft_log s))] = Suc c # [Suc (Suc c) ..< Suc (length (raft_log s))]"
      using lt by (simp add: upt_conv_Cons)
    then show ?case
      using Suc.hyps(1) [of ?s "Suc c"] Suc.hyps(2) Suc.prems lt
      by (simp add: d bind_run raft_log_Get_run inc_sequence_id_def modify_run producers_def inc_ids_def del: upt_Suc)
  qed
  from loop [OF assms, of 0] assms show ?thesis
    by (simp add: count_saved_entries_def core_simps bind_run GetSavedLogSize_run del: upt_Suc)
qed

lemma MetamorphosisNode_new_facts:
  assumes "keys_ordered st" and "is_log lg"
  obtains s where "MetamorphosisNode_new st lg = (Ok (), s)" and "wf_db s" and "state s = Follower" and "commit_index s = 0"
    and "raft_log s = lg" and "raft_state s = (if HasError (kv_Get ''current_term'' st) then snd (kv_Put ''current_term'' 0 st) else st)"
    and "producer_next_sequence_id s = inc_ids (producers (map snd lg)) (\<lambda>_. 0)" and "pending_producers s = {}"
proof -
  obtain s0 where s0: "MetamorphosisNode_new st lg = count_saved_entries s0" "state s0 = Follower" "commit_index s0 = 0" "raft_log s0 = lg"
      "raft_state s0 = (if HasError (kv_Get ''current_term'' st) then snd (kv_Put ''current_term'' 0 st) else st)"
      "producer_next_sequence_id s0 = (\<lambda>_. 0)" "pending_producers s0 = {}"
    by (simp add: MetamorphosisNode_new_def)
  have wf: "wf_db s0"
    using assms by (auto simp: wf_db_def s0(4,5) Database_Get_def Database_Put_def om_find_assign om.invar_put split: option.splits)
  have "log_of s0 = map snd lg" by (simp add: log_of_def s0(4))
  with count_saved_run [OF wf] s0 wf show ?thesis
    by (intro that [of "s0\<lparr>producer_next_sequence_id := inc_ids (producers (log_of s0)) (producer_next_sequence_id s0)\<rparr>"]) simp_all
qed

lemma mtf_restart_facts:
  assumes "wf_db s"
  shows "wf_db (mtf_restart s)" and "term_of (mtf_restart s) = term_of s" and "vote_of (mtf_restart s) = vote_of s"
    and "log_of (mtf_restart s) = log_of s" and "state (mtf_restart s) = Follower" and "commit_index (mtf_restart s) = 0"
proof -
  have "\<not> HasError (kv_Get ''current_term'' (raft_state s))" "keys_ordered (raft_state s)" "is_log (raft_log s)"
    using assms by (auto simp: wf_db_def Database_Get_def)
  then obtain s' where "MetamorphosisNode_new (raft_state s) (raft_log s) = (Ok (), s')" "wf_db s'" "state s' = Follower" "commit_index s' = 0"
      "raft_log s' = raft_log s" "raft_state s' = raft_state s"
    using MetamorphosisNode_new_facts by metis
  then show "wf_db (mtf_restart s)" "term_of (mtf_restart s) = term_of s" "vote_of (mtf_restart s) = vote_of s"
    "log_of (mtf_restart s) = log_of s" "state (mtf_restart s) = Follower" "commit_index (mtf_restart s) = 0"
    by (simp_all add: mtf_restart_def term_of_def vote_of_def log_of_def)
qed

section \<open>Operations of one node\<close>

definition db_inv :: "MetamorphosisNode \<Rightarrow> bool" where
  "db_inv s \<longleftrightarrow> wf_db s \<and> commit_index s \<le> length (raft_log s) \<and> length (raft_log s) < u64_max"

abbreviation mtf_good :: "(nat \<Rightarrow> node_config) \<Rightarrow> nat \<Rightarrow> mtf_cluster \<Rightarrow> bool" where
  "mtf_good conf n \<equiv> replicas_ok db_inv conf n"

interpretation mtf_node: replica "member_config ns" "length ns" mtf_restart db_inv clear_data for ns
proof unfold_locales
  fix s s' :: MetamorphosisNode
  show "same_db s s' \<Longrightarrow> mtf_restart s' = mtf_restart s" by (simp add: mtf_restart_def same_db_def)
  show "wf_db s \<Longrightarrow> length (raft_log s) < u64_max \<Longrightarrow> db_inv (mtf_restart s)"
    using mtf_restart_facts [of s] by (simp add: db_inv_def) (metis length_log_of)
qed (simp_all add: db_inv_def frame_def mtf_restart_facts clear_data_def)

lemma commit_updated_mtf_ok:
  assumes "peer_ok db_inv config s f ep ss"
  shows "peer_ok db_inv config (commit_updated_mtf config s) f ep ss"
  using assms committed_to_bounds(2) [of s config] by (simp add: peer_ok_def leader_ok_def leader_inv_def db_inv_def)

lemma main_body_mtf_ok:
  assumes "peer_ok db_inv config s (Leading True) ep ss"
  obtains s' where "StartLeaderMainSession_body_mtf config s = (Ok (), s')"
    and "peer_ok db_inv config s' (Leading True) ep ss" and "quiet s s'" and "log_kept s s'"
proof (cases "state s = Leader")
  case True
  note ok = mtf_node.peer_okD [OF assms]
  note w = pending_written_mtf_facts [OF ok(2), of config]
  have "db_inv (pending_written_mtf config s)"
    using ok(5) [OF True] ok(6) w by (simp add: db_inv_def leader_inv_full full_log_def)
  then have "peer_ok db_inv config (pending_written_mtf config s) (Leading True) ep ss"
    using w True by (intro mtf_node.written_ok [OF assms True]) simp_all
  from commit_updated_mtf_ok [OF this]
  have "peer_ok db_inv config (commit_updated_mtf config (pending_written_mtf config s)) (Leading True) ep ss" .
  moreover have "StartLeaderMainSession_body_mtf config s = (Ok (), commit_updated_mtf config (pending_written_mtf config s))"
    using ok True by (intro StartLeaderMainSession_body_mtf_run) (simp_all add: leader_ok_def)
  moreover have "quiet s (commit_updated_mtf config (pending_written_mtf config s))"
    using w True by (simp add: quiet_def)
  moreover have "log_kept s (commit_updated_mtf config (pending_written_mtf config s))"
    using True by (simp add: log_kept_def w)
  ultimately show ?thesis by (intro that)
next
  case False
  then show ?thesis
    using assms mtf_node.peer_okD(2) [OF assms] by (intro that [of s])
      (simp_all add: StartLeaderMainSession_body_mtf_def exec_simps quiet_refl log_kept_def)
qed

lemma main_start_mtf_ok:
  assumes "peer_ok db_inv config s (Leading False) ep ss"
  shows "(\<exists>s'. bind (StartLeaderMainSession_mtf config) (\<lambda>_. StartLeaderMainSession_body_mtf config) s = (Ok (), s') \<and>
       peer_ok db_inv config s' (Leading True) ep ss \<and> quiet s s' \<and> log_kept s s') \<or>
     (\<exists>e. bind (StartLeaderMainSession_mtf config) (\<lambda>_. StartLeaderMainSession_body_mtf config) s = (Err e, s))"
proof (cases "node_id config < length (match_index s)")
  case True
  let ?s1 = "s\<lparr>match_index := (match_index s)[node_id config := length (raft_log s)]\<rparr>"
  have start: "StartLeaderMainSession_mtf config s = (Ok (), ?s1)"
    using True mtf_node.peer_okD(2) [OF assms] by (simp add: StartLeaderMainSession_mtf_def core_simps exec_simps)
  obtain s' where s': "StartLeaderMainSession_body_mtf config ?s1 = (Ok (), s')"
    "peer_ok db_inv config s' (Leading True) ep ss" "quiet ?s1 s'" "log_kept ?s1 s'"
    using main_body_mtf_ok [OF mtf_node.main_start_ok [OF assms]] by blast
  have "quiet s s'" by (rule quiet_left [OF s'(3)]) simp_all
  moreover have "log_kept s s'" using s'(4) by (simp add: log_kept_def full_log_def)
  ultimately show ?thesis using start s'(1,2) by (simp add: bind_run)
next
  case False
  then show ?thesis
    using mtf_node.peer_okD(2) [OF assms] by (simp add: StartLeaderMainSession_mtf_def core_simps exec_simps)
qed

text \<open>A session with a peer: the request.\<close>

lemma clear_data_twice [simp]: "clear_data (sent_entry c es i) = clear_data (es ! (i - 1))"
  by (simp add: sent_entry_def clear_data_def)

lemma part_of_request_mtf:
  assumes "1 \<le> next_index s ! q" and "next_index s ! q \<le> Suc (length (raft_log s))" and "commit_index s \<le> length (raft_log s)"
  shows "part_of (map clear_data (full_log s)) (view_request clear_data (append_request_mtf config q s))"
proof -
  let ?a = "next_index s ! q" and ?b = "last_sent config q s" and ?es = "full_log s"
  have b: "?b \<le> length ?es" using assms(3) by (simp add: last_sent_def full_log_def)
  have "map clear_data (map (sent_entry (commit_index s) ?es) [?a ..< Suc ?b]) = map (\<lambda>i. map clear_data ?es ! (i - 1)) [?a ..< Suc ?b]"
    using assms(1) b by (auto simp del: upt_Suc)
  also have "\<dots> = take (Suc ?b - ?a) (drop (?a - 1) (map clear_data ?es))"
    using assms(1) b by (intro nth_equalityI) (simp_all del: upt_Suc)
  finally have "map clear_data (map (sent_entry (commit_index s) ?es) [?a ..< Suc ?b]) =
      take (length [?a ..< Suc ?b]) (drop (?a - 1) (map clear_data ?es))" by (simp del: upt_Suc)
  moreover have "?a - 1 + length [?a ..< Suc ?b] \<le> length ?es"
    using assms(1,2) b by (simp add: full_log_def del: upt_Suc)
  moreover have "?a - 1 \<noteq> 0 \<Longrightarrow> ?a - 2 < length ?es" using assms(2) by (simp add: full_log_def)
  ultimately show ?thesis
    by (auto simp: part_of_def Let_def append_request_mtf_def append_request_def clear_data_def numeral_2_eq_2 simp del: upt_Suc)
qed

text \<open>What a request carries of a log: at each position the entry of the log, or the entry without its data.\<close>

definition copies :: "LogEntry_mtf list \<Rightarrow> LogEntry_mtf AppendEntriesRequest \<Rightarrow> bool" where
  "copies es req \<longleftrightarrow> ae_prev_log_index req + length (ae_entries req) \<le> length es \<and>
     (\<forall>k < length (ae_entries req). ae_entries req ! k = es ! (ae_prev_log_index req + k) \<or>
        ae_entries req ! k = clear_data (es ! (ae_prev_log_index req + k)))"

lemma sent_entries_mtf:
  assumes "1 \<le> next_index s ! q" and "next_index s ! q \<le> Suc (length (raft_log s))" and "commit_index s \<le> length (raft_log s)"
  shows "copies (full_log s) (append_request_mtf config q s)"
proof -
  let ?a = "next_index s ! q"
  have b: "last_sent config q s \<le> length (full_log s)" using assms(3) by (simp add: last_sent_def full_log_def)
  have "length [?a ..< Suc (last_sent config q s)] = Suc (last_sent config q s) - ?a" by (simp del: upt_Suc)
  with b assms(1,2) show ?thesis
    by (auto simp: copies_def append_request_mtf_def append_request_def Let_def sent_entry_def full_log_def simp del: upt_Suc)
qed

lemma send_mtf_ok:
  assumes "peer_ok db_inv config s f ep ss" and "q < length (cluster_nodes config)"
  shows "StartLeaderNodeSession_mtf config q s = (Ok None, s) \<or> (\<exists>e. StartLeaderNodeSession_mtf config q s = (Err e, s)) \<or>
     (\<exists>req. StartLeaderNodeSession_mtf config q s = (Ok (Some req), s) \<and> state s = Leader \<and> ae_term req = term_of s \<and>
        part_of (map clear_data (full_log s)) (view_request clear_data req) \<and> ae_prev_log_index req = next_index s ! q - 1 \<and>
        copies (full_log s) req)"
proof (cases "state s = Leader")
  case True
  note ok = mtf_node.peer_okD [OF assms(1)]
  have idx: "q < length (next_index s)" "next_index s ! q \<le> u64_max" "1 \<le> next_index s ! q"
    using ok(5) [OF True] assms(2) by (auto simp: leader_inv_full)
  show ?thesis
  proof (cases "next_index s ! q \<le> Suc (length (raft_log s))")
    case le: True
    have "ae_term (append_request_mtf config q s) = term_of s" "ae_prev_log_index (append_request_mtf config q s) = next_index s ! q - 1"
      by (simp_all add: append_request_mtf_def append_request_def Let_def)
    with StartLeaderNodeSession_mtf_run [OF ok(2) True ok(5) [OF True] assms(2) le ok(6)] part_of_request_mtf [OF idx(3) le ok(6)]
      sent_entries_mtf [OF idx(3) le ok(6)] True show ?thesis by simp
  next
    case False
    have dec: "u64_dec (next_index s ! q) = next_index s ! q - 1"
      using False idx(2) by (intro u64_dec_exact) auto
    have "\<not> next_index s ! q - 1 \<le> length (raft_log s)" using False by linarith
    then have "raft_log_Get (next_index s ! q - 1) s = (Err (VerifyFailed ''Result does not hold value: NotFound''), s)"
      using ok(2) by (simp add: raft_log_Get_run)
    then show ?thesis
      using False True idx(1) ok(2)
      by (simp add: StartLeaderNodeSession_mtf_def core_simps bind_run gets_run at_run verify_run GetCurrentTerm_run dec del: One_nat_def)
  qed
qed (simp add: StartLeaderNodeSession_mtf_def exec_simps)

text \<open>The follower.\<close>

lemma deliver_mtf_ok:
  assumes "db_inv s" and "small_request req" and "AppendEntries_mtf req s = (r, s')"
  shows "db_inv s' \<and> quiet s s' \<and> (s' = s \<or> state s' = Follower \<and> (log_of s' = log_of s \<or>
      log_matches req (log_of s) \<and> committed_agree (ae_prev_log_index req) (commit_index s) (ae_entries req) (log_of s) \<and>
      log_of s' = new_log (ae_prev_log_index req) (commit_index s) (ae_entries req) (log_of s)))"
proof -
  have inv: "wf_db s" "commit_index s \<le> length (raft_log s)" "length (raft_log s) < u64_max" using assms(1) by (simp_all add: db_inv_def)
  have fit: "fits req s" using inv(2,3) assms(2) by (simp add: fits_def small_request_def)
  let ?s1 = "ae_entry req s" and ?s2 = "accepted_mtf req s"
  note s1 = ae_entry_facts [OF inv(1), of req] and s2 = accepted_mtf_facts [OF inv(1), of req]
  have cases: "s' = s \<or> \<not> ae_term req < term_of s \<and> (s' = ?s1 \<or> log_matches req (log_of s) \<and>
      committed_agree (ae_prev_log_index req) (commit_index s) (ae_entries req) (log_of s) \<and> s' = ?s2)"
    using assms(3) unfolding AppendEntries_mtf_run [OF inv(1) fit] by (auto simp: Let_def split: if_splits)
  have first: "db_inv ?s1" using s1 inv by (simp add: db_inv_def)
  have second: "db_inv ?s2" if "log_matches req (log_of s)"
  proof -
    have prev: "ae_prev_log_index req \<le> length (log_of s)" using that by (simp add: log_matches_def)
    have "length (log_of ?s2) < u64_max"
      using prev inv(2,3) assms(2) unfolding s2(5) by (auto simp: new_log_def small_request_def)
    moreover have "commit_index ?s2 \<le> length (log_of ?s2)"
      using length_new_log_ge [of "commit_index s" "log_of s"] inv(2) unfolding s2(5,6) by (simp add: new_commit_def)
    ultimately show ?thesis using s2(1) by (simp add: db_inv_def)
  qed
  from cases show ?thesis
    using assms(1) inv(1) first second s1 s2 by (auto simp: quiet_refl quiet_def max_def)
qed

text \<open>The answer of the peer; the session ends with it.\<close>

lemma alive_ok:
  "peer_ok db_inv config (s\<lparr>alive_main_nodes_count := k\<rparr>) f ep ss = peer_ok db_inv config s f ep ss"
  "peer_ok db_inv config (alive_again config q b s) f ep ss = peer_ok db_inv config s f ep ss"
  by (simp_all add: peer_ok_def db_inv_def leader_ok_def leader_inv_def full_log_def alive_again_def)

lemma answered_mtf_ok:
  assumes "peer_ok db_inv config s f ep ss" and "ss ep q = Some req" and l: "state s = Leader"
  shows "(\<exists>s'. AppendEntries_response_mtf config q req (Ok res) is_alive s = (Ok True, s') \<and>
       peer_ok db_inv config s' f ep (ss(ep := (ss ep)(q := None))) \<and> quiet s s' \<and> log_kept s s') \<or>
     (\<exists>e s'. AppendEntries_response_mtf config q req (Ok res) is_alive s = (Err e, s') \<and> same_db s s')"
proof -
  let ?s = "alive_again config q is_alive s" and ?ss = "ss(ep := (ss ep)(q := None))"
  note ok = mtf_node.peer_okD [OF assms(1)]
  have q: "q < length (cluster_nodes config)" "q \<noteq> node_id config" "ae_prev_log_index req = next_index s ! q - 1"
    "next_index s ! q + length (ae_entries req) \<le> Suc (length (full_log s))" "length (full_log s) < u64_max"
    "1 \<le> next_index s ! q" "next_index s ! q \<le> Suc (length (full_log s))"
    using ok(4) [OF l] assms(2) unfolding leader_ok_def leader_inv_full by auto
  have "ae_prev_log_index req + length (ae_entries req) \<le> u64_max" "next_index s ! q + length (ae_entries req) \<le> u64_max"
    using q(3-6) by linarith+
  note run = AppendEntries_response_mtf_run [OF ok(2) l ok(5) [OF l] ok(6) q(1) this, of res is_alive]
  have again: "peer_ok db_inv config ?s f ep ss" "peer_ok db_inv config ?s f ep ?ss"
    using assms(1) mtf_node.peer_ok_end [OF assms(1), of q] by (simp_all add: alive_ok)
  consider (newer) "aer_term res > term_of ?s" | (failed) "\<not> aer_term res > term_of s" "\<not> aer_success res" "next_index s ! q \<ge> 2"
    | (abort) "\<not> aer_term res > term_of s" "\<not> aer_success res" "\<not> next_index s ! q \<ge> 2"
    | (success) "\<not> aer_term res > term_of s" "aer_success res" by fastforce
  then show ?thesis
  proof cases
    case newer
    note set_ok = mtf_node.set_term_ok [OF again(2) newer]
    have "quiet s (step_down (set_term (aer_term res) None ?s))" by (rule quiet_left [OF set_ok(2)]) simp_all
    with newer set_ok(1,3) show ?thesis by (simp add: run log_kept_def)
  next
    case failed
    have "peer_ok db_inv config (?s\<lparr>next_index := (next_index ?s)[q := next_index s ! q - 1]\<rparr>) f ep ?ss"
      using failed(3) q l by (intro mtf_node.next_index_ok [OF again(2)]) simp_all
    with failed ok(2) l show ?thesis by (simp add: run quiet_def log_kept_def full_log_def)
  next
    case abort
    then show ?thesis by (simp add: run same_db_def)
  next
    case success
    have "peer_ok db_inv config (peer_matched q req ?s) f ep ?ss" by (rule mtf_node.peer_matched_ok [OF again(1)]) (simp_all add: l assms(2))
    from commit_updated_mtf_ok [OF this] success ok(2) l show ?thesis
      by (simp add: run quiet_def peer_matched_def log_kept_def full_log_def)
  qed
qed

lemma answer_mtf_ok:
  assumes "peer_ok db_inv config s f ep ss" and "ss ep q = Some req"
  shows "(\<exists>x s'. AppendEntries_response_mtf config q req r is_alive s = (Ok x, s') \<and>
       peer_ok db_inv config s' f ep (ss(ep := (ss ep)(q := None))) \<and> quiet s s' \<and> log_kept s s') \<or>
     (\<exists>e s'. AppendEntries_response_mtf config q req r is_alive s = (Err e, s') \<and> same_db s s')"
proof -
  note ok = mtf_node.peer_okD [OF assms(1)] and ended = mtf_node.peer_ok_end [OF assms(1), of q]
  consider (idle) "state s \<noteq> Leader" | (lost) e where "state s = Leader" "r = Err e" | (answered) res where "state s = Leader" "r = Ok res"
    by (cases r) auto
  then show ?thesis
  proof cases
    case idle
    then have "AppendEntries_response_mtf config q req r is_alive s = (Ok is_alive, s)" by (simp add: AppendEntries_response_mtf_def exec_simps)
    then show ?thesis using ended ok(2) by (simp add: quiet_refl log_kept_def)
  next
    case lost
    then have "AppendEntries_response_mtf config q req r is_alive s = (Ok False, if is_alive \<and> IsMainNode config q
        then s\<lparr>alive_main_nodes_count := u64_dec (alive_main_nodes_count s)\<rparr> else s)"
      by (simp add: AppendEntries_response_mtf_def exec_simps)
    then show ?thesis using ended ok(2) by (simp add: quiet_def alive_ok log_kept_def full_log_def exI [of _ False])
  next
    case (answered res)
    from answered_mtf_ok [OF assms answered(1), of res is_alive] answered(2) show ?thesis by blast
  qed
qed

text \<open>Appends.\<close>

lemma append_ok:
  assumes "peer_ok db_inv config s f ep ss" and "state s = Leader" and "Suc (length (full_log s)) < u64_max"
  shows "peer_ok db_inv config (appended config md5 request s) f ep ss" and "quiet s (appended config md5 request s)"
proof -
  let ?s = "appended config md5 request s"
  note ok = mtf_node.peer_okD [OF assms(1)]
  have "next_index ?s ! r = (if r = node_id config then Suc (next_index s ! r) else next_index s ! r)"
    if "r < length (next_index s)" for r
    using that by (simp add: appended_facts nth_list_update)
  moreover have "length (next_index ?s) = length (next_index s)" "match_index ?s = match_index s"
    "raft_log ?s = raft_log s" "length (full_log ?s) = Suc (length (full_log s))"
    by (simp_all add: appended_facts)
  ultimately have "leader_ok config ?s f (ss ep)"
    using ok(4) [OF assms(2)] assms(3) unfolding leader_ok_def leader_inv_full by fastforce
  moreover have "db_inv ?s"
    using ok(1) by (simp add: db_inv_def appended_facts)
  ultimately show "peer_ok db_inv config ?s f ep ss"
    using ok(3) by (simp add: peer_ok_def)
  show "quiet s ?s"
    using ok(2) by (simp add: quiet_def appended_facts)
qed

lemma append_call_ok:
  assumes "peer_ok db_inv config s f ep ss" and "state s = Leader \<Longrightarrow> Suc (length (full_log s)) < u64_max"
  shows "\<exists>x s'. Append config md5 request s = (Ok x, s') \<and> peer_ok db_inv config s' f ep ss \<and> quiet s s' \<and> log_change clear_data R s s'"
proof -
  note ok = mtf_node.peer_okD [OF assms(1)]
  have "\<exists>x s'. Append config md5 request s = (Ok x, s') \<and> (s' = s \<or> state s = Leader \<and> s' = appended config md5 request s)"
    using Append_run [OF ok(2,5) assms(2), of md5 request] by (auto simp: Let_def)
  then obtain x s' where x: "Append config md5 request s = (Ok x, s')" "s' = s \<or> state s = Leader \<and> s' = appended config md5 request s"
    by blast
  from x(2) have "peer_ok db_inv config s' f ep ss \<and> quiet s s' \<and> log_change clear_data R s s'"
  proof
    assume "s' = s"
    then show ?thesis using assms(1) ok(2) by (simp add: quiet_refl log_change_def)
  next
    assume "state s = Leader \<and> s' = appended config md5 request s"
    then show ?thesis using append_ok [OF assms(1) _ assms(2), of md5 request] by (simp add: log_change_def appended_facts clear_data_def)
  qed
  with x(1) show ?thesis by blast
qed

lemma append_end_ok:
  assumes "peer_ok db_inv config s f ep ss" and "Append_finish call s = (Ok x, s')"
  shows "peer_ok db_inv config s' f ep ss \<and> quiet s s' \<and> log_kept s s'"
proof -
  obtain ptr i t producer where call: "call = (ptr, i, t, producer)" by (cases call)
  let ?s = "s\<lparr>pending_requests := (pending_requests s)(i := None), stop_leader := StopCallback_delete ptr (stop_leader s),
      pending_producers := pending_producers s - {producer}\<rparr>"
  note ok = mtf_node.peer_okD [OF assms(1)]
  have s': "s' = ?s" using assms(2) Append_finish_run [OF ok(2), of ptr i t producer] by (simp add: call Let_def split: if_splits)
  have full: "full_log ?s = full_log s" by (simp add: full_log_def)
  then have "leader_ok config ?s f x = leader_ok config s f x" for x
    by (simp add: leader_ok_def leader_inv_full)
  moreover have "db_inv ?s = db_inv s"
    by (simp add: db_inv_def)
  ultimately show ?thesis
    using assms(1) ok(2) by (simp add: s' peer_ok_def quiet_def log_kept_def full)
qed

section \<open>Every step keeps the invariant\<close>

lemma mtf_other_pstep:
  assumes "mtf_other (member_config ns) (length ns) md5 c c'" and "mtf_good (member_config ns) (length ns) c"
  shows "\<exists>p < length ns. node_step db_inv (member_config ns) clear_data p c c'"
  using assms(1)
proof cases
  case (lead p)
  then show ?thesis using mtf_node.goto_pstep [OF assms(2)] by (auto simp: goto_def)
next
  case (main_start p)
  note out = main_start_mtf_ok [OF mtf_node.okD(3) [OF assms(2) main_start(2), unfolded main_start(3)]]
  show ?thesis
    unfolding main_start(1) using main_start(2) out
    by (intro exI [of _ p] conjI mtf_node.op_pstep [OF assms(2), where f = "Leading True" and ss = "session c p"])
      (auto simp: goto_def same_db_def log_kept_change)
next
  case (main_round p)
  obtain s where "StartLeaderMainSession_body_mtf (member_config ns p) (nodes c p) = (Ok (), s)"
      "peer_ok db_inv (member_config ns p) s (Leading True) (incarnation c p) (session c p)" "quiet (nodes c p) s"
      "log_kept (nodes c p) s"
    using main_body_mtf_ok [OF mtf_node.okD(3) [OF assms(2) main_round(2), unfolded main_round(3)]]
    by blast
  then show ?thesis
    unfolding main_round(1) using main_round(2,3)
    by (intro exI [of _ p] conjI mtf_node.op_pstep [OF assms(2), where f = "Leading True" and ss = "session c p"])
      (auto simp: fun_upd_idem log_kept_change)
next
  case (send p b q)
  from send_mtf_ok [OF mtf_node.okD(3) [OF assms(2) send(2)], of q] send mtf_node.config_nodes [OF send(2)] show ?thesis
    unfolding send(1) by (intro exI [of _ p] conjI mtf_node.send_pstep [OF assms(2)]) auto
next
  case (deliver q req)
  from deliver_mtf_ok [OF mtf_node.okD(1) [OF assms(2), of q] mtf_node.okD(4) [OF assms(2) deliver(3)]] deliver show ?thesis
    unfolding deliver(1) by (intro exI [of _ q] conjI mtf_node.deliver_pstep [OF assms(2)]) simp_all
next
  case (answer p b q req res)
  from answer_mtf_ok [OF mtf_node.okD(3) [OF assms(2) answer(2)] answer(4)] answer show ?thesis
    unfolding answer(1) by (intro exI [of _ p] conjI mtf_node.answer_pstep [OF assms(2)]) (simp_all add: end_session_def set_session_def)
next
  case (no_answer p b q req)
  from answer_mtf_ok [OF mtf_node.okD(3) [OF assms(2) no_answer(2)] no_answer(4)] no_answer show ?thesis
    unfolding no_answer(1) by (intro exI [of _ p] conjI mtf_node.answer_pstep [OF assms(2)]) (simp_all add: end_session_def set_session_def)
next
  case (resign p)
  then show ?thesis using mtf_node.resign_pstep [OF assms(2)] by (auto simp: StartLeader_finish_mtf_def)
next
  case (append p request)
  note out = append_call_ok [OF mtf_node.okD(3) [OF assms(2) append(2)] append(3), of md5 request "view_request clear_data ` append_requests c"]
  show ?thesis
    unfolding append(1)
  proof (intro exI [of _ p] conjI mtf_node.op_pstep [OF assms(2), where f = "fiber c p" and ss = "session c p"])
    fix x s assume "Append (member_config ns p) md5 request (nodes c p) = (Ok x, s)"
    with out show "peer_ok db_inv (member_config ns p) s (fiber c p) (incarnation c p) (session c p)"
      "quiet (nodes c p) s" "log_change clear_data (view_request clear_data ` append_requests c) (nodes c p) s" by auto
  qed (use append(2) out in \<open>auto split: sum.splits\<close>)
next
  case (append_end p call)
  note ok = mtf_node.okD(3) [OF assms(2) append_end(2)]
  have "same_db (nodes c p) s" if "Append_finish call (nodes c p) = (Err e, s)" for e s
    using that Append_finish_run [OF mtf_node.peer_okD(2) [OF ok]] by (cases call) (auto simp: Let_def same_db_def split: if_splits)
  then show ?thesis
    unfolding append_end(1) using append_end(2) append_end_ok [OF ok]
    by (intro exI [of _ p] conjI mtf_node.op_pstep [OF assms(2), where f = "fiber c p" and ss = "session c p"]) (simp_all add: log_kept_change)
qed

interpretation mtf: replica_steps "member_config ns" "length ns" mtf_restart db_inv clear_data
    "\<lambda>p. BecomeLeader_mtf (member_config ns p)" "mtf_other (member_config ns) (length ns) md5"
  for ns and md5
proof unfold_locales
  fix s :: MetamorphosisNode and p
  show "wf_db s \<Longrightarrow> state s = Candidate \<Longrightarrow> fst (BecomeLeader_mtf (member_config ns p) s) = Ok () \<and> same_db s (snd (BecomeLeader_mtf (member_config ns p) s)) \<and>
      state (snd (BecomeLeader_mtf (member_config ns p) s)) = Leader \<and> full_log (snd (BecomeLeader_mtf (member_config ns p) s)) = log_of s"
    by (simp add: BecomeLeader_mtf_run same_db_def leader_of_mtf_def leader_of_def full_log_def Stop_stop_election_def)
  show "db_inv s \<Longrightarrow> p < length ns \<Longrightarrow> state s = Candidate \<Longrightarrow>
      db_inv (snd (BecomeLeader_mtf (member_config ns p) s)) \<and> leader_inv (member_config ns p) (snd (BecomeLeader_mtf (member_config ns p) s))"
    using mtf_node.config_id [of p ns] mtf_node.config_nodes [of p ns] leader_of_inv [of "member_config ns p" s]
    by (simp add: BecomeLeader_mtf_run leader_of_mtf_def leader_inv_def db_inv_def) (simp add: leader_of_def Stop_stop_election_def)
qed (rule mtf_other_pstep)

end
