(* ===== verification/Mtf_Runs.thy ===== *)
theory Mtf_Runs
  imports Mtf_Cluster Schedules "HOL-Library.Code_Target_Nat"
begin

text \<open>
  Runs of a cluster of Metamorphosis nodes from its start: one leader per term, and logs that match up to the data that nodes outside the
  main majority may lack (theory Mtf_Messages is about these data). Schedules of three nodes show the cluster at work: with a node that holds the
  hash of a message only, and with a message that is appended twice.
\<close>

section \<open>Start\<close>

definition mtf_start :: "(nat \<Rightarrow> (string, nat) omap \<times> (nat, LogEntry_mtf) omap) \<Rightarrow> mtf_cluster" where
  "mtf_start dbs =
     \<lparr>nodes = (\<lambda>p. snd (MetamorphosisNode_new (fst (dbs p)) (snd (dbs p)))), fiber = (\<lambda>_. Loop), incarnation = (\<lambda>_. 0),
      vote_requests = {}, vote_replies = {}, append_requests = {}, append_replies = {}, session = (\<lambda>_ _ _. None),
      calls = {}, alive = (\<lambda>_ _. True)\<rparr>"

lemma mtf_start_good:
  assumes "dbs_ok dbs" and "n < u64_max"
  shows "mtf_good conf n (mtf_start dbs)" and "started (mtf_start dbs)" and "log_of (nodes (mtf_start dbs) p) = map snd (snd (dbs p))"
proof -
  have node: "db_inv (nodes (mtf_start dbs) p) \<and> wf_db (nodes (mtf_start dbs) p) \<and> state (nodes (mtf_start dbs) p) = Follower \<and>
      log_of (nodes (mtf_start dbs) p) = map snd (snd (dbs p))" for p
  proof -
    have "keys_ordered (fst (dbs p))" "is_log (snd (dbs p))" "length (snd (dbs p)) < u64_max"
      using assms(1) by (simp_all add: dbs_ok_def)
    then show ?thesis
      by (rule_tac MetamorphosisNode_new_facts [of "fst (dbs p)" "snd (dbs p)"]) (simp_all add: mtf_start_def db_inv_def log_of_def)
  qed
  then show "mtf_good conf n (mtf_start dbs)"
    using assms(2) by (simp add: replicas_ok_def peer_ok_def) (simp add: mtf_start_def sessions_ok_def)
  show "started (mtf_start dbs)" using node by (simp add: started_def) (simp add: mtf_start_def)
  show "log_of (nodes (mtf_start dbs) p) = map snd (snd (dbs p))" using node by simp
qed

section \<open>Schedules\<close>

type_synonym mtf_action = "(LogEntry_mtf AppendEntriesRequest, AppendReq, nat \<times> nat \<times> nat \<times> nat) replication_action"

fun perform_mtf :: "(string \<times> nat) list \<Rightarrow> (string \<Rightarrow> string) \<Rightarrow> mtf_action \<Rightarrow> mtf_cluster \<Rightarrow> mtf_cluster option" where
  "perform_mtf ns md5 (Lead p) c = enabled (p < length ns \<and> fiber c p = Loop \<and> state (nodes c p) = Leader)
     ((goto p (Leading False) c)\<lparr>alive := (alive c)(p := (\<lambda>_. True))\<rparr>)"
| "perform_mtf ns md5 (Main_start p) c = enabled (p < length ns \<and> fiber c p = Leading False)
     (run mtf_restart p
       (bind (StartLeaderMainSession_mtf (member_config ns p)) (\<lambda>_. StartLeaderMainSession_body_mtf (member_config ns p)))
       (\<lambda>_. goto p (Leading True)) c)"
| "perform_mtf ns md5 (Main_round p) c = enabled (p < length ns \<and> fiber c p = Leading True)
     (run mtf_restart p (StartLeaderMainSession_body_mtf (member_config ns p)) (\<lambda>_ c. c) c)"
| "perform_mtf ns md5 (Send p q) c = (case fiber c p of
     Leading b \<Rightarrow> enabled (p < length ns \<and> q < length ns \<and> q \<noteq> p \<and> session c p (incarnation c p) q = None)
       (run mtf_restart p (StartLeaderNodeSession_mtf (member_config ns p) q)
         (\<lambda>r c. case r of None \<Rightarrow> c
            | Some req \<Rightarrow> (set_session p q (Some req) c)\<lparr>append_requests := insert req (append_requests c)\<rparr>) c)
   | _ \<Rightarrow> None)"
| "perform_mtf ns md5 (Deliver q req) c = enabled (q < length ns \<and> req \<in> append_requests c \<and> ae_leader_id req \<noteq> q)
     (run mtf_restart q (AppendEntries_mtf req)
       (\<lambda>res c. c\<lparr>append_replies := insert (q, req, res) (append_replies c)\<rparr>) c)"
| "perform_mtf ns md5 (Answer p q res) c = (case (fiber c p, session c p (incarnation c p) q) of
     (Leading b, Some req) \<Rightarrow> enabled (p < length ns \<and> (q, req, res) \<in> append_replies c)
       (run mtf_restart p
         (AppendEntries_response_mtf (member_config ns p) q req (Ok res :: (AppendEntriesResult, unit) Result) (alive c p q))
         (end_session p q) c)
   | _ \<Rightarrow> None)"
| "perform_mtf ns md5 (No_answer p q) c = (case (fiber c p, session c p (incarnation c p) q) of
     (Leading b, Some req) \<Rightarrow> enabled (p < length ns)
       (run mtf_restart p
         (AppendEntries_response_mtf (member_config ns p) q req (Err () :: (AppendEntriesResult, unit) Result) (alive c p q))
         (end_session p q) c)
   | _ \<Rightarrow> None)"
| "perform_mtf ns md5 (Client p request) c =
     enabled (p < length ns \<and> (state (nodes c p) = Leader \<longrightarrow> Suc (length (full_log (nodes c p))) < u64_max))
     (run mtf_restart p (Append (member_config ns p) md5 request)
       (\<lambda>r c. case r of Inl _ \<Rightarrow> c | Inr call \<Rightarrow> c\<lparr>calls := insert (p, incarnation c p, call) (calls c)\<rparr>) c)"
| "perform_mtf ns md5 (Client_end p call) c =
     enabled (p < length ns \<and> (p, incarnation c p, call) \<in> calls c \<and> replication_finished (nodes c p) (fst call))
     (run mtf_restart p (Append_finish call)
       (\<lambda>_ c. c\<lparr>calls := calls c - {(p, incarnation c p, call)}\<rparr>) c)"

lemma perform_mtf_step:
  assumes "perform_mtf ns md5 a c = Some c'"
  shows "mtf_other (member_config ns) (length ns) md5 c c'"
  using assms
  by (cases a) (auto simp: enabled_Some split: main_fiber.splits option.splits intro: mtf_other.intros)

section \<open>Properties of all runs\<close>

lemma mtf_run_good:
  assumes "length ns < u64_max" and "dbs_ok dbs" and "(mtf_step (member_config ns) (length ns) md5)\<^sup>*\<^sup>* (mtf_start dbs) c"
  shows "mtf_good (member_config ns) (length ns) c"
proof -
  obtain e where "history (length ns) (mtf_start dbs) e"
    using started_history [where n = "length ns", OF mtf_start_good(2) [OF assms(2,1)]] by auto
  from mtf.history_run [OF assms(3) this mtf_start_good(1) [OF assms(2,1)]] show ?thesis by blast
qed

text \<open>The logs, the logs of leaders and the requests of a new cluster agree with a history of the terms.\<close>

lemma mtf_matching:
  assumes "length ns < u64_max" and "(mtf_step (member_config ns) (length ns) md5)\<^sup>*\<^sup>* (mtf_start no_databases) c"
  obtains e H where "matching (log_view clear_data (view_request clear_data ` append_requests c) c e) H"
proof -
  note start = mtf_start_good [OF no_databases_ok assms(1)]
  obtain e where e: "history (length ns) (mtf_start no_databases) e" "e_elected e = {}"
    using started_history [where n = "length ns", OF start(2)] by auto
  have "view_request clear_data ` append_requests (mtf_start no_databases) = {}"
    "log_of (nodes (mtf_start no_databases) p) = [] \<and> state (nodes (mtf_start no_databases) p) = Follower" for p
    using start(2) by (simp_all add: start(3) no_databases_def started_def) (simp add: mtf_start_def)
  from mtf.logs_matching [OF assms(2) e(1) start(1) e(2) this] show ?thesis using that by blast
qed

lemma mtf_logs_match:
  assumes "length ns < u64_max"
    and "(mtf_step (member_config ns) (length ns) md5)\<^sup>*\<^sup>* (mtf_start no_databases) c"
    and "i < length (log_of (nodes c p))" and "i < length (log_of (nodes c q))"
    and "entry_term (log_of (nodes c p) ! i) = entry_term (log_of (nodes c q) ! i)"
  shows "map clear_data (take (Suc i) (log_of (nodes c p))) = map clear_data (take (Suc i) (log_of (nodes c q)))"
proof -
  obtain e H where "matching (log_view clear_data (view_request clear_data ` append_requests c) c e) H"
    using mtf_matching [OF assms(1,2)] .
  from matching_same [OF this, of i p q] assms(3-5) show ?thesis
    by (simp add: log_view_def take_map clear_data_def)
qed

text \<open>
  C5. Election safety of Metamorphosis: from whatever databases the nodes start, with requests and answers lost, delayed and repeated and
  with crashes at any point, a term never has two leaders, neither at the same time nor one after the other.
\<close>

theorem election_safety_mtf:
  assumes "length ns < u64_max" and "dbs_ok dbs"
    and "(mtf_step (member_config ns) (length ns) md5)\<^sup>*\<^sup>* (mtf_start dbs) c1"
    and "(mtf_step (member_config ns) (length ns) md5)\<^sup>*\<^sup>* c1 c2"
    and "state (nodes c1 p) = Leader" and "state (nodes c2 q) = Leader" and "term_of (nodes c1 p) = term_of (nodes c2 q)"
  shows "p = q"
proof -
  obtain e where "history (length ns) (mtf_start dbs) e"
    using started_history [where n = "length ns", OF mtf_start_good(2) [OF assms(2,1)]] by auto
  from mtf.leaders_of_a_term [OF assms(3,4) this mtf_start_good(1) [OF assms(2,1)] assms(5-7)] show ?thesis .
qed

section \<open>A run of three nodes\<close>

definition sample_md5 :: "string \<Rightarrow> string" where
  "sample_md5 text = rev text @ ''#''"

definition sample_message :: AppendReq where
  "sample_message = \<lparr>append_data = ''hi'', append_producer_id = 7, append_sequence_id = 0\<rparr>"

definition sample_stored :: "string \<Rightarrow> LogEntry_mtf" where
  "sample_stored text = \<lparr>entry_term = 1, entry_producer_id = 7, entry_data = text, entry_md5hash = ''ih#''\<rparr>"

definition sent_message :: "nat \<Rightarrow> LogEntry_mtf list \<Rightarrow> LogEntry_mtf AppendEntriesRequest" where
  "sent_message commit es = \<lparr>ae_term = 1, ae_leader_id = 0, ae_prev_log_index = 0, ae_prev_log_term = 0, ae_entries = es, ae_leader_commit = commit\<rparr>"

definition heartbeat :: "LogEntry_mtf AppendEntriesRequest" where
  "heartbeat = \<lparr>ae_term = 1, ae_leader_id = 0, ae_prev_log_index = 1, ae_prev_log_term = 1, ae_entries = [], ae_leader_commit = 1\<rparr>"

text \<open>Node 0 leads, gets a message from its producer, and node 1 saves the message.\<close>

definition until_leading :: "mtf_action action list" where
  "until_leading = elected 0 1 0 @ [Lose_vote 0 2, End_election 0] @ map Other [Lead 0, Main_start 0]"

definition until_saved :: "mtf_action action list" where
  "until_saved = map Other [Client 0 sample_message, Main_round 0, Send 0 1, Deliver 1 (sent_message 0 [sample_stored ''hi''])]"

text \<open>The message is committed, and node 2 gets its hash.\<close>

definition until_hashed :: "mtf_action action list" where
  "until_hashed = map Other [Answer 0 1 \<lparr>aer_term = 1, aer_success = True\<rparr>, Send 0 2, Deliver 2 (sent_message 1 [sample_stored ''''])]"

abbreviation mtf_performs :: "mtf_action action list \<Rightarrow> mtf_cluster \<Rightarrow> mtf_cluster option" where
  "mtf_performs \<equiv> performs three_nodes mtf_restart (\<lambda>p. BecomeLeader_mtf (member_config three_nodes p)) (perform_mtf three_nodes sample_md5)"

abbreviation mtf_runs :: "mtf_cluster \<Rightarrow> mtf_cluster \<Rightarrow> bool" where
  "mtf_runs \<equiv> (mtf_step (member_config three_nodes) (length three_nodes) sample_md5)\<^sup>*\<^sup>*"

definition accepted_first :: "mtf_cluster \<Rightarrow> bool" where
  "accepted_first c \<longleftrightarrow> fst (Append (member_config three_nodes 0) sample_md5 sample_message (nodes c 0)) = Ok (Inr (0, 1, 1, 7))"

definition saved :: "mtf_cluster \<Rightarrow> bool" where
  "saved c \<longleftrightarrow> state (nodes c 0) = Leader \<and> term_of (nodes c 0) = 1 \<and>
     log_of (nodes c 0) = [sample_stored ''hi''] \<and> log_of (nodes c 1) = [sample_stored ''hi'']"

definition hash_read :: "mtf_cluster \<Rightarrow> bool" where
  "hash_read c \<longleftrightarrow> saved c \<and> log_of (nodes c 2) = [sample_stored ''''] \<and>
     fst (Read 1 (nodes c 0)) = Ok (Ok \<lparr>read_status = FULL_MESSAGE, read_payload = Payload_data ''hi''\<rparr>) \<and>
     fst (Read 1 (nodes c 2)) = Ok (Ok \<lparr>read_status = HASH_ONLY, read_payload = Payload_md5hash ''ih#''\<rparr>)"

text \<open>
  The other way to go on: node 1 learns that the message is committed, then gets the first request once more. Node 0 crashes, and node 1 is elected by
  node 2. Then the producer sends its message again.
\<close>

definition until_reported :: "mtf_action action list" where
  "until_reported = map Other [Answer 0 1 \<lparr>aer_term = 1, aer_success = True\<rparr>, Send 0 1, Deliver 1 heartbeat]"

definition until_repeated :: "mtf_action action list" where
  "until_repeated = Other (Deliver 1 (sent_message 0 [sample_stored ''hi''])) # Crash 0 # elected 1 2 0"

definition reported_mtf :: "mtf_cluster \<Rightarrow> bool" where
  "reported_mtf c \<longleftrightarrow> (0, incarnation c 0, 0, 1, 1, 7) \<in> calls c \<and> replication_finished (nodes c 0) 0 \<and>
     fst (Append_finish (0, 1, 1, 7) (nodes c 0)) = Ok \<lparr>append_status = AppendRsp_Commited, append_offset = 1, append_next_sequence_id = 1\<rparr> \<and>
     commit_index (nodes c 1) = 1"

definition accepted_again :: "mtf_cluster \<Rightarrow> bool" where
  "accepted_again c \<longleftrightarrow> state (nodes c 1) = Leader \<and> commit_index (nodes c 1) = 1 \<and> log_of (nodes c 1) = [sample_stored ''hi''] \<and>
     (case Append (member_config three_nodes 1) sample_md5 sample_message (nodes c 1) of
        (r, s) \<Rightarrow> r = Ok (Inr (0, 2, 2, 7)) \<and> full_log s = [sample_stored ''hi'', (sample_stored ''hi'')\<lparr>entry_term := 2\<rparr>])"

lemma mtf_evaluation:
  "holds_in (mtf_performs until_leading (mtf_start no_databases)) (\<lambda>c0. accepted_first c0 \<and>
     holds_in (mtf_performs until_saved c0) (\<lambda>c. saved c \<and>
     holds_in (mtf_performs until_hashed c) hash_read \<and>
     holds_in (mtf_performs until_reported c) (\<lambda>c'. reported_mtf c' \<and> holds_in (mtf_performs until_repeated c') accepted_again)))"
  by code_simp

lemma mtf_performs_run: "mtf_performs as c = Some c' \<Longrightarrow> mtf_runs c c'"
  by (erule performs_run) (rule perform_mtf_step)

lemma mtf_saved:
  obtains c c' where "mtf_runs (mtf_start no_databases) c" and "saved c" and "mtf_runs c c'" and "hash_read c'"
proof -
  obtain c0 c c' where "mtf_runs (mtf_start no_databases) c0" "mtf_runs c0 c" "mtf_runs c c'" "saved c" "hash_read c'"
    using mtf_evaluation by (elim holds_inE conjE) (blast intro: mtf_performs_run)
  then show ?thesis using that rtranclp_trans [of _ _ c0 c] by blast
qed

theorem election_safety_mtf_witness:
  "\<exists>c1 c2. mtf_runs (mtf_start no_databases) c1 \<and> mtf_runs c1 c2 \<and> state (nodes c1 0) = Leader \<and>
     state (nodes c2 0) = Leader \<and> term_of (nodes c1 0) = 1 \<and> term_of (nodes c2 0) = 1 \<and> (0 :: nat) = 0"
proof -
  obtain c c' where c: "mtf_runs (mtf_start no_databases) c" "saved c" "mtf_runs c c'" "hash_read c'"
    using mtf_saved .
  have s: "state (nodes c 0) = Leader" "state (nodes c' 0) = Leader" "term_of (nodes c 0) = 1" "term_of (nodes c' 0) = 1"
    using c(2,4) by (simp_all add: saved_def hash_read_def)
  have "(0 :: nat) = 0"
    by (rule election_safety_mtf [OF three_small no_databases_ok c(1,3) s(1,2)]) (simp add: s)
  then show ?thesis using c(1,3) s by blast
qed

text \<open>
  C8. A message can be appended twice under one sequence number. In a run of three new nodes a producer sends its first message, with sequence number 0, and the
  leader takes it, commits it and would tell the producer so, with 1 as the next sequence number. A follower, which has committed the message too, gets the
  request with the message again and takes the message off the producer's count without adding it again. When that follower leads, the message is in its committed log, and still
  it accepts the same request, with sequence number 0, once more.
\<close>

theorem message_appended_twice:
  "append_sequence_id sample_message = 0 \<and>
   (\<exists>c0 c c' s. mtf_runs (mtf_start no_databases) c0 \<and> mtf_runs c0 c \<and> mtf_runs c c' \<and>
     fst (Append (member_config three_nodes 0) sample_md5 sample_message (nodes c0 0)) = Ok (Inr (0, 1, 1, 7)) \<and>
     (0, incarnation c 0, 0, 1, 1, 7) \<in> calls c \<and> replication_finished (nodes c 0) 0 \<and>
     fst (Append_finish (0, 1, 1, 7) (nodes c 0)) = Ok \<lparr>append_status = AppendRsp_Commited, append_offset = 1, append_next_sequence_id = 1\<rparr> \<and>
     state (nodes c' 1) = Leader \<and> commit_index (nodes c' 1) = 1 \<and> log_of (nodes c' 1) = [sample_stored ''hi''] \<and>
     Append (member_config three_nodes 1) sample_md5 sample_message (nodes c' 1) = (Ok (Inr (0, 2, 2, 7)), s) \<and>
     full_log s = [sample_stored ''hi'', (sample_stored ''hi'')\<lparr>entry_term := 2\<rparr>])"
proof -
  obtain c0 c1 c c' where run: "mtf_runs (mtf_start no_databases) c0" "mtf_runs c0 c1" "mtf_runs c1 c" "mtf_runs c c'"
    and c: "accepted_first c0" "reported_mtf c" "accepted_again c'"
    using mtf_evaluation by (elim holds_inE conjE) (blast intro: mtf_performs_run)
  have "mtf_runs c0 c" using run(2,3) by (rule rtranclp_trans)
  moreover obtain r s where "Append (member_config three_nodes 1) sample_md5 sample_message (nodes c' 1) = (r, s)" by fastforce
  ultimately show ?thesis
    using run(1,4) c unfolding accepted_first_def reported_mtf_def accepted_again_def by (auto simp: sample_message_def)
qed

end
