(* ===== verification/Mtf_Messages.thy ===== *)
theory Mtf_Messages
  imports Mtf_Runs
begin

text \<open>
  What the nodes of a Metamorphosis cluster know of the messages. An entry moves between logs and requests with its position, and on its way it may lose its data, but
  nothing else about it changes; new entries come from the appends of producers only. So what holds of every new entry at its position, and still holds when the
  data is cleared, holds of every entry of every log and request.

  Shown here: logs that hold an entry of the same term at the same index hold the same messages up to there, in full or as a hash.
\<close>

section \<open>Entries and their positions\<close>

definition placed :: "(nat \<Rightarrow> LogEntry_mtf \<Rightarrow> bool) \<Rightarrow> nat \<Rightarrow> LogEntry_mtf list \<Rightarrow> bool" where
  "placed Q i es \<longleftrightarrow> (\<forall>k < length es. Q (i + k) (es ! k))"

definition node_placed :: "(nat \<Rightarrow> LogEntry_mtf \<Rightarrow> bool) \<Rightarrow> MetamorphosisNode \<Rightarrow> bool" where
  "node_placed Q s \<longleftrightarrow> placed Q 0 (log_of s) \<and> (state s = Leader \<longrightarrow> placed Q 0 (full_log s))"

definition request_placed :: "(nat \<Rightarrow> LogEntry_mtf \<Rightarrow> bool) \<Rightarrow> LogEntry_mtf AppendEntriesRequest \<Rightarrow> bool" where
  "request_placed Q req \<longleftrightarrow> placed Q (ae_prev_log_index req) (ae_entries req)"

definition cluster_placed :: "(nat \<Rightarrow> LogEntry_mtf \<Rightarrow> bool) \<Rightarrow> mtf_cluster \<Rightarrow> bool" where
  "cluster_placed Q c \<longleftrightarrow> (\<forall>p. node_placed Q (nodes c p)) \<and> (\<forall>req \<in> append_requests c. request_placed Q req)"

definition may_clear :: "(nat \<Rightarrow> LogEntry_mtf \<Rightarrow> bool) \<Rightarrow> bool" where
  "may_clear Q \<longleftrightarrow> (\<forall>i e. Q i e \<longrightarrow> Q i (clear_data e))"

lemma entry_term_clear [simp]: "entry_term (clear_data e) = entry_term e"
  by (simp add: clear_data_def)

lemma placed_snoc: "placed Q i (es @ [e]) \<longleftrightarrow> placed Q i es \<and> Q (i + length es) e"
  by (auto simp: placed_def nth_append less_Suc_eq)

lemma placed_new_log:
  assumes "placed Q 0 es" and "placed Q prev sent" and "prev \<le> length es" and "commit \<le> length es"
  shows "placed Q 0 (new_log prev commit sent es)"
  unfolding placed_def
proof (intro allI impI)
  let ?m = "max prev commit"
  fix k assume k: "k < length (new_log prev commit sent es)"
  have m: "?m \<le> length es" using assms(3,4) by simp
  show "Q (0 + k) (new_log prev commit sent es ! k)"
  proof (cases "k < ?m")
    case True
    then have "k < length es" "new_log prev commit sent es ! k = es ! k" using m by (auto simp: new_log_def nth_append)
    then show ?thesis using assms(1) by (simp add: placed_def)
  next
    case False
    then have "k = prev + (k - prev)" "?m + (k - ?m) = k" by simp_all
    moreover have "k - prev < length sent" using False k m by (auto simp: new_log_def)
    moreover have "new_log prev commit sent es ! k = sent ! (k - prev)"
      using False m calculation by (simp add: new_log_def nth_append)
    ultimately show ?thesis using assms(2) unfolding placed_def by (metis add_0)
  qed
qed

lemma placed_copies:
  assumes "placed Q 0 es" and "copies es req" and "may_clear Q"
  shows "request_placed Q req"
  unfolding request_placed_def placed_def
proof (intro allI impI)
  fix k assume k: "k < length (ae_entries req)"
  then have "Q (ae_prev_log_index req + k) (es ! (ae_prev_log_index req + k))" using assms(1,2) by (simp add: placed_def copies_def)
  then show "Q (ae_prev_log_index req + k) (ae_entries req ! k)" using assms(2,3) k unfolding copies_def may_clear_def by metis
qed

lemma cluster_placed_mono:
  assumes "cluster_placed P c" and "cluster_placed Q c" and "\<And>i e. P i e \<Longrightarrow> Q i e \<Longrightarrow> R i e"
  shows "cluster_placed R c"
  using assms unfolding cluster_placed_def node_placed_def request_placed_def placed_def by blast

text \<open>Nodes.\<close>

lemma placed_kept: "node_placed Q s \<Longrightarrow> log_kept s s' \<Longrightarrow> node_placed Q s'"
  by (auto simp: node_placed_def log_kept_def)

lemma placed_frame: "node_placed Q s \<Longrightarrow> frame s s' \<Longrightarrow> node_placed Q s'"
  by (erule placed_kept) (simp add: log_kept_def frame_def full_log_def log_of_def)

lemma placed_lead:
  assumes "node_placed Q s" and "wf_db s" and "state s = Candidate"
  shows "node_placed Q (snd (BecomeLeader_mtf config s))"
  using assms mtf.becomes_leader [OF assms(2,3)]
  by (simp add: node_placed_def BecomeLeader_mtf_run full_log_def leader_of_mtf_def leader_of_def log_of_def Stop_stop_election_def split: prod.splits)

lemma placed_deliver:
  assumes "node_placed Q s" and "request_placed Q req" and "db_inv s" and "small_request req" and "AppendEntries_mtf req s = (r, s')"
  shows "node_placed Q s'"
proof -
  have "commit_index s \<le> length (log_of s)" using assms(3) by (simp add: db_inv_def)
  then have "placed Q 0 (new_log (ae_prev_log_index req) (commit_index s) (ae_entries req) (log_of s))" if "log_matches req (log_of s)"
    using that assms(1,2) by (intro placed_new_log) (simp_all add: node_placed_def request_placed_def log_matches_def)
  then show ?thesis
    using deliver_mtf_ok [OF assms(3-5)] assms(1) unfolding node_placed_def by auto
qed

lemma placed_append_node:
  assumes "node_placed Q s" and "wf_db s" and "state s = Leader \<Longrightarrow> leader_inv config s" and "state s = Leader \<Longrightarrow> Suc (length (full_log s)) < u64_max"
    and "state s = Leader \<Longrightarrow> Q (length (full_log s)) \<lparr>entry_term = term_of s, entry_producer_id = append_producer_id request,
       entry_data = append_data request, entry_md5hash = md5 (append_data request)\<rparr>"
  shows "node_placed Q (snd (Append config md5 request s))"
  using assms(1,5) Append_run [OF assms(2-4), of md5 request] by (auto simp: node_placed_def Let_def appended_facts placed_snoc)

section \<open>Steps\<close>

lemma placed_crash:
  assumes "cluster_placed Q c" and "wf_db s" and "placed Q 0 (log_of s)"
  shows "cluster_placed Q (crash mtf_restart p s c)"
  using assms mtf_restart_facts [OF assms(2)] by (simp add: cluster_placed_def crash_def goto_def node_placed_def)

text \<open>A step of one node, with what it sends.\<close>

lemma placed_run:
  assumes "cluster_placed Q c" and "wf_db (snd (m (nodes c p)))" and "node_placed Q (snd (m (nodes c p)))"
    and "\<And>x s. m (nodes c p) = (Ok x, s) \<Longrightarrow> nodes (k x (c\<lparr>nodes := (nodes c)(p := s)\<rparr>)) = (nodes c)(p := s) \<and>
      (\<forall>req \<in> append_requests (k x (c\<lparr>nodes := (nodes c)(p := s)\<rparr>)). req \<in> append_requests c \<or> request_placed Q req)"
  shows "cluster_placed Q (run mtf_restart p m k c)"
proof (rule run_rule)
  fix x s assume m: "m (nodes c p) = (Ok x, s)"
  with assms(3) have "node_placed Q s" by simp
  with assms(1) assms(4) [OF m] show "cluster_placed Q (k x (c\<lparr>nodes := (nodes c)(p := s)\<rparr>))"
    by (auto simp: cluster_placed_def)
next
  fix e s assume "m (nodes c p) = (Err e, s)"
  with assms(2,3) show "cluster_placed Q (crash mtf_restart p s c)"
    by (intro placed_crash [OF assms(1)]) (simp_all add: node_placed_def)
qed

lemma placed_frame_run:
  assumes "cluster_placed Q c" and "keeps frame m" and "wf_db (snd (m (nodes c p)))"
    and "\<And>x c0. nodes (k x c0) = nodes c0 \<and> append_requests (k x c0) = append_requests c0"
  shows "cluster_placed Q (run mtf_restart p m k c)"
proof -
  have "node_placed Q (nodes c p)" "frame (nodes c p) (snd (m (nodes c p)))"
    using assms(1,2) by (simp_all add: cluster_placed_def keeps_def)
  from placed_frame [OF this] show ?thesis
    using assms(4) by (intro placed_run assms(1,3)) simp_all
qed

lemma placed_vote_response:
  assumes "cluster_placed Q c" and "wf_db (nodes c p)"
  shows "cluster_placed Q (run mtf_restart p (RequestVote_response config (BecomeLeader_mtf (member_config ns p)) r votes) (\<lambda>votes. goto p (f votes)) c)"
proof -
  obtain x s' where out: "RequestVote_response config (BecomeLeader_mtf (member_config ns p)) r votes (nodes c p) = (Ok x, s')"
    and s': "s' = snd (BecomeLeader_mtf (member_config ns p) (nodes c p)) \<and> state (nodes c p) = Candidate \<or> frame (nodes c p) s' \<and> wf_db s'"
    using mtf.vote_response_cases [OF assms(2), of config ns p r votes] by blast
  have "node_placed Q (nodes c p)" using assms(1) by (simp add: cluster_placed_def)
  then have "node_placed Q s'" "wf_db s'"
    using s' placed_lead [OF _ assms(2)] placed_frame mtf.becomes_leader [OF assms(2)] same_dbD [of "nodes c p" s'] assms(2) by auto
  then show ?thesis by (intro placed_run [OF assms(1)]) (simp_all add: out goto_def)
qed

text \<open>A step that leaves the log to the node, and sends nothing.\<close>

lemma placed_kept_run:
  assumes "cluster_placed Q c" and "wf_db (nodes c p)"
    and "\<And>x s. m (nodes c p) = (Ok x, s) \<Longrightarrow> quiet (nodes c p) s \<and> log_kept (nodes c p) s"
    and "\<And>e s. m (nodes c p) = (Err e, s) \<Longrightarrow> same_db (nodes c p) s"
    and "\<And>x c0. nodes (k x c0) = nodes c0 \<and> append_requests (k x c0) = append_requests c0"
  shows "cluster_placed Q (run mtf_restart p m k c)"
proof (rule run_rule)
  have node: "node_placed Q (nodes c p)" using assms(1) by (simp add: cluster_placed_def)
  fix x s assume "m (nodes c p) = (Ok x, s)"
  with assms(3) placed_kept [OF node] have "node_placed Q s" by blast
  with assms(1,5) show "cluster_placed Q (k x (c\<lparr>nodes := (nodes c)(p := s)\<rparr>))" by (simp add: cluster_placed_def)
next
  fix e s assume "m (nodes c p) = (Err e, s)"
  with assms(4) have db: "same_db (nodes c p) s" by blast
  from assms(1) have "node_placed Q (nodes c p)" by (simp add: cluster_placed_def)
  with db same_dbD [OF db] assms(2) show "cluster_placed Q (crash mtf_restart p s c)"
    by (intro placed_crash [OF assms(1)]) (auto simp: node_placed_def same_db_def log_of_def)
qed

text \<open>The appends of producers are the only source of new entries.\<close>

definition append_step :: "(string \<times> nat) list \<Rightarrow> (string \<Rightarrow> string) \<Rightarrow> nat \<Rightarrow> AppendReq \<Rightarrow> mtf_cluster \<Rightarrow> mtf_cluster" where
  "append_step ns md5 p request c = run mtf_restart p (Append (member_config ns p) md5 request)
     (\<lambda>r c. case r of Inl _ \<Rightarrow> c | Inr call \<Rightarrow> c\<lparr>calls := insert (p, incarnation c p, call) (calls c)\<rparr>) c"

definition room :: "mtf_cluster \<Rightarrow> nat \<Rightarrow> bool" where
  "room c p \<longleftrightarrow> (state (nodes c p) = Leader \<longrightarrow> Suc (length (full_log (nodes c p))) < u64_max)"

lemma placed_append:
  assumes "mtf_good (member_config ns) (length ns) c" and "cluster_placed Q c" and "p < length ns" and "room c p"
    and "state (nodes c p) = Leader \<Longrightarrow> Q (length (full_log (nodes c p))) \<lparr>entry_term = term_of (nodes c p),
       entry_producer_id = append_producer_id request, entry_data = append_data request, entry_md5hash = md5 (append_data request)\<rparr>"
  shows "cluster_placed Q (append_step ns md5 p request c)"
proof -
  note ok = mtf_node.okD(3) [OF assms(1,3)] and small = assms(4) [unfolded room_def, rule_format]
  have "node_placed Q (nodes c p)" using assms(2) by (simp add: cluster_placed_def)
  from placed_append_node [where ?md5.0 = md5 and request = request, OF this mtf_node.peer_okD(2,5) [OF ok] small assms(5)]
    append_call_ok [OF ok small, of md5 request "{}"]
  show ?thesis unfolding append_step_def by (intro placed_run [OF assms(2)]) (auto simp: quiet_def split: sum.splits)
qed

lemma placed_other:
  assumes "mtf_other (member_config ns) (length ns) md5 c c'" and "mtf_good (member_config ns) (length ns) c" and "cluster_placed Q c"
    and "may_clear Q" and "\<And>p request. p < length ns \<Longrightarrow> room c p \<Longrightarrow> c' \<noteq> append_step ns md5 p request c"
  shows "cluster_placed Q c'"
  using assms(1)
proof cases
  case (lead p)
  then show ?thesis using assms(3) by (simp add: cluster_placed_def goto_def)
next
  case (main_start p)
  note out = main_start_mtf_ok [OF mtf_node.okD(3) [OF assms(2) main_start(2), unfolded main_start(3)]]
  show ?thesis
    unfolding main_start(1) using out
    by (intro placed_kept_run [OF assms(3) mtf_node.okD(2) [OF assms(2)]]) (auto simp: goto_def same_db_def)
next
  case (main_round p)
  obtain s where "StartLeaderMainSession_body_mtf (member_config ns p) (nodes c p) = (Ok (), s)"
      "quiet (nodes c p) s" "log_kept (nodes c p) s"
    using main_body_mtf_ok [OF mtf_node.okD(3) [OF assms(2) main_round(2), unfolded main_round(3)]] by blast
  then show ?thesis
    unfolding main_round(1) by (intro placed_kept_run [OF assms(3) mtf_node.okD(2) [OF assms(2)]]) simp_all
next
  case (send p b q)
  let ?s = "nodes c p"
  have here: "node_placed Q ?s" "wf_db ?s" using assms(3) mtf_node.okD(2) [OF assms(2)] by (simp_all add: cluster_placed_def)
  from send_mtf_ok [OF mtf_node.okD(3) [OF assms(2) send(2)], of q] send(4) mtf_node.config_nodes [OF send(2)]
  consider "StartLeaderNodeSession_mtf (member_config ns p) q ?s = (Ok None, ?s)" | e where "StartLeaderNodeSession_mtf (member_config ns p) q ?s = (Err e, ?s)"
    | req where "StartLeaderNodeSession_mtf (member_config ns p) q ?s = (Ok (Some req), ?s)" "state ?s = Leader"
        "copies (full_log ?s) req" by auto
  then show ?thesis
  proof cases
    case 3
    from 3(2,3) here(1) assms(4) have "request_placed Q req" by (auto simp: node_placed_def intro: placed_copies)
    with 3(1) here show ?thesis
      unfolding send(1) by (intro placed_run [OF assms(3)]) (auto simp: set_session_def)
  qed (use here in \<open>auto simp: send(1) intro!: placed_run [OF assms(3)]\<close>)
next
  case (deliver q req)
  let ?out = "AppendEntries_mtf req (nodes c q)"
  note deliver_mtf_ok [OF mtf_node.okD(1) [OF assms(2), of q] mtf_node.okD(4) [OF assms(2) deliver(3)], of "fst ?out" "snd ?out"]
    and placed_deliver [OF _ _ mtf_node.okD(1) [OF assms(2), of q] mtf_node.okD(4) [OF assms(2) deliver(3)], of Q "fst ?out" "snd ?out"]
  with assms(3) deliver(3) show ?thesis
    unfolding deliver(1) by (intro placed_run [OF assms(3)]) (simp_all add: cluster_placed_def db_inv_def)
next
  case (answer p b q req res)
  from answer_mtf_ok [OF mtf_node.okD(3) [OF assms(2) answer(2)] answer(4), of "Ok res :: (AppendEntriesResult, unit) Result" "alive c p q"] show ?thesis
    unfolding answer(1) by (intro placed_kept_run [OF assms(3) mtf_node.okD(2) [OF assms(2)]]) (auto simp: end_session_def set_session_def)
next
  case (no_answer p b q req)
  from answer_mtf_ok [OF mtf_node.okD(3) [OF assms(2) no_answer(2)] no_answer(4), of "Err () :: (AppendEntriesResult, unit) Result" "alive c p q"] show ?thesis
    unfolding no_answer(1) by (intro placed_kept_run [OF assms(3) mtf_node.okD(2) [OF assms(2)]]) (auto simp: end_session_def set_session_def)
next
  case (resign p)
  show ?thesis
    unfolding resign(1) using resign(4) mtf_node.okD(2) [OF assms(2), of p]
    by (intro placed_kept_run [OF assms(3) mtf_node.okD(2) [OF assms(2)]])
      (auto simp: StartLeader_finish_mtf_def modify_run goto_def quiet_def log_kept_def)
next
  case (append p request)
  then show ?thesis using assms(5) [of p request] by (simp add: append_step_def room_def)
next
  case (append_end p call)
  note ok = mtf_node.okD(3) [OF assms(2) append_end(2)]
  have "same_db (nodes c p) s" if "Append_finish call (nodes c p) = (Err e, s)" for e s
    using that Append_finish_run [OF mtf_node.peer_okD(2) [OF ok]] by (cases call) (auto simp: Let_def same_db_def split: if_splits)
  then show ?thesis
    unfolding append_end(1) using append_end_ok [OF ok]
    by (intro placed_kept_run [OF assms(3) mtf_node.okD(2) [OF assms(2)]]) simp_all
qed

lemma placed_step:
  assumes "mtf_step (member_config ns) (length ns) md5 c c'" and "mtf_good (member_config ns) (length ns) c" and "cluster_placed Q c"
    and "may_clear Q" and "\<And>p request. p < length ns \<Longrightarrow> room c p \<Longrightarrow> c' \<noteq> append_step ns md5 p request c"
  shows "cluster_placed Q c'"
  using assms(1)
proof cases
  case (crash p)
  show ?thesis
    unfolding crash(1) using assms(3) by (intro placed_crash [OF assms(3) mtf_node.okD(2) [OF assms(2)]]) (simp add: cluster_placed_def node_placed_def)
next
  case (sleep p)
  show ?thesis unfolding sleep(1)
    by (rule placed_frame_run [OF assms(3) frame_StartFollower(1) wf_elections(2) [OF mtf_node.okD(2) [OF assms(2)]]]) (simp add: goto_def)
next
  case (wake p)
  show ?thesis unfolding wake(1)
    by (rule placed_frame_run [OF assms(3) frame_StartFollower(2) wf_elections(3) [OF mtf_node.okD(2) [OF assms(2)]]]) (simp add: goto_def)
next
  case (campaign p)
  show ?thesis unfolding campaign(1)
    by (rule placed_frame_run [OF assms(3) frame_StartCandidate wf_elections(4) [OF mtf_node.okD(2) [OF assms(2)]]]) (simp add: goto_def split: prod.splits)
next
  case (vote_request q req)
  show ?thesis unfolding vote_request(1)
    by (rule placed_frame_run [OF assms(3) frame_RequestVote wf_elections(1) [OF mtf_node.okD(2) [OF assms(2)]]]) simp
next
  case (vote_answer p req votes W q res)
  show ?thesis unfolding vote_answer(1) by (rule placed_vote_response [OF assms(3) mtf_node.okD(2) [OF assms(2)]])
next
  case (vote_error p req votes W q)
  show ?thesis unfolding vote_error(1) by (rule placed_vote_response [OF assms(3) mtf_node.okD(2) [OF assms(2)]])
next
  case (election_timeout p req votes W)
  show ?thesis unfolding election_timeout(1)
    by (rule placed_frame_run [OF assms(3) frame_election_timer wf_elections(5) [OF mtf_node.okD(2) [OF assms(2)]]]) simp
next
  case (election_end p req votes)
  then show ?thesis using assms(3) by (simp add: cluster_placed_def goto_def)
next
  case other
  from placed_other [OF this assms(2-5)] show ?thesis .
qed

lemma placed_start:
  assumes "length ns < u64_max"
  shows "cluster_placed Q (mtf_start no_databases)"
proof -
  note start = mtf_start_good [OF no_databases_ok assms]
  have "log_of (nodes (mtf_start no_databases) p) = []" "state (nodes (mtf_start no_databases) p) \<noteq> Leader" for p
    using start(2) by (simp_all add: start(3) no_databases_def started_def)
  then show ?thesis by (simp add: cluster_placed_def node_placed_def placed_def) (simp add: mtf_start_def)
qed

section \<open>Which message an entry stands for\<close>

text \<open>\<open>G t i\<close> is the message that the leader of term \<open>t\<close> has given position \<open>i\<close>.\<close>

definition stands_for :: "(nat \<Rightarrow> nat \<Rightarrow> string) \<Rightarrow> nat \<Rightarrow> LogEntry_mtf \<Rightarrow> bool" where
  "stands_for G i e \<longleftrightarrow> entry_data e = '''' \<or> entry_data e = G (entry_term e) i"

lemma stands_for_clear: "may_clear (stands_for G)"
  by (simp add: may_clear_def stands_for_def clear_data_def)

text \<open>The next position of a leader is new: no log and no request has an entry of its term there.\<close>

lemma log_ok_position: "log_ok H (map clear_data es) \<Longrightarrow> k < length es \<Longrightarrow> k < length (H (entry_term (es ! k)))"
  using log_ok_length [of H "map clear_data es" k] by (simp add: clear_data_def)

lemma segment_position:
  assumes "segment H (view_request clear_data req)" and "log_ok H (H (ae_term req))" and "k < length (ae_entries req)"
  shows "ae_prev_log_index req + k < length (H (entry_term (ae_entries req ! k)))"
proof -
  let ?L = "H (ae_term req)" and ?prev = "ae_prev_log_index req"
  have seg: "?prev + length (ae_entries req) \<le> length ?L" "map clear_data (ae_entries req) = take (length (ae_entries req)) (drop ?prev ?L)"
    using assms(1) by (simp_all add: segment_def Let_def view_request_def)
  have "clear_data (ae_entries req ! k) = ?L ! (?prev + k)"
    using arg_cong [where f = "\<lambda>es. es ! k", OF seg(2)] seg(1) assms(3) by simp
  then have "entry_term (?L ! (?prev + k)) = entry_term (ae_entries req ! k)" by (metis entry_term_clear)
  with log_ok_length [OF assms(2), of "?prev + k"] seg(1) assms(3) show ?thesis by simp
qed

lemma new_position:
  assumes "matching (log_view clear_data (view_request clear_data ` append_requests c) c e) H" and "state (nodes c p) = Leader"
  shows "cluster_placed (\<lambda>i e. entry_term e = term_of (nodes c p) \<longrightarrow> i < length (full_log (nodes c p))) c"
proof -
  note D = matchingD [OF assms(1)]
  have lead: "map clear_data (full_log (nodes c q)) = H (term_of (nodes c q))" if "state (nodes c q) = Leader" for q
    using D(3) [of q "term_of (nodes c q)" "map clear_data (full_log (nodes c q))"] that by (simp add: log_view_def)
  have len: "length (H (term_of (nodes c p))) = length (full_log (nodes c p))" using lead [OF assms(2)] by (metis length_map)
  have logs: "log_ok H (map clear_data (log_of (nodes c q)))" for q using D(1) [of q] by (simp add: log_view_def)
  have full: "log_ok H (map clear_data (full_log (nodes c q)))" if "state (nodes c q) = Leader" for q
    using D(2) [of "term_of (nodes c q)"] lead [OF that] by simp
  have sent: "segment H (view_request clear_data req)" if "req \<in> append_requests c" for req
    using D(5) [of "view_request clear_data req"] that by (simp add: log_view_def)
  show ?thesis
    unfolding cluster_placed_def node_placed_def request_placed_def placed_def
    using log_ok_position [OF logs] log_ok_position [OF full] segment_position [OF sent D(2)] len
    by (metis add_0)
qed

lemma messages_agree:
  assumes "length ns < u64_max" and "(mtf_step (member_config ns) (length ns) md5)\<^sup>*\<^sup>* (mtf_start no_databases) c"
  shows "\<exists>G. cluster_placed (stands_for G) c"
  using assms(2)
proof (induction rule: rtranclp_induct)
  case base
  show ?case using placed_start [OF assms(1)] by blast
next
  case (step c1 c2)
  then obtain G where G: "cluster_placed (stands_for G) c1" by blast
  note good = mtf_run_good [OF assms(1) no_databases_ok step(1)]
  show ?case
  proof (cases "\<exists>p request. p < length ns \<and> room c1 p \<and> c2 = append_step ns md5 p request c1")
    case False
    with placed_step [OF step(2) good G stands_for_clear] show ?thesis by blast
  next
    case True
    then obtain p request where p: "p < length ns" "room c1 p" "c2 = append_step ns md5 p request c1" by blast
    show ?thesis
    proof (cases "state (nodes c1 p) = Leader")
      case False
      with placed_append [OF good G p(1,2)] p(3) show ?thesis by blast
    next
      case True
      let ?t = "term_of (nodes c1 p)" and ?n = "length (full_log (nodes c1 p))"
      let ?G = "G(?t := (G ?t)(?n := append_data request))"
      obtain e H where H: "matching (log_view clear_data (view_request clear_data ` append_requests c1) c1 e) H"
        using mtf_matching [OF assms(1) step(1)] .
      have "cluster_placed (stands_for ?G) c1"
        by (rule cluster_placed_mono [OF G new_position [OF H True]]) (auto simp: stands_for_def)
      then have "cluster_placed (stands_for ?G) (append_step ns md5 p request c1)"
        by (rule placed_append [OF good _ p(1,2)]) (simp add: stands_for_def)
      then show ?thesis using p(3) by blast
    qed
  qed
qed

text \<open>Two copies of an entry: they agree, except that either may lack the message itself and have its hash only.\<close>

definition same_message :: "LogEntry_mtf \<Rightarrow> LogEntry_mtf \<Rightarrow> bool" where
  "same_message e e' \<longleftrightarrow> entry_term e = entry_term e' \<and> entry_producer_id e = entry_producer_id e' \<and> entry_md5hash e = entry_md5hash e' \<and>
     (entry_data e = entry_data e' \<or> entry_data e = '''' \<or> entry_data e' = '''')"

text \<open>
  C6. Log matching of Metamorphosis: in every state a new cluster can reach, two logs that hold an entry of the same term at the same index hold copies of the same
  entries up to and including that index: of the same term, producer and hash, and with the same message wherever both logs have it in full.
\<close>

theorem log_matching_mtf:
  assumes "length ns < u64_max"
    and "(mtf_step (member_config ns) (length ns) md5)\<^sup>*\<^sup>* (mtf_start no_databases) c"
    and "i < length (log_of (nodes c p))" and "i < length (log_of (nodes c q))"
    and "entry_term (log_of (nodes c p) ! i) = entry_term (log_of (nodes c q) ! i)"
  shows "list_all2 same_message (take (Suc i) (log_of (nodes c p))) (take (Suc i) (log_of (nodes c q)))"
proof (rule list_all2_all_nthI)
  let ?p = "log_of (nodes c p)" and ?q = "log_of (nodes c q)"
  show "length (take (Suc i) ?p) = length (take (Suc i) ?q)" using assms(3,4) by simp
  obtain G where "cluster_placed (stands_for G) c" using messages_agree [OF assms(1,2)] by blast
  then have G: "stands_for G k (?p ! k)" "stands_for G k (?q ! k)" if "k \<le> i" for k
    using that assms(3,4) by (simp_all add: cluster_placed_def node_placed_def placed_def)
  fix k assume "k < length (take (Suc i) ?p)"
  then have k: "k \<le> i" by simp
  then have "clear_data (?p ! k) = clear_data (?q ! k)"
    using arg_cong [where f = "\<lambda>es. es ! k", OF mtf_logs_match [OF assms]] assms(3,4) by simp
  with G [OF k] k show "same_message (take (Suc i) ?p ! k) (take (Suc i) ?q ! k)"
    by (cases "?p ! k"; cases "?q ! k") (auto simp: same_message_def stands_for_def clear_data_def)
qed

theorem log_matching_mtf_witness:
  "\<exists>c. mtf_runs (mtf_start no_databases) c \<and> log_of (nodes c 0) = [sample_stored ''hi''] \<and> log_of (nodes c 2) = [sample_stored ''''] \<and>
     list_all2 same_message (take (Suc 0) (log_of (nodes c 0))) (take (Suc 0) (log_of (nodes c 2)))"
proof -
  obtain c c' where c: "mtf_runs (mtf_start no_databases) c" "saved c" "mtf_runs c c'" "hash_read c'"
    using mtf_saved .
  have run: "mtf_runs (mtf_start no_databases) c'" using c(1,3) by (rule rtranclp_trans)
  have "list_all2 same_message (take (Suc 0) (log_of (nodes c' 0))) (take (Suc 0) (log_of (nodes c' 2)))"
    using c(4) by (intro log_matching_mtf [OF three_small run]) (simp_all add: hash_read_def saved_def sample_stored_def del: length_log_of)
  with run c(4) show ?thesis by (auto simp: hash_read_def saved_def)
qed

end
