(* ===== verification/Mtf_Hashes.thy ===== *)
theory Mtf_Hashes
  imports Mtf_Messages
begin

text \<open>
  Messages and their hashes in a cluster of Metamorphosis nodes. A node may hold a message in full or its MD5 digest only, and a consumer compares
  one with the other. Shown here: wherever a message is stored in full or is on its way in full, the digest beside it is
  that of the message, so what a consumer reads at one node fits what it reads at another.
\<close>

section \<open>Entries\<close>

definition hashed :: "(string \<Rightarrow> string) \<Rightarrow> LogEntry_mtf \<Rightarrow> bool" where
  "hashed md5 e \<longleftrightarrow> entry_data e = '''' \<or> entry_md5hash e = md5 (entry_data e)"

lemma hashed_clear: "may_clear (\<lambda>_. hashed md5)"
  by (simp add: may_clear_def hashed_def clear_data_def)

lemma hash_clear_data [simp]: "entry_md5hash (clear_data e) = entry_md5hash e"
  by (simp add: clear_data_def)

lemma messages_hashed:
  assumes "length ns < u64_max" and "(mtf_step (member_config ns) (length ns) md5)\<^sup>*\<^sup>* (mtf_start no_databases) c"
  shows "cluster_placed (\<lambda>_. hashed md5) c"
  using assms(2)
proof (induction rule: rtranclp_induct)
  case base
  show ?case by (rule placed_start [OF assms(1)])
next
  case (step c1 c2)
  note good = mtf_run_good [OF assms(1) no_databases_ok step(1)]
  have "cluster_placed (\<lambda>_. hashed md5) (append_step ns md5 p request c1)" if "p < length ns" "room c1 p" for p request
    by (rule placed_append [OF good step(3) that]) (simp add: hashed_def)
  with placed_step [OF step(2) good step(3) hashed_clear] show ?case by blast
qed

section \<open>Reads\<close>

text \<open>What a node answers comes from its committed log.\<close>

lemma Read_full:
  assumes "db_inv s" and "fst (Read offset s) = Ok (Ok \<lparr>read_status = FULL_MESSAGE, read_payload = Payload_data d\<rparr>)"
  shows "offset - 1 < length (log_of s)" and "entry_data (log_of s ! (offset - 1)) = d" and "d \<noteq> ''''"
  using assms Read_run [of s offset] by (auto simp: db_inv_def Let_def split: if_splits)

lemma Read_hash:
  assumes "db_inv s" and "fst (Read offset s) = Ok (Ok \<lparr>read_status = HASH_ONLY, read_payload = Payload_md5hash h\<rparr>)"
  shows "offset - 1 < length (log_of s)" and "entry_md5hash (log_of s ! (offset - 1)) = h"
  using assms Read_run [of s offset] by (auto simp: db_inv_def Let_def split: if_splits)

text \<open>
  C7. A hash read at one node is the hash of the message read at another: in every state a new cluster can reach, if one node answers a read of an offset
  with a message and another with a hash, and they hold entries of the same term there, then the hash is the MD5 digest of the message.
\<close>

theorem reads_fit:
  assumes "length ns < u64_max"
    and "(mtf_step (member_config ns) (length ns) md5)\<^sup>*\<^sup>* (mtf_start no_databases) c"
    and "fst (Read offset (nodes c p)) = Ok (Ok \<lparr>read_status = FULL_MESSAGE, read_payload = Payload_data d\<rparr>)"
    and "fst (Read offset (nodes c q)) = Ok (Ok \<lparr>read_status = HASH_ONLY, read_payload = Payload_md5hash h\<rparr>)"
    and "entry_term (log_of (nodes c p) ! (offset - 1)) = entry_term (log_of (nodes c q) ! (offset - 1))"
  shows "h = md5 d"
proof -
  let ?i = "offset - 1"
  note inv = mtf_node.okD(1) [OF mtf_run_good [OF assms(1) no_databases_ok assms(2)]]
  note full = Read_full [OF inv assms(3)] and hash = Read_hash [OF inv assms(4)]
  have "clear_data (log_of (nodes c p) ! ?i) = clear_data (log_of (nodes c q) ! ?i)"
    using arg_cong [where f = "\<lambda>es. es ! ?i", OF mtf_logs_match [OF assms(1,2) full(1) hash(1) assms(5)]] full(1) hash(1) by simp
  then have "entry_md5hash (log_of (nodes c p) ! ?i) = h" using hash(2) by (metis hash_clear_data)
  moreover have "hashed md5 (log_of (nodes c p) ! ?i)"
    using messages_hashed [OF assms(1,2)] full(1) by (simp add: cluster_placed_def node_placed_def placed_def)
  ultimately show ?thesis using full(2,3) by (simp add: hashed_def)
qed

theorem reads_fit_witness:
  "\<exists>c. mtf_runs (mtf_start no_databases) c \<and>
     fst (Read 1 (nodes c 0)) = Ok (Ok \<lparr>read_status = FULL_MESSAGE, read_payload = Payload_data ''hi''\<rparr>) \<and>
     fst (Read 1 (nodes c 2)) = Ok (Ok \<lparr>read_status = HASH_ONLY, read_payload = Payload_md5hash ''ih#''\<rparr>) \<and>
     ''ih#'' = sample_md5 ''hi''"
proof -
  obtain c c' where c: "mtf_runs (mtf_start no_databases) c" "saved c" "mtf_runs c c'" "hash_read c'"
    using mtf_saved .
  have run: "mtf_runs (mtf_start no_databases) c'" using c(1,3) by (rule rtranclp_trans)
  have r: "fst (Read 1 (nodes c' 0)) = Ok (Ok \<lparr>read_status = FULL_MESSAGE, read_payload = Payload_data ''hi''\<rparr>)"
    "fst (Read 1 (nodes c' 2)) = Ok (Ok \<lparr>read_status = HASH_ONLY, read_payload = Payload_md5hash ''ih#''\<rparr>)"
    using c(4) by (simp_all add: hash_read_def)
  have "''ih#'' = sample_md5 ''hi''"
    using c(4) by (intro reads_fit [OF three_small run r]) (simp add: hash_read_def saved_def sample_stored_def)
  with run r show ?thesis by blast
qed

end
