(* ===== verification/Exactly_Once.thy ===== *)
theory Exactly_Once
  imports State_Machine
begin

text \<open>
  What the exactly-once wrapper of theory State_Machine gives a client that retries its requests. Shown here: the copies of a request are
  executed once as long as they come before the client's next request, and what happens to a copy that comes later.
\<close>

section \<open>Exactly once\<close>

text \<open>The identifiers of the requests of a client, in the order of the log.\<close>

definition ids_of :: "nat \<Rightarrow> 'a Request list \<Rightarrow> nat list" where
  "ids_of c rs = map request_id (filter (\<lambda>r. client_id r = c) rs)"

lemma ids_of_effective: "ids_of c (effective ids rs) = tl (remdups_adj (ids c # ids_of c rs))"
proof (induction rs arbitrary: ids)
  case (Cons r rs)
  have "tl (remdups_adj (x # y # ys)) = (if x = y then tl (remdups_adj (y # ys)) else remdups_adj (y # ys))" for x y :: nat and ys
    by simp
  moreover have "remdups_adj (y # ys) = y # tl (remdups_adj (y # ys))" for y :: nat and ys
    by (cases "remdups_adj (y # ys)") (auto dest: arg_cong [of _ _ hd])
  ultimately show ?case
    using Cons by (cases "client_id r = c"; cases "ids (client_id r) = request_id r") (simp_all add: ids_of_def)
qed (simp add: ids_of_def)

lemma count_ids: "length (filter (\<lambda>r. client_id r = c \<and> request_id r = i) rs) = length (filter (\<lambda>j. j = i) (ids_of c rs))"
  by (induction rs) (auto simp: ids_of_def)

lemma executed_once:
  assumes "distinct (remdups_adj (0 # ids_of c rs))" and "i \<in> set (ids_of c rs)"
  shows "length (filter (\<lambda>r. client_id r = c \<and> request_id r = i) (effective (\<lambda>_. 0) rs)) = 1 \<longleftrightarrow> i \<noteq> 0"
proof -
  have once: "length (filter (\<lambda>j. j = i) xs) = (if i \<in> set xs then 1 else 0)" if "distinct xs" for xs :: "nat list"
    using that by (induction xs) auto
  obtain xs where xs: "remdups_adj (0 # ids_of c rs) = 0 # xs"
    by (cases "remdups_adj (0 # ids_of c rs)") (auto dest: arg_cong [of _ _ hd])
  with assms(1) have "distinct xs" "0 \<notin> set xs" by auto
  moreover have "set (0 # xs) = insert 0 (set (ids_of c rs))" using remdups_adj_set [of "0 # ids_of c rs"] xs by simp
  ultimately have "i \<in> set xs \<longleftrightarrow> i \<noteq> 0" using assms(2) by (metis insert_iff list.set(2))
  with once [OF \<open>distinct xs\<close>] show ?thesis by (simp add: count_ids ids_of_effective xs)
qed

text \<open>
  C14. Retries are executed once: when the log has, client by client, the copies of a request before the client's next request, and no request has the identifier 0,
  the user's state machine runs every request of the log exactly once, in the order of their first copies.\<close>

theorem requests_executed_once:
  assumes "\<And>c. distinct (remdups_adj (0 # ids_of c rs))" and "\<And>c. 0 \<notin> set (ids_of c rs)"
  shows "state_machine (Apply_all f any0 rs (ExactlyOnce_new s)) = fold (\<lambda>r s. fst (f s (command r))) (effective (\<lambda>_. 0) rs) s \<and>
    (\<forall>r \<in> set rs. length (filter (\<lambda>r'. client_id r' = client_id r \<and> request_id r' = request_id r) (effective (\<lambda>_. 0) rs)) = 1)"
proof -
  have "last_ids (ExactlyOnce_new s :: ('b, 'a) ExactlyOnce) = (\<lambda>_. 0)" by (rule ext) (simp add: last_ids_def ExactlyOnce_new_def)
  then have "state_machine (Apply_all f any0 rs (ExactlyOnce_new s)) = fold (\<lambda>r s. fst (f s (command r))) (effective (\<lambda>_. 0) rs) s"
    by (simp add: Apply_all_effective) (simp add: ExactlyOnce_new_def)
  moreover have "length (filter (\<lambda>r'. client_id r' = client_id r \<and> request_id r' = request_id r) (effective (\<lambda>_. 0) rs)) = 1" if "r \<in> set rs" for r
  proof -
    from that have i: "request_id r \<in> set (ids_of (client_id r) rs)" by (auto simp: ids_of_def)
    moreover from i assms(2) have "request_id r \<noteq> 0" by metis
    ultimately show ?thesis using executed_once [OF assms(1)] by blast
  qed
  ultimately show ?thesis by blast
qed

definition req :: "nat \<Rightarrow> nat \<Rightarrow> nat \<Rightarrow> nat Request" where
  "req c i x = \<lparr>request_id = i, client_id = c, command = x\<rparr>"

definition log_command :: "nat list \<Rightarrow> nat \<Rightarrow> nat list \<times> nat" where
  "log_command l x = (l @ [x], x)"

theorem requests_executed_once_witness:
  "state_machine (Apply_all log_command 0 [req 1 5 10, req 2 5 20, req 1 5 10, req 1 6 11] (ExactlyOnce_new [])) = [10, 20, 11]"
proof -
  let ?rs = "[req 1 5 10, req 2 5 20, req 1 5 10, req 1 6 11]"
  have "distinct (remdups_adj (0 # ids_of c ?rs))" "0 \<notin> set (ids_of c ?rs)" for c by (auto simp: ids_of_def req_def)
  from requests_executed_once [OF this, of log_command 0 "[]"] show ?thesis by (simp add: req_def log_command_def)
qed

text \<open>The wrapper knows of a client only the identifier of its latest request.\<close>

lemma last_ids_Apply_all: "last_ids (Apply_all f any0 rs m) c = last (last_ids m c # ids_of c rs)"
  by (induction rs arbitrary: m) (simp_all add: Apply_last_ids ids_of_def)

lemma last_ids_new: "last_ids (ExactlyOnce_new s) = (\<lambda>_. 0)"
  by (rule ext) (simp add: last_ids_def ExactlyOnce_new_def)

lemma first_copy_executed:
  assumes "r \<in> set rs" and "request_id r \<noteq> 0"
  shows "request_id r \<in> set (ids_of (client_id r) (effective (\<lambda>_. 0) rs))"
proof -
  let ?ids = "ids_of (client_id r) rs"
  obtain xs where xs: "remdups_adj (0 # ?ids) = 0 # xs"
    by (cases "remdups_adj (0 # ?ids)") (auto dest: arg_cong [of _ _ hd])
  have "request_id r \<in> set (remdups_adj (0 # ?ids))" using assms(1) by (auto simp: ids_of_def)
  then show ?thesis using assms(2) by (simp add: ids_of_effective xs)
qed

text \<open>
  C15. The wrapper remembers only the last request of a client: for every state machine and every log, a copy of a request that comes after
  another request of the same client runs the state machine again on its command, so the request has been executed at least twice.\<close>

theorem late_copy_executed_again:
  assumes "r \<in> set rs" and "request_id r \<noteq> 0" and "last (ids_of (client_id r) rs) \<noteq> request_id r"
  shows "state_machine (Apply_all f any0 (rs @ [r]) (ExactlyOnce_new s)) =
      fst (f (state_machine (Apply_all f any0 rs (ExactlyOnce_new s))) (command r)) \<and>
    state_machine (Apply_all f any0 (rs @ [r]) (ExactlyOnce_new s)) = fold (\<lambda>r s. fst (f s (command r))) (effective (\<lambda>_. 0) (rs @ [r])) s \<and>
    2 \<le> length (filter (\<lambda>r'. client_id r' = client_id r \<and> request_id r' = request_id r) (effective (\<lambda>_. 0) (rs @ [r])))"
proof -
  let ?i = "request_id r" and ?c = "client_id r"
  have "ids_of ?c rs \<noteq> []" using assms(1) by (auto simp: ids_of_def filter_empty_conv)
  then have last: "last (0 # ids_of ?c rs) \<noteq> ?i" using assms(3) by simp
  then have again: "state_machine (Apply_all f any0 (rs @ [r]) (ExactlyOnce_new s)) =
      fst (f (state_machine (Apply_all f any0 rs (ExactlyOnce_new s))) (command r))"
    by (simp add: Apply_all_append Apply_machine last_ids_Apply_all last_ids_new)
  have eff: "effective ids (rs @ [r]) = effective ids rs @ [r]" if "last (ids ?c # ids_of ?c rs) \<noteq> ?i" for ids
    using that by (induction rs arbitrary: ids) (auto simp: ids_of_def split: if_splits)
  have "effective (\<lambda>_. 0) (rs @ [r]) = effective (\<lambda>_. 0) rs @ [r]" by (rule eff) (rule last)
  moreover have "filter (\<lambda>r'. client_id r' = ?c \<and> request_id r' = ?i) (effective (\<lambda>_. 0) rs) \<noteq> []"
    using first_copy_executed [OF assms(1,2)] by (auto simp: ids_of_def filter_empty_conv)
  ultimately have "2 \<le> length (filter (\<lambda>r'. client_id r' = ?c \<and> request_id r' = ?i) (effective (\<lambda>_. 0) (rs @ [r])))"
    by (simp add: Suc_le_eq)
  moreover have "state_machine (Apply_all f any0 (rs @ [r]) (ExactlyOnce_new s)) =
      fold (\<lambda>r s. fst (f s (command r))) (effective (\<lambda>_. 0) (rs @ [r])) s"
    unfolding Apply_all_effective last_ids_new by (simp add: ExactlyOnce_new_def)
  ultimately show ?thesis using again by blast
qed

theorem late_copy_executed_again_witness:
  "state_machine (Apply_all log_command 0 ([req 1 5 10, req 1 6 11] @ [req 1 5 10]) (ExactlyOnce_new [])) = [10, 11, 10]"
proof -
  let ?rs = "[req 1 5 10, req 1 6 11]"
  have late: "req 1 5 10 \<in> set ?rs" "request_id (req 1 5 10) \<noteq> 0" "last (ids_of (client_id (req 1 5 10)) ?rs) \<noteq> request_id (req 1 5 10)"
    by (simp_all add: ids_of_def req_def)
  note conjunct1 [OF conjunct2 [OF late_copy_executed_again [OF late, of log_command 0 "[]"]]]
  also have "fold (\<lambda>r s. fst (log_command s (command r))) (effective (\<lambda>_. 0) (?rs @ [req 1 5 10])) [] = [10, 11, 10]"
    by (simp add: req_def log_command_def)
  finally show ?thesis .
qed

end
