(* ===== verification/Raft_Client.thy ===== *)
theory Raft_Client
  imports Raft_Node Rpc_Errors Utilities
begin

text \<open>
  The client of a Raft cluster (\<^verbatim>\<open>src/raft/client/client.cpp\<close>, \<^verbatim>\<open>client.h\<close>) and the packing of messages
  (\<^verbatim>\<open>src/runtime/util/proto/conversion.h\<close>).

  What happens outside the client is a parameter, one \<open>attempt\<close> for every attempt: what a node answers to a request, whether the
  timer of the attempt had fired when the answer arrived, and which of the two interruptions of \<^verbatim>\<open>Apply\<close>, its stop callback and its global
  timer, ran while the call or the sleep after it was suspended. The generator of random numbers and the multiplication of a duration are parameters as in theory
  Utilities. The field \<open>sent\<close> keeps the requests in the order they were sent.

  Shown here: \<^verbatim>\<open>Apply\<close> ends after at most one attempt more than the retries allowed, every attempt carries the same
  request and the nodes are tried in turn; a value it returns is the answer of a leader; and a cluster with one answering leader is found.
\<close>

section \<open>Packing\<close>

definition ToAny :: "('t \<Rightarrow> 'a option) \<Rightarrow> 't \<Rightarrow> ('a, string) Result" where
  "ToAny PackFrom proto = (case PackFrom proto of None \<Rightarrow> Err ''cannot convert protobuf to any'' | Some any \<Rightarrow> Ok any)"

definition FromAny :: "('a \<Rightarrow> 't option) \<Rightarrow> 'a \<Rightarrow> ('t, string) Result" where
  "FromAny UnpackTo any = (case UnpackTo any of None \<Rightarrow> Err ''cannot parse protobuf from any'' | Some proto \<Rightarrow> Ok proto)"

section \<open>Errors and state\<close>

datatype RaftClientErrorType = GlobalTimeout | RpcTimeout | NotLeader

datatype RaftClientError = ClientError RaftClientErrorType | RpcFailure RpcError

definition RaftClientError_Message :: "RaftClientError \<Rightarrow> string" where
  "RaftClientError_Message e =
     (case e of
        RpcFailure error \<Rightarrow> RpcError_Message error
      | ClientError GlobalTimeout \<Rightarrow> ''GlobalTimeout''
      | ClientError RpcTimeout \<Rightarrow> ''RpcTimeout''
      | ClientError NotLeader \<Rightarrow> ''NotLeader'')"

record 'f client_config =
  global_timeout :: Duration
  rpc_timeout :: Duration
  retry_count :: nat
  backoff_params :: "'f BackoffParams"

datatype RequestState = RequestRunning | RequestCancelled | RequestGlobalTimeout | RequestFinished

record RaftClient =
  raft_nodes :: "Endpoint list"
  clients :: "Endpoint list"
  current_leader :: nat
  own_client_id :: nat

definition RaftClient_new :: "nat \<Rightarrow> Endpoint list \<Rightarrow> RaftClient" where
  "RaftClient_new random_id nodes = \<lparr>raft_nodes = nodes, clients = fold (\<lambda>ep cs. cs @ [ep]) nodes [], current_leader = 0, own_client_id = random_id\<rparr>"

section \<open>One attempt\<close>

datatype interruption = StopCalled | GlobalTimerFired

record 'a attempt =
  answer :: "Endpoint \<Rightarrow> 'a Request \<Rightarrow> ('a Response, RpcError) Result"
  rpc_timed_out :: bool
  during_call :: "interruption list"
  during_sleep :: "interruption list"

text \<open>The variables of a call of \<^verbatim>\<open>Apply\<close>, with the client it runs on.\<close>

record ('a, 'f, 'g) call = RaftClient +
  request_state :: RequestState
  stop_requested :: bool
  call_backoff :: "'f Backoff"
  generator :: 'g
  sent :: "(Endpoint \<times> 'a Request) list"

definition interrupt :: "interruption \<Rightarrow> ('a, 'f, 'g) call \<Rightarrow> ('a, 'f, 'g) call" where
  "interrupt i c =
     (if request_state c = RequestRunning
      then c\<lparr>request_state := (case i of StopCalled \<Rightarrow> RequestCancelled | GlobalTimerFired \<Rightarrow> RequestGlobalTimeout), stop_requested := True\<rparr>
      else c)"

definition StartAttempt :: "'a attempt \<Rightarrow> 'a Request \<Rightarrow> (('a, 'f, 'g) call, ('a, RaftClientError) Result) exec" where
  "StartAttempt att request =
     bind (gets (\<lambda>c. (clients c, current_leader c))) (\<lambda>(cs, leader).
     bind (at cs leader) (\<lambda>client.
     bind (modify (\<lambda>c. c\<lparr>sent := sent c @ [(client, request)]\<rparr>)) (\<lambda>_.
     bind (modify (fold interrupt (during_call att))) (\<lambda>_.
     ret (AndThen
           (TransformError (answer att client request)
             (\<lambda>error. if rpc_timed_out att then ClientError RpcTimeout else RpcFailure error))
           (\<lambda>response. if response_status response = NotALeader then Err (ClientError NotLeader)
                       else Ok (response_result response)))))))"

definition next_attempt ::
  "(int \<Rightarrow> int \<Rightarrow> 'g \<Rightarrow> int \<times> 'g) \<Rightarrow> (int \<Rightarrow> 'f \<Rightarrow> int) \<Rightarrow> 'a attempt \<Rightarrow> 'a Request \<Rightarrow>
   (('a, 'f, 'g) call, ('a, RaftClientError) Result) exec" where
  "next_attempt uniform_int mult att request =
     bind (StartAttempt att request) (\<lambda>result.
     if HasError result
     then bind (modify (\<lambda>c. c\<lparr>current_leader := u64_add (current_leader c) 1 mod length (clients c)\<rparr>)) (\<lambda>_.
          bind (modify (\<lambda>c. let (sleep_time, b, gen) = Backoff_Next uniform_int mult (call_backoff c) (generator c)
                            in c\<lparr>call_backoff := b, generator := gen\<rparr>)) (\<lambda>_.
          bind (modify (fold interrupt (during_sleep att))) (\<lambda>_.
          ret result)))
     else ret result)"

section \<open>Applying a command\<close>

text \<open>The loop over the attempts. \<^verbatim>\<open>None\<close> would be a loop that does not end.\<close>

partial_function (option) attempts ::
  "(int \<Rightarrow> int \<Rightarrow> 'g \<Rightarrow> int \<times> 'g) \<Rightarrow> (int \<Rightarrow> 'f \<Rightarrow> int) \<Rightarrow> (nat \<Rightarrow> 'a attempt) \<Rightarrow> nat \<Rightarrow> 'a Request \<Rightarrow>
   nat \<Rightarrow> ('a, 'f, 'g) call \<Rightarrow> ((('a, RaftClientError) Result, panic) Result \<times> ('a, 'f, 'g) call) option" where
  "attempts uniform_int mult env retries request attempt_id c =
     (case next_attempt uniform_int mult (env (length (sent c))) request c of
        (Err p, c) \<Rightarrow> Some (Err p, c)
      | (Ok result, c) \<Rightarrow>
          if u64_inc attempt_id \<le> retries \<and> \<not> stop_requested c \<and> HasError result
          then attempts uniform_int mult env retries request (u64_inc attempt_id) c
          else Some (Ok result, c))"

definition final_result :: "RequestState \<Rightarrow> ('a, RaftClientError) Result \<Rightarrow> ('a, RaftClientError) Result" where
  "final_result st result =
     (case st of
        RequestCancelled \<Rightarrow> Err (RpcFailure (mk_RpcError Cancelled []))
      | RequestGlobalTimeout \<Rightarrow> Err (ClientError GlobalTimeout)
      | _ \<Rightarrow> result)"

text \<open>What the deferred block does: the request is finished unless it was interrupted.\<close>

definition finish :: "('a, 'f, 'g) call \<Rightarrow> ('a, 'f, 'g) call" where
  "finish c = (if request_state c = RequestRunning then c\<lparr>request_state := RequestFinished, stop_requested := True\<rparr> else c)"

definition start_call :: "'f client_config \<Rightarrow> 'g \<Rightarrow> RaftClient \<Rightarrow> ('a, 'f, 'g) call" where
  "start_call config gen client =
     RaftClient.extend client
       \<lparr>request_state = RequestRunning, stop_requested = False, call_backoff = mk_Backoff (backoff_params config),
        generator = gen, sent = []\<rparr>"

text \<open>\<open>before\<close> are the interruptions up to the first attempt: a token that was stopped already runs the stop callback at once.\<close>

definition RaftClient_Apply ::
  "(int \<Rightarrow> int \<Rightarrow> 'g \<Rightarrow> int \<times> 'g) \<Rightarrow> (int \<Rightarrow> 'f \<Rightarrow> int) \<Rightarrow> interruption list \<Rightarrow> (nat \<Rightarrow> 'a attempt) \<Rightarrow>
   'f client_config \<Rightarrow> nat \<Rightarrow> 'g \<Rightarrow> 'a \<Rightarrow> RaftClient \<Rightarrow> ((('a, RaftClientError) Result, panic) Result \<times> ('a, 'f, 'g) call) option" where
  "RaftClient_Apply uniform_int mult before env config random_id gen cmd client =
     (let c = start_call config gen client;
          request = \<lparr>request_id = random_id, client_id = own_client_id client, command = cmd\<rparr>
      in if \<not> 0 < rpc_timeout config then Some (Err (VerifyFailed ''invalid rpc_timeout''), c)
         else if \<not> 0 < global_timeout config then Some (Err (VerifyFailed ''invalid global_timeout''), c)
         else map_option (\<lambda>(result, c). (Transform result (final_result (request_state c)), finish c))
                (attempts uniform_int mult env (retry_count config) request 0 (fold interrupt before c)))"

text \<open>The typed call, around the untyped one.\<close>

definition RaftClient_Apply_typed ::
  "('in \<Rightarrow> 'a option) \<Rightarrow> ('a \<Rightarrow> 'out option) \<Rightarrow> ('a \<Rightarrow> ('a, RaftClientError) Result) \<Rightarrow> 'in \<Rightarrow> ('out, RaftClientError) Result" where
  "RaftClient_Apply_typed PackFrom UnpackTo untyped cmd =
     AndThen (AndThen
       (TransformError (ToAny PackFrom cmd) (\<lambda>error. RpcFailure (mk_RpcError ParseError error)))
       untyped)
       (\<lambda>any_response. TransformError (FromAny UnpackTo any_response) (\<lambda>error. RpcFailure (mk_RpcError ParseError error)))"

section \<open>What an attempt does\<close>

definition attempt_result :: "'a attempt \<Rightarrow> Endpoint \<Rightarrow> 'a Request \<Rightarrow> ('a, RaftClientError) Result" where
  "attempt_result att node request =
     (case answer att node request of
        Err error \<Rightarrow> Err (if rpc_timed_out att then ClientError RpcTimeout else RpcFailure error)
      | Ok response \<Rightarrow> if response_status response = NotALeader then Err (ClientError NotLeader) else Ok (response_result response))"

text \<open>The node of the \<open>i\<close>-th attempt from here on.\<close>

definition turn :: "('a, 'f, 'g) call \<Rightarrow> nat \<Rightarrow> Endpoint" where
  "turn c i = clients c ! ((current_leader c + i) mod length (clients c))"

definition client_ok :: "('a, 'f, 'g) call \<Rightarrow> bool" where
  "client_ok c \<longleftrightarrow> current_leader c < length (clients c) \<and> length (clients c) \<le> u64_max"

lemma interrupt_keeps:
  "clients (interrupt i c) = clients c" "current_leader (interrupt i c) = current_leader c" "sent (interrupt i c) = sent c"
  by (simp_all add: interrupt_def)

lemma interrupts_keep [simp]:
  "clients (fold interrupt is c) = clients c" "current_leader (fold interrupt is c) = current_leader c" "sent (fold interrupt is c) = sent c"
  by (induction "is" arbitrary: c) (simp_all add: interrupt_keeps)

lemma StartAttempt_result:
  assumes "current_leader c < length (clients c)"
  shows "StartAttempt att request c =
    (Ok (attempt_result att (turn c 0) request), fold interrupt (during_call att) (c\<lparr>sent := sent c @ [(turn c 0, request)]\<rparr>))"
  using assms by (simp add: StartAttempt_def attempt_result_def turn_def exec_simps split: Result.split)

lemma next_attempt_result:
  assumes "client_ok c" and result: "result = attempt_result att (turn c 0) request"
  shows "\<exists>c'. next_attempt uniform_int mult att request c = (Ok result, c') \<and> client_ok c' \<and>
    clients c' = clients c \<and> sent c' = sent c @ [(turn c 0, request)] \<and> (HasError result \<longrightarrow> (\<forall>i. turn c' i = turn c (Suc i))) \<and>
    (during_call att = [] \<longrightarrow> during_sleep att = [] \<longrightarrow> request_state c' = request_state c \<and> stop_requested c' = stop_requested c)"
proof -
  let ?c = "fold interrupt (during_call att) (c\<lparr>sent := sent c @ [(turn c 0, request)]\<rparr>)"
  have start: "StartAttempt att request c = (Ok result, ?c)" using assms by (simp add: StartAttempt_result client_ok_def)
  show ?thesis
  proof (cases "HasError result")
    case True
    obtain t b gen where b: "Backoff_Next uniform_int mult (call_backoff ?c) (generator ?c) = (t, b, gen)" by (metis prod_cases3)
    from assms(1) have "u64_add (current_leader c) 1 mod length (clients c) = Suc (current_leader c) mod length (clients c)"
      "0 < length (clients c)" by (auto simp: client_ok_def u64_add_exact)
    moreover have "(Suc l mod n + i) mod n = (l + Suc i) mod n" for l n i :: nat by (simp add: mod_add_left_eq)
    ultimately show ?thesis
      using assms(1) True b by (simp add: next_attempt_def start exec_simps client_ok_def turn_def)
  next
    case False
    with assms(1) show ?thesis by (simp add: next_attempt_def start exec_simps client_ok_def)
  qed
qed

section \<open>What the loop does\<close>

text \<open>\<open>k\<close> attempts were made, all but the last without success.\<close>

definition made :: "(nat \<Rightarrow> 'a attempt) \<Rightarrow> 'a Request \<Rightarrow> nat \<Rightarrow> ('a, 'f, 'g) call \<Rightarrow> ('a, 'f, 'g) call \<Rightarrow> ('a, RaftClientError) Result \<Rightarrow> bool" where
  "made env request k c c' result \<longleftrightarrow> 0 < k \<and> clients c' = clients c \<and>
     sent c' = sent c @ map (\<lambda>i. (turn c i, request)) [0..<k] \<and>
     (\<forall>i < k - 1. HasError (attempt_result (env (length (sent c) + i)) (turn c i) request)) \<and>
     result = attempt_result (env (length (sent c) + (k - 1))) (turn c (k - 1)) request"

definition uninterrupted :: "(nat \<Rightarrow> 'a attempt) \<Rightarrow> bool" where
  "uninterrupted env \<longleftrightarrow> (\<forall>i. during_call (env i) = [] \<and> during_sleep (env i) = [])"

lemma made_one:
  assumes "clients c' = clients c" and "sent c' = sent c @ [(turn c 0, request)]"
  shows "made env request (Suc 0) c c' (attempt_result (env (length (sent c))) (turn c 0) request)"
  using assms by (simp add: made_def)

lemma made_Suc:
  assumes "clients c' = clients c" and "sent c' = sent c @ [(turn c 0, request)]" and "\<forall>i. turn c' i = turn c (Suc i)"
    and "HasError (attempt_result (env (length (sent c))) (turn c 0) request)" and "made env request k c' c'' result"
  shows "made env request (Suc k) c c'' result"
proof -
  have "map (\<lambda>i. (turn c i, request)) [0..<Suc k] = (turn c 0, request) # map (\<lambda>i. (turn c (Suc i), request)) [0..<k]"
    by (simp add: upt_conv_Cons map_Suc_upt [symmetric] del: upt_Suc)
  moreover have "HasError (attempt_result (env (length (sent c) + i)) (turn c i) request)" if "i < k" for i
    using assms that by (cases i) (auto simp: made_def)
  moreover from assms(5) obtain k' where "k = Suc k'" by (cases k) (auto simp: made_def)
  ultimately show ?thesis using assms by (simp add: made_def del: upt_Suc)
qed

lemma attempts_made:
  assumes "client_ok c" and "attempt_id \<le> retries" and "retries < u64_max"
  shows "\<exists>k result c'. attempts uniform_int mult env retries request attempt_id c = Some (Ok result, c') \<and>
    made env request k c c' result \<and> attempt_id + k \<le> Suc retries \<and>
    (HasError result \<and> \<not> stop_requested c' \<longrightarrow> attempt_id + k = Suc retries) \<and>
    (uninterrupted env \<longrightarrow> request_state c' = request_state c \<and> stop_requested c' = stop_requested c)"
  using assms
proof (induction "retries - attempt_id" arbitrary: attempt_id c)
  case (0 attempt_id c)
  note once = next_attempt_result [OF "0.prems"(1) refl, of uniform_int mult "env (length (sent c))" request]
  from 0 have "attempt_id = retries" "\<not> u64_inc attempt_id \<le> retries" by (simp_all add: u64_inc_exact)
  with once show ?case
    by (subst attempts.simps) (auto simp: uninterrupted_def intro!: exI [of _ "Suc 0"] made_one)
next
  case (Suc d attempt_id c)
  let ?result = "attempt_result (env (length (sent c))) (turn c 0) request"
  from next_attempt_result [OF Suc.prems(1) refl, of uniform_int mult "env (length (sent c))" request]
  obtain c1 where c1: "next_attempt uniform_int mult (env (length (sent c))) request c = (Ok ?result, c1)" "client_ok c1"
      "clients c1 = clients c" "sent c1 = sent c @ [(turn c 0, request)]" "HasError ?result \<Longrightarrow> \<forall>i. turn c1 i = turn c (Suc i)"
      "uninterrupted env \<Longrightarrow> request_state c1 = request_state c \<and> stop_requested c1 = stop_requested c"
    by (auto simp: uninterrupted_def)
  have inc: "u64_inc attempt_id = Suc attempt_id" "Suc attempt_id \<le> retries" using Suc.hyps(2) Suc.prems by (simp_all add: u64_inc_exact)
  show ?case
  proof (cases "\<not> stop_requested c1 \<and> HasError ?result")
    case True
    have "d = retries - Suc attempt_id" using Suc.hyps(2) by simp
    from Suc.hyps(1) [OF this c1(2) inc(2) Suc.prems(3)]
    obtain k result c' where k: "attempts uniform_int mult env retries request (Suc attempt_id) c1 = Some (Ok result, c')"
        "made env request k c1 c' result" "Suc attempt_id + k \<le> Suc retries" "HasError result \<and> \<not> stop_requested c' \<longrightarrow> Suc attempt_id + k = Suc retries"
        "uninterrupted env \<Longrightarrow> request_state c' = request_state c1 \<and> stop_requested c' = stop_requested c1"
      by auto
    have "made env request (Suc k) c c' result" using made_Suc [OF c1(3,4) c1(5) _ k(2)] True by blast
    with k c1 inc True show ?thesis by (subst attempts.simps) (auto intro!: exI [of _ "Suc k"])
  next
    case False
    with c1 inc show ?thesis
      by (subst attempts.simps) (auto intro!: exI [of _ "Suc 0"] made_one)
  qed
qed

section \<open>What the client guarantees\<close>

definition valid_config :: "'f client_config \<Rightarrow> bool" where
  "valid_config config \<longleftrightarrow> 0 < rpc_timeout config \<and> 0 < global_timeout config \<and> retry_count config < u64_max"

definition valid_client :: "RaftClient \<Rightarrow> bool" where
  "valid_client client \<longleftrightarrow> current_leader client < length (clients client) \<and> length (clients client) \<le> u64_max"

definition the_request :: "RaftClient \<Rightarrow> nat \<Rightarrow> 'a \<Rightarrow> 'a Request" where
  "the_request client random_id cmd = \<lparr>request_id = random_id, client_id = own_client_id client, command = cmd\<rparr>"

lemma start_call_simps [simp]:
  "clients (start_call config gen client) = clients client" "current_leader (start_call config gen client) = current_leader client"
  "sent (start_call config gen client) = []" "request_state (start_call config gen client) = RequestRunning"
  "stop_requested (start_call config gen client) = False"
  by (simp_all add: start_call_def RaftClient.defs)

lemma finish_simps [simp]: "sent (finish c) = sent c" "clients (finish c) = clients c"
  by (simp_all add: finish_def)

text \<open>The calls of \<^verbatim>\<open>Apply\<close> in terms of the attempts made.\<close>

lemma Apply_made:
  assumes "valid_config config" and "valid_client client"
    and c: "c = fold interrupt before (start_call config gen client)"
  shows "\<exists>k result c'. RaftClient_Apply uniform_int mult before env config random_id gen cmd client =
      Some (Ok (final_result (request_state c') result), finish c') \<and>
    made env (the_request client random_id cmd) k c c' result \<and> k \<le> Suc (retry_count config) \<and>
    (HasError result \<and> \<not> stop_requested c' \<longrightarrow> k = Suc (retry_count config)) \<and>
    (uninterrupted env \<longrightarrow> request_state c' = request_state c \<and> stop_requested c' = stop_requested c)"
proof -
  have "client_ok c" using assms(2) by (simp add: c client_ok_def valid_client_def)
  from attempts_made [OF this, of 0 "retry_count config" uniform_int mult env "the_request client random_id cmd"] assms(1)
  obtain k result c' where
    k: "attempts uniform_int mult env (retry_count config) (the_request client random_id cmd) 0 c = Some (Ok result, c')"
      "made env (the_request client random_id cmd) k c c' result" "k \<le> Suc (retry_count config)"
      "HasError result \<and> \<not> stop_requested c' \<longrightarrow> k = Suc (retry_count config)"
      "uninterrupted env \<longrightarrow> request_state c' = request_state c \<and> stop_requested c' = stop_requested c"
    by (auto simp: valid_config_def)
  moreover from k(1) assms(1) have "RaftClient_Apply uniform_int mult before env config random_id gen cmd client =
      Some (Ok (final_result (request_state c') result), finish c')"
    by (simp add: RaftClient_Apply_def valid_config_def the_request_def c Let_def)
  ultimately show ?thesis by blast
qed

text \<open>
  C16. A call of \<^verbatim>\<open>Apply\<close> returns, whatever the nodes answer and whenever it is interrupted, after at most one attempt more than the retries
  allowed. Every attempt sends the same request, with the same identifiers, and the attempts go round the nodes from the one that was believed to be the leader.\<close>

theorem Apply_attempts:
  assumes "valid_config config" and "valid_client client"
  shows "\<exists>result c k. RaftClient_Apply uniform_int mult before env config random_id gen cmd client = Some (Ok result, c) \<and>
    0 < k \<and> k \<le> Suc (retry_count config) \<and>
    sent c = map (\<lambda>i. (clients client ! ((current_leader client + i) mod length (clients client)), the_request client random_id cmd)) [0..<k]"
proof -
  from Apply_made [OF assms refl, of uniform_int mult before env random_id gen cmd] obtain k result c' where
    "RaftClient_Apply uniform_int mult before env config random_id gen cmd client = Some (Ok (final_result (request_state c') result), finish c')"
    "made env (the_request client random_id cmd) k (fold interrupt before (start_call config gen client)) c' result" "k \<le> Suc (retry_count config)"
    by blast
  then show ?thesis by (auto simp: made_def turn_def)
qed

text \<open>
  C17. A value that \<^verbatim>\<open>Apply\<close> returns is the answer of a leader: the last node that was asked committed the request and answered with that value.\<close>

theorem Apply_value_committed:
  assumes "valid_config config" and "valid_client client"
    and "RaftClient_Apply uniform_int mult before env config random_id gen cmd client = Some (Ok (Ok v), c)"
  shows "\<exists>node response. last (sent c) = (node, the_request client random_id cmd) \<and>
    answer (env (length (sent c) - 1)) node (the_request client random_id cmd) = Ok response \<and>
    response_status response = Commited \<and> response_result response = v"
proof -
  let ?c = "fold interrupt before (start_call config gen client)" and ?request = "the_request client random_id cmd"
  from Apply_made [OF assms(1,2) refl, of uniform_int mult before env random_id gen cmd] obtain k result c' where
    r: "RaftClient_Apply uniform_int mult before env config random_id gen cmd client = Some (Ok (final_result (request_state c') result), finish c')" and
    made: "made env ?request k ?c c' result"
    by blast
  from r assms(3) have c: "c = finish c'" "final_result (request_state c') result = Ok v" by simp_all
  from c(2) have "result = Ok v" by (simp add: final_result_def split: RequestState.splits)
  moreover from made have "\<exists>node. last (sent c) = (node, ?request) \<and> result = attempt_result (env (length (sent c) - 1)) node ?request"
    by (auto simp: made_def c(1) last_map)
  ultimately obtain node where node: "last (sent c) = (node, ?request)" and ok: "attempt_result (env (length (sent c) - 1)) node ?request = Ok v"
    by auto
  from ok have "\<exists>response. answer (env (length (sent c) - 1)) node ?request = Ok response \<and> response_status response = Commited \<and> response_result response = v"
    by (auto simp: attempt_result_def split: Result.splits if_splits intro: Response_Status.exhaust)
  with node show ?thesis by blast
qed

text \<open>
  C18. The leader is found: when some node of the client commits every request it is sent, nothing interrupts the call, and as many
  attempts are allowed as there are nodes, then \<^verbatim>\<open>Apply\<close> returns a value, whatever the other nodes do.\<close>

theorem Apply_finds_leader:
  assumes "valid_config config" and "valid_client client" and "uninterrupted env" and "length (clients client) \<le> Suc (retry_count config)"
    and "leader \<in> set (clients client)"
    and "\<And>i. \<exists>v. answer (env i) leader (the_request client random_id cmd) = Ok \<lparr>response_status = Commited, response_result = v\<rparr>"
  shows "\<exists>v c. RaftClient_Apply uniform_int mult [] env config random_id gen cmd client = Some (Ok (Ok v), c)"
proof -
  let ?c = "start_call config gen client" and ?n = "length (clients client)" and ?request = "the_request client random_id cmd"
  from assms(5) obtain j where j: "j < ?n" "clients client ! j = leader" by (auto simp: in_set_conv_nth)
  define i where "i = (j + ?n - current_leader client) mod ?n"
  have "(current_leader client + i) mod ?n = j"
    using j assms(2) by (simp add: i_def valid_client_def mod_add_right_eq)
  then have turn: "clients client ! ((current_leader client + i) mod ?n) = leader" using j by simp
  have i: "i < ?n" unfolding i_def by (rule mod_less_divisor) (use j in linarith)
  have ok: "\<not> HasError (attempt_result (env m) leader ?request)" for m
    using assms(6) [of m] by (auto simp: attempt_result_def HasError_def)
  from Apply_made [OF assms(1,2) refl, of uniform_int mult "[]" env random_id gen cmd] obtain k result c' where
    r: "RaftClient_Apply uniform_int mult [] env config random_id gen cmd client = Some (Ok (final_result (request_state c') result), finish c')" and
    made: "made env ?request k ?c c' result" and k: "HasError result \<and> \<not> stop_requested c' \<longrightarrow> k = Suc (retry_count config)" and
    run: "uninterrupted env \<longrightarrow> request_state c' = RequestRunning \<and> stop_requested c' = False"
    by (simp only: fold.simps id_apply start_call_simps) blast
  have "\<not> HasError result"
  proof
    assume err: "HasError result"
    with k i run assms(3,4) have "i \<le> k - 1" by simp
    with made err turn have "HasError (attempt_result (env i) leader ?request)"
      by (cases "i = k - 1") (auto simp: made_def turn_def)
    with ok show False by simp
  qed
  then obtain v where "result = Ok v" by (cases result) (auto simp: HasError_def)
  with r run assms(3) show ?thesis by (simp add: final_result_def)
qed

text \<open>A cluster of three nodes in which the last one is the leader.\<close>

definition three_endpoints :: "Endpoint list" where
  "three_endpoints = [\<lparr>address = ''a'', port = 1\<rparr>, \<lparr>address = ''b'', port = 1\<rparr>, \<lparr>address = ''c'', port = 1\<rparr>]"

definition leader_is_last :: "nat \<Rightarrow> nat attempt" where
  "leader_is_last i = \<lparr>answer = (\<lambda>node request. if address node = ''a'' then Err (mk_RpcError NetworkError [])
       else Ok \<lparr>response_status = (if address node = ''c'' then Commited else NotALeader), response_result = command request\<rparr>),
     rpc_timed_out = False, during_call = [], during_sleep = []\<rparr>"

definition two_retries :: "nat client_config" where
  "two_retries = \<lparr>global_timeout = 100, rpc_timeout = 10, retry_count = 2, backoff_params = \<lparr>initial = 1, max_wait = 8, factor = 2\<rparr>\<rparr>"

abbreviation example_call :: "((nat, RaftClientError) Result, panic) Result \<times> (nat, nat, unit) call \<Rightarrow> bool" where
  "example_call r \<equiv> RaftClient_Apply (\<lambda>l u g. (u, g)) (\<lambda>d f. d * int f) [] leader_is_last two_retries 5 () 42 (RaftClient_new 7 three_endpoints) = Some r"

lemma example_valid:
  "valid_config two_retries" "valid_client (RaftClient_new 7 three_endpoints)" "uninterrupted leader_is_last"
  by (simp_all add: valid_config_def two_retries_def valid_client_def RaftClient_new_def three_endpoints_def uninterrupted_def leader_is_last_def u64_max_def)

theorem Apply_attempts_witness: "\<exists>result c. example_call (Ok result, c) \<and> length (sent c) \<le> 3"
  using Apply_attempts [OF example_valid(1,2), of "\<lambda>l u g. (u, g)" "\<lambda>d f. d * int f" "[]" leader_is_last 5 "()" 42]
  by (auto simp: two_retries_def)

theorem Apply_finds_leader_witness: "\<exists>v c. example_call (Ok (Ok v), c)"
  by (rule Apply_finds_leader [OF example_valid, of "three_endpoints ! 2"])
     (simp_all add: two_retries_def RaftClient_new_def three_endpoints_def leader_is_last_def)

lemma example_returns: "\<exists>c. example_call (Ok (Ok 42), c)"
  by (simp add: Let_def RaftClient_Apply_def attempts.simps next_attempt_def StartAttempt_def exec_simps start_call_def RaftClient.defs two_retries_def
      RaftClient_new_def three_endpoints_def leader_is_last_def final_result_def u64_inc_def u64_add_def HasError_def mk_Backoff_def Backoff_Next_def)

theorem Apply_value_committed_witness:
  "\<exists>c node (response :: nat Response). example_call (Ok (Ok 42), c) \<and> last (sent c) = (node, the_request (RaftClient_new 7 three_endpoints) 5 42) \<and>
     response_status response = Commited \<and> response_result response = (42 :: nat)"
proof -
  obtain c where c: "example_call (Ok (Ok 42), c)" using example_returns by blast
  from Apply_value_committed [OF example_valid(1,2) c] c show ?thesis by blast
qed

end
