(* ===== verification/History.thy ===== *)
theory History
  imports Utilities "HOL-Library.Multiset"
begin

text \<open>
  The tests of the Raft cluster: the logging state machine (\<^verbatim>\<open>src/raft/test/util/logging_state_machine.cpp\<close>), the check of a
  history of requests (\<^verbatim>\<open>src/raft/test/util/history_checker.cpp\<close>), and the file of a history
  (\<^verbatim>\<open>src/raft/test/system_test/history_checker.cpp\<close>, \<^verbatim>\<open>src/raft/test/exe/client.cpp\<close>).

  Shown here: for histories whose commands are distinct, the check accepts exactly the linearizable ones; with a repeated command it also accepts others.
  A history that is printed is read back.
\<close>

section \<open>The logging state machine\<close>

text \<open>The conversions from and to \<^verbatim>\<open>google::protobuf::Any\<close> are parameters.\<close>

definition LoggingStateMachine_Apply ::
  "('a \<Rightarrow> (nat, string) Result) \<Rightarrow> (nat list \<Rightarrow> ('a, string) Result) \<Rightarrow> 'a \<Rightarrow> (nat list, 'a) exec" where
  "LoggingStateMachine_Apply from_any to_any command =
     bind (lift (GetValue id (from_any command))) (\<lambda>cmd.
     bind (modify (\<lambda>log. log @ [cmd])) (\<lambda>_.
     bind (gets id) (\<lambda>log.
     lift (GetValue id (to_any log)))))"

section \<open>Checking a history\<close>

record RequestInfo =
  invocation_time :: int
  completion_time :: int
  info_command :: nat
  info_result :: "nat list"

text \<open>
  The sort of the standard library is a parameter. The outer result is the panic that an access out of range would be, the inner one the verdict.
\<close>

type_synonym verdict = "((unit, string) Result, panic) Result"

primrec check_appended :: "RequestInfo list \<Rightarrow> verdict" where
  "check_appended [] = Ok (Ok ())"
| "check_appended (d # ds) =
     (if info_result d = [] then Err (UndefinedBehaviour ''back of an empty vector'')
      else if last (info_result d) \<noteq> info_command d then Ok (Err ''RSM did not append client command to log'')
      else check_appended ds)"

fun same_entries :: "nat list \<Rightarrow> nat list \<Rightarrow> (bool, panic) Result" where
  "same_entries [] back = Ok True"
| "same_entries (x # xs) [] = Err (UndefinedBehaviour ''vector index'')"
| "same_entries (x # xs) (y # ys) = (if x \<noteq> y then Ok False else same_entries xs ys)"

primrec check_prefixes :: "nat list \<Rightarrow> RequestInfo list \<Rightarrow> verdict" where
  "check_prefixes back [] = Ok (Ok ())"
| "check_prefixes back (d # ds) =
     AndThen (same_entries (info_result d) back)
       (\<lambda>same. if same then check_prefixes back ds else Ok (Err ''Not all received logs have common prefix''))"

definition check_order :: "RequestInfo list \<Rightarrow> verdict" where
  "check_order history =
     (if \<forall>command_index \<in> {..<length history}. \<forall>index \<in> {..<length history}.
           completion_time (history ! command_index) < invocation_time (history ! index) \<longrightarrow> \<not> index \<le> command_index
      then Ok (Ok ()) else Ok (Err ''History is not linearizable''))"

definition and_then :: "verdict \<Rightarrow> verdict \<Rightarrow> verdict" where
  "and_then v v' = AndThen v (\<lambda>r. if HasError r then Ok r else v')"

definition CheckLinearizability :: "(RequestInfo list \<Rightarrow> RequestInfo list) \<Rightarrow> RequestInfo list \<Rightarrow> verdict" where
  "CheckLinearizability sort_by_size unsorted =
     (let history = sort_by_size unsorted in
      and_then (check_appended history)
     (and_then (if history = [] then Ok (Ok ()) else check_prefixes (info_result (last history)) (butlast history))
     (check_order history)))"

section \<open>Linearizability\<close>

definition logging_step :: "nat list \<Rightarrow> nat \<Rightarrow> nat list" where
  "logging_step log cmd = log @ [cmd]"

text \<open>What the machine returns to the last of a sequence of commands.\<close>

definition logged :: "nat list \<Rightarrow> nat list" where
  "logged S = foldl logging_step [] S"

lemma LoggingStateMachine_logs:
  assumes "from_any command = Ok cmd" and "to_any (logging_step log cmd) = Ok response"
  shows "LoggingStateMachine_Apply from_any to_any command log = (Ok response, logging_step log cmd)"
  using assms by (simp add: LoggingStateMachine_Apply_def logging_step_def exec_simps)

text \<open>
  There is a sequence \<open>S\<close> of commands, in which every request of the history has a place of its own, such that the machine returns to the request what the
  history says when it runs the commands of \<open>S\<close> in order, and a request that completed before another was
  invoked comes first. Commands of \<open>S\<close> that are not in the history belong to requests without a response.
\<close>

definition linearizable :: "RequestInfo list \<Rightarrow> bool" where
  "linearizable history \<longleftrightarrow> (\<exists>S pos. inj_on pos {..<length history} \<and>
     (\<forall>i < length history. pos i < length S \<and> S ! pos i = info_command (history ! i) \<and> info_result (history ! i) = logged (take (Suc (pos i)) S)) \<and>
     (\<forall>i < length history. \<forall>j < length history. completion_time (history ! i) < invocation_time (history ! j) \<longrightarrow> pos i < pos j))"

lemma logged_id [simp]: "logged S = S"
proof -
  have "foldl logging_step xs S = xs @ S" for xs by (induction S arbitrary: xs) (simp_all add: logging_step_def)
  then show ?thesis by (simp add: logged_def)
qed

lemma permutation_places:
  assumes "mset xs = mset ys"
  shows "\<exists>f. inj_on f {..<length xs} \<and> (\<forall>i < length xs. f i < length ys \<and> xs ! i = ys ! f i)"
  using assms
proof (induction xs arbitrary: ys)
  case (Cons x xs)
  then have "x \<in> set ys" by (metis list.set_intros(1) mset_eq_setD)
  then obtain us vs where ys: "ys = us @ x # vs" by (auto simp: in_set_conv_decomp)
  with Cons.prems have "mset xs = mset (us @ vs)" by simp
  from Cons.IH [OF this] obtain f where f: "inj_on f {..<length xs}" "\<forall>i < length xs. f i < length (us @ vs) \<and> xs ! i = (us @ vs) ! f i"
    by blast
  define g where "g = (\<lambda>i. case i of 0 \<Rightarrow> length us | Suc j \<Rightarrow> if f j < length us then f j else Suc (f j))"
  have "inj_on g {..<length (x # xs)}"
  proof (rule inj_onI)
    fix i j assume ij: "i \<in> {..<length (x # xs)}" "j \<in> {..<length (x # xs)}" "g i = g j"
    show "i = j"
    proof (cases i; cases j)
      fix k l assume kl: "i = Suc k" "j = Suc l"
      with ij have "f k = f l" by (auto simp: g_def split: if_splits)
      with kl ij f(1) show "i = j" by (auto dest: inj_onD)
    qed (use ij in \<open>auto simp: g_def split: if_splits\<close>)
  qed
  moreover have "g i < length ys \<and> (x # xs) ! i = ys ! g i" if "i < length (x # xs)" for i
    using f(2) that by (cases i) (auto simp: g_def ys nth_append)
  ultimately show ?case by blast
qed simp

lemma linearizable_perm:
  assumes "mset h = mset h'" and "linearizable h"
  shows "linearizable h'"
proof -
  from assms(1) obtain f where f: "inj_on f {..<length h'}" and lt: "\<And>i. i < length h' \<Longrightarrow> f i < length h" and eq: "\<And>i. i < length h' \<Longrightarrow> h' ! i = h ! f i"
    using permutation_places [of h' h] by auto
  from assms(2) obtain S pos where pos: "inj_on pos {..<length h}"
      "\<forall>i < length h. pos i < length S \<and> S ! pos i = info_command (h ! i) \<and> info_result (h ! i) = logged (take (Suc (pos i)) S)"
      "\<forall>i < length h. \<forall>j < length h. completion_time (h ! i) < invocation_time (h ! j) \<longrightarrow> pos i < pos j"
    unfolding linearizable_def by blast
  have "inj_on (pos \<circ> f) {..<length h'}"
    using f pos(1) lt by (auto simp: inj_on_def)
  moreover have "\<forall>i < length h'. (pos \<circ> f) i < length S \<and> S ! (pos \<circ> f) i = info_command (h' ! i) \<and>
      info_result (h' ! i) = logged (take (Suc ((pos \<circ> f) i)) S)"
    using pos(2) eq lt by simp
  moreover have "\<forall>i < length h'. \<forall>j < length h'. completion_time (h' ! i) < invocation_time (h' ! j) \<longrightarrow> (pos \<circ> f) i < (pos \<circ> f) j"
    using pos(3) eq lt by simp
  ultimately show ?thesis unfolding linearizable_def by blast
qed

lemma check_appended_Ok: "check_appended h = Ok (Ok ()) \<longleftrightarrow> (\<forall>d \<in> set h. info_result d \<noteq> [] \<and> last (info_result d) = info_command d)"
  by (induction h) auto

lemma same_entries_Ok: "same_entries xs ys = Ok True \<longleftrightarrow> take (length xs) ys = xs \<and> length xs \<le> length ys"
  by (induction xs ys rule: same_entries.induct) auto

lemma check_prefixes_Ok: "check_prefixes back h = Ok (Ok ()) \<longleftrightarrow> (\<forall>d \<in> set h. same_entries (info_result d) back = Ok True)"
proof (induction h)
  case (Cons d h)
  show ?case
  proof (cases "same_entries (info_result d) back")
    case (Ok b)
    then show ?thesis using Cons by (cases b) auto
  qed auto
qed simp

lemma check_order_Ok:
  "check_order h = Ok (Ok ()) \<longleftrightarrow> (\<forall>i < length h. \<forall>j < length h. completion_time (h ! i) < invocation_time (h ! j) \<longrightarrow> i < j)"
  by (simp add: check_order_def not_le Ball_def)

lemma and_then_Ok: "and_then v v' = Ok (Ok ()) \<longleftrightarrow> v = Ok (Ok ()) \<and> v' = Ok (Ok ())"
proof (cases v)
  case (Ok r)
  then show ?thesis by (cases r) (auto simp: and_then_def)
qed (simp add: and_then_def)

text \<open>What the check establishes on a sorted history.\<close>

definition check_holds :: "RequestInfo list \<Rightarrow> bool" where
  "check_holds h \<longleftrightarrow> (\<forall>d \<in> set h. info_result d \<noteq> [] \<and> last (info_result d) = info_command d \<and>
       take (length (info_result d)) (info_result (last h)) = info_result d) \<and>
     (\<forall>i < length h. \<forall>j < length h. completion_time (h ! i) < invocation_time (h ! j) \<longrightarrow> i < j)"

lemma CheckLinearizability_holds:
  assumes "sorted (map (length \<circ> info_result) (sort_by_size h))"
  shows "CheckLinearizability sort_by_size h = Ok (Ok ()) \<longleftrightarrow> check_holds (sort_by_size h)"
proof (cases "sort_by_size h = []")
  case True
  then show ?thesis by (simp add: CheckLinearizability_def check_holds_def and_then_Ok check_order_Ok)
next
  case False
  let ?h = "sort_by_size h"
  have h: "?h = butlast ?h @ [last ?h]" using False by simp
  have "length (info_result d) \<le> length (info_result (last ?h))" if "d \<in> set (butlast ?h)" for d
    using assms that by (subst (asm) h) (simp add: sorted_append)
  then have "(\<forall>d \<in> set (butlast ?h). same_entries (info_result d) (info_result (last ?h)) = Ok True) \<longleftrightarrow>
      (\<forall>d \<in> set ?h. take (length (info_result d)) (info_result (last ?h)) = info_result d)"
    by (subst (3) h) (auto simp: same_entries_Ok)
  with False show ?thesis
    unfolding check_holds_def CheckLinearizability_def Let_def and_then_Ok check_appended_Ok check_order_Ok ball_conj_distrib
    by (simp add: check_prefixes_Ok)
qed

lemma check_holds_linearizable:
  assumes h: "check_holds h" and sorted: "sorted (map (length \<circ> info_result) h)" and distinct: "distinct (map info_command h)"
  shows "linearizable h"
proof -
  let ?S = "info_result (last h)" and ?len = "\<lambda>i. length (info_result (h ! i))"
  have res: "info_result (h ! i) \<noteq> [] \<and> last (info_result (h ! i)) = info_command (h ! i) \<and> take (?len i) ?S = info_result (h ! i)"
    if "i < length h" for i using h that by (auto simp: check_holds_def)
  have le: "0 < ?len i \<and> ?len i \<le> length ?S" if "i < length h" for i
    using res [OF that] by (metis length_greater_0_conv length_take min.cobounded1)
  have inj: "i = j" if "i < length h" "j < length h" "?len i = ?len j" for i j
  proof -
    from that have "info_command (h ! i) = info_command (h ! j)" using res by metis
    with that show ?thesis using nth_eq_iff_index_eq [OF distinct, of i j] by simp
  qed
  define pos where "pos i = ?len i - 1" for i
  have len: "?len i = Suc (pos i)" if "i < length h" for i using le [OF that] by (simp add: pos_def)
  have "inj_on pos {..<length h}" using inj len by (intro inj_onI) simp
  moreover have "pos i < length ?S \<and> ?S ! pos i = info_command (h ! i) \<and> info_result (h ! i) = logged (take (Suc (pos i)) ?S)"
    if "i < length h" for i
    proof -
    have "last (take (Suc (pos i)) ?S) = ?S ! pos i"
      using len [OF that] le [OF that] by (simp add: take_Suc_conv_app_nth)
    then show ?thesis using res [OF that] len [OF that] le [OF that] by simp
  qed
  moreover have "pos i < pos j" if "i < length h" "j < length h" "completion_time (h ! i) < invocation_time (h ! j)" for i j
  proof -
    from that h have "i < j" by (simp add: check_holds_def)
    with that sorted have "?len i \<le> ?len j" by (auto simp: sorted_iff_nth_mono)
    with inj [OF that(1,2)] \<open>i < j\<close> len [OF that(1)] len [OF that(2)] show ?thesis by fastforce
  qed
  ultimately show ?thesis unfolding linearizable_def by blast
qed

lemma linearizable_check_holds:
  assumes "linearizable h" and sorted: "sorted (map (length \<circ> info_result) h)"
  shows "check_holds h"
proof -
  from assms(1) obtain S pos where
      res: "\<And>i. i < length h \<Longrightarrow> pos i < length S \<and> S ! pos i = info_command (h ! i) \<and> info_result (h ! i) = take (Suc (pos i)) S" and
      order: "\<And>i j. i < length h \<Longrightarrow> j < length h \<Longrightarrow> completion_time (h ! i) < invocation_time (h ! j) \<Longrightarrow> pos i < pos j"
    unfolding linearizable_def logged_id by blast
  have mono: "pos i \<le> pos j" if "i \<le> j" "j < length h" for i j
    using sorted_nth_mono [OF sorted that(1)] that res [of i] res [of j] by simp
  have "info_result d \<noteq> [] \<and> last (info_result d) = info_command d \<and> take (length (info_result d)) (info_result (last h)) = info_result d"
    if "d \<in> set h" for d
  proof -
    from that obtain i where i: "i < length h" "d = h ! i" by (auto simp: in_set_conv_nth)
    from i have last: "last h = h ! (length h - 1)" "length h - 1 < length h" "i \<le> length h - 1" by (cases h; auto simp: last_conv_nth)+
    from mono [OF last(3,2)] res [OF last(2)] have "info_result (last h) = take (Suc (pos (length h - 1))) S" "pos i \<le> pos (length h - 1)"
      by (simp_all add: last(1))
    moreover have "last (take (Suc (pos i)) S) = S ! pos i" using res [OF i(1)] by (simp add: take_Suc_conv_app_nth)
    ultimately show ?thesis using res [OF i(1)] i(2) by (auto simp: min_def)
  qed
  moreover have "i < j" if "i < length h" "j < length h" "completion_time (h ! i) < invocation_time (h ! j)" for i j
    using order [OF that] mono [of j i] that by fastforce
  ultimately show ?thesis by (auto simp: check_holds_def)
qed

text \<open>
  C10. The check decides linearizability of histories with distinct commands: whatever permutation that orders the requests by the size of
  their results the sort gives, a history is accepted exactly when it is linearizable.\<close>

theorem CheckLinearizability_decides:
  assumes "mset (sort_by_size h) = mset h" and "sorted (map (length \<circ> info_result) (sort_by_size h))"
    and "distinct (map info_command h)"
  shows "CheckLinearizability sort_by_size h = Ok (Ok ()) \<longleftrightarrow> linearizable h"
proof -
  have "distinct (map info_command (sort_by_size h))"
    using assms(1,3) by (metis mset_eq_imp_distinct_iff mset_map)
  then show ?thesis
    using CheckLinearizability_holds [of sort_by_size h, OF assms(2)] check_holds_linearizable [OF _ assms(2)] linearizable_check_holds [OF _ assms(2)]
      linearizable_perm [OF assms(1)] linearizable_perm [OF assms(1) [symmetric]] by blast
qed

definition example_history :: "RequestInfo list" where
  "example_history =
     [\<lparr>invocation_time = 3, completion_time = 9, info_command = 8, info_result = [7, 8]\<rparr>,
      \<lparr>invocation_time = 1, completion_time = 2, info_command = 7, info_result = [7]\<rparr>]"

theorem CheckLinearizability_decides_witness:
  "CheckLinearizability (sort_key (length \<circ> info_result)) example_history = Ok (Ok ()) \<and> linearizable example_history"
proof -
  have "CheckLinearizability (sort_key (length \<circ> info_result)) example_history = Ok (Ok ())"
    by (simp add: example_history_def CheckLinearizability_def and_then_def check_order_def less_Suc_eq HasError_def lessThan_Suc)
  with CheckLinearizability_decides [of "sort_key (length \<circ> info_result)" example_history] show ?thesis
    by (simp add: example_history_def)
qed

text \<open>
  C11. With a command that occurs twice the check accepts a history that is not linearizable: two requests that append the same number each get the
  log with one entry, so only one of them was executed.\<close>

theorem CheckLinearizability_repeated_command:
  "\<exists>h. CheckLinearizability (sort_key (length \<circ> info_result)) h = Ok (Ok ()) \<and> \<not> linearizable h"
proof -
  define d where "d = \<lparr>invocation_time = 0, completion_time = 1, info_command = 7, info_result = [7 :: nat]\<rparr>"
  have "CheckLinearizability (sort_key (length \<circ> info_result)) [d, d] = Ok (Ok ())"
    by (simp add: d_def CheckLinearizability_def and_then_def check_order_def HasError_def lessThan_Suc)
  moreover have "\<not> linearizable [d, d]"
  proof
    assume "linearizable [d, d]"
    then obtain S pos where inj: "inj_on pos {..<2 :: nat}" and res: "\<forall>i < 2. pos i < length S \<and> [7 :: nat] = take (Suc (pos i)) S"
      unfolding linearizable_def by (auto simp: d_def less_Suc_eq numeral_2_eq_2)
    have "pos i = 0" if "i < 2" for i
      using res that by (metis Suc_leI length_Cons length_take list.size(3) min.absorb2 nat.inject)
    from this [of 0] this [of 1] inj_onD [OF inj, of 0 1] show False by simp
  qed
  ultimately show ?thesis by blast
qed

section \<open>The file of a history\<close>

text \<open>An input stream: what is left to read, and the two bits of its state. An operation on a stream that is not good fails and reads nothing.\<close>

record istream =
  input :: string
  eofbit :: bool
  failbit :: bool

definition get_word :: "istream \<Rightarrow> string \<times> istream" where
  "get_word is =
     (if eofbit is \<or> failbit is then ([], is\<lparr>failbit := True\<rparr>)
      else let s = skip_space (input is); rest = dropWhile (\<lambda>c. \<not> is_space c) s
           in (takeWhile (\<lambda>c. \<not> is_space c) s, \<lparr>input = rest, eofbit = rest = [], failbit = s = []\<rparr>))"

definition getline :: "istream \<Rightarrow> string \<times> istream" where
  "getline is =
     (if eofbit is \<or> failbit is then ([], is\<lparr>failbit := True\<rparr>)
      else let line = takeWhile (\<lambda>c. c \<noteq> CHR 0x0A) (input is); rest = dropWhile (\<lambda>c. c \<noteq> CHR 0x0A) (input is)
           in (line, \<lparr>input = tl rest, eofbit = rest = [], failbit = input is = []\<rparr>))"

definition get_u64 :: "istream \<Rightarrow> nat \<times> istream" where
  "get_u64 is =
     (if eofbit is \<or> failbit is then (0, is\<lparr>failbit := True\<rparr>)
      else let (v, rest, _) = extract_u64 (input is); (_, ds, _) = read_number (input is)
           in (v, \<lparr>input = rest, eofbit = rest = [], failbit = ds = [] \<or> read_dec ds > u64_max\<rparr>))"

text \<open>A character that cannot be read leaves the variable as it was.\<close>

definition get_char :: "char \<Rightarrow> istream \<Rightarrow> char \<times> istream" where
  "get_char c is =
     (if eofbit is \<or> failbit is then (c, is\<lparr>failbit := True\<rparr>)
      else case skip_space (input is) of
             [] \<Rightarrow> (c, \<lparr>input = [], eofbit = True, failbit = True\<rparr>)
           | c' # rest \<Rightarrow> (c', \<lparr>input = rest, eofbit = False, failbit = False\<rparr>))"

primrec read_log :: "nat \<Rightarrow> istream \<Rightarrow> nat list \<times> istream" where
  "read_log 0 is = ([], is)"
| "read_log (Suc n) is =
     (if failbit is then ([], is)
      else let (data, is) = get_u64 is; (log, is) = read_log n is in (data # log, is))"

text \<open>What follows the tag of a request. \<^verbatim>\<open>None\<close> is the \<^verbatim>\<open>break\<close> of the loop.\<close>

definition parse_request :: "istream \<Rightarrow> RequestInfo option \<times> istream" where
  "parse_request is =
     (let (invocation, is) = get_u64 is; (completion, is) = get_u64 is; (cmd, is) = get_u64 is;
          (bracket, is) = get_char (CHR 0x00) is
      in if bracket \<noteq> CHR ''['' then (None, is)
         else let (size, is) = get_u64 is; (log, is) = read_log size is; (bracket, is) = get_char bracket is
              in if bracket \<noteq> CHR '']'' then (None, is)
                 else (Some \<lparr>invocation_time = to_i64 invocation, completion_time = to_i64 completion,
                             info_command = cmd, info_result = log\<rparr>, is))"

text \<open>\<^verbatim>\<open>None\<close> would be a loop that does not end.\<close>

partial_function (option) ParseHistory :: "istream \<Rightarrow> RequestInfo list \<Rightarrow> RequestInfo list option" where
  "ParseHistory is result =
     (if failbit is then Some result
      else if fst (get_word is) \<noteq> ''OK:'' then ParseHistory (snd (getline (snd (get_word is)))) result
      else case parse_request (snd (get_word is)) of
             (None, _) \<Rightarrow> Some result
           | (Some request, is) \<Rightarrow> ParseHistory is (result @ [request]))"

definition open_stream :: "string \<Rightarrow> istream" where
  "open_stream s = \<lparr>input = s, eofbit = False, failbit = False\<rparr>"

text \<open>The lines that the load client prints (\<^verbatim>\<open>src/raft/test/exe/client.cpp\<close>), one for every request.\<close>

fun join_log :: "nat list \<Rightarrow> string" where
  "join_log [] = []"
| "join_log [x] = to_string x"
| "join_log (x # xs) = to_string x @ '' '' @ join_log xs"

definition print_outcome :: "(RequestInfo, string) Result \<Rightarrow> string" where
  "print_outcome outcome =
     (case outcome of
        Err message \<Rightarrow> ''ERROR: '' @ message @ [CHR 0x0A]
      | Ok r \<Rightarrow> ''OK: '' @ to_string_int (invocation_time r) @ '' '' @ to_string_int (completion_time r) @ '' '' @ to_string (info_command r) @
                '' [ '' @ to_string (length (info_result r)) @ '' '' @ join_log (info_result r) @ '' ]'' @ [CHR 0x0A])"

section \<open>Reading a history ends\<close>

text \<open>The characters left to a loop that has not failed; every extraction keeps the measure or lowers it.\<close>

definition left :: "istream \<Rightarrow> nat" where
  "left is = (if failbit is then 0 else Suc (length (input is)))"

lemma length_skip: "length (skip_space s) \<le> length s"
  by (simp add: skip_space_def length_dropWhile_le)

lemma left_word: "\<not> failbit is \<Longrightarrow> left (snd (get_word is)) < left is"
proof (cases "eofbit is \<or> skip_space (input is) = []")
  case False
  then obtain c cs where c: "skip_space (input is) = c # cs" by (cases "skip_space (input is)") auto
  then have "\<not> is_space c" unfolding skip_space_def using hd_dropWhile [of is_space "input is"] by simp
  then have "length (dropWhile (\<lambda>c. \<not> is_space c) (c # cs)) \<le> length cs" by (simp add: length_dropWhile_le)
  moreover have "length (c # cs) \<le> length (input is)" using length_skip [of "input is"] c by simp
  moreover assume "\<not> failbit is"
  ultimately show ?thesis using False c by (simp add: get_word_def left_def Let_def)
qed (auto simp: get_word_def left_def Let_def)

lemma left_line: "left (snd (getline is)) \<le> left is"
proof -
  have "length (tl (dropWhile P xs)) \<le> length xs" for P and xs :: string
    using length_dropWhile_le [of P xs] by simp
  then show ?thesis by (auto simp: getline_def left_def Let_def)
qed

lemma length_number: "read_number s = (neg, ds, rest) \<Longrightarrow> length rest \<le> length s"
proof -
  have "length (snd (read_sign cs)) \<le> length cs" for cs by (simp add: read_sign_def split: list.split)
  moreover assume "read_number s = (neg, ds, rest)"
  ultimately show ?thesis
    using length_skip [of s] length_dropWhile_le [of is_digit "snd (read_sign (skip_space s))"]
    by (auto simp: read_number_def split: prod.splits) (metis le_trans snd_conv)
qed

lemma extract_u64_rest: "fst (snd (extract_u64 s)) = snd (snd (read_number s))"
  by (simp add: extract_u64_def Let_def split: prod.split)

lemma left_u64: "left (snd (get_u64 is)) \<le> left is"
proof -
  obtain neg ds rest where n: "read_number (input is) = (neg, ds, rest)" by (metis prod_cases3)
  obtain v rest' b where e: "extract_u64 (input is) = (v, rest', b)" by (metis prod_cases3)
  show ?thesis using length_number [OF n] extract_u64_rest [of "input is"] n e by (simp add: get_u64_def left_def)
qed

lemma left_char: "left (snd (get_char c is)) \<le> left is"
  using length_skip [of "input is"] by (auto simp: get_char_def left_def split: list.split)

lemma left_log: "left (snd (read_log n is)) \<le> left is"
proof (induction n arbitrary: "is")
  case (Suc n)
  show ?case using left_u64 [of "is"] Suc [of "snd (get_u64 is)"] by (auto split: prod.split)
qed simp

lemma left_request: "left (snd (parse_request is)) \<le> left is"
proof -
  note le = left_u64 left_char left_log
  show ?thesis
    unfolding parse_request_def Let_def case_prod_unfold
    by (simp; intro conjI impI; meson le le_trans)
qed

lemma ParseHistory_ends: "\<exists>h. ParseHistory is result = Some h"
proof (induction "left is" arbitrary: "is" result rule: less_induct)
  case less
  show ?case
  proof (cases "failbit is")
    case False
    note word = left_word [OF False]
    show ?thesis
    proof (cases "fst (get_word is) = ''OK:''")
      case True
      obtain r is' where r: "parse_request (snd (get_word is)) = (r, is')" by fastforce
      with left_request [of "snd (get_word is)"] word have "left is' < left is" by simp
      with less [of is'] False True r show ?thesis by (subst ParseHistory.simps) (auto split: option.split)
    next
      case other: False
      from left_line [of "snd (get_word is)"] word have "left (snd (getline (snd (get_word is)))) < left is" by simp
      with less False other show ?thesis by (subst ParseHistory.simps) simp
    qed
  qed (simp add: ParseHistory.simps)
qed

text \<open>
  C12. The loop that reads a history ends on every input.\<close>

theorem ParseHistory_terminates: "\<exists>h. ParseHistory (open_stream file) [] = Some h"
  by (rule ParseHistory_ends)

section \<open>What is printed is read back\<close>

lemma read_number_space [simp]: "is_space c \<Longrightarrow> read_number (c # s) = read_number s"
  by (simp add: read_number_def skip_space_def)

lemma space_space [simp]: "is_space (CHR '' '')" "is_space (CHR 0x0A)" "\<not> is_digit (CHR '' '')"
  by (simp_all add: is_space_def is_digit_def)

lemma read_number_negative:
  assumes "rest = [] \<or> \<not> is_digit (hd rest)"
  shows "read_number (CHR ''-'' # to_string n @ rest) = (True, to_string n, rest)"
proof -
  have "takeWhile is_digit (to_string n @ rest) = to_string n" "dropWhile is_digit (to_string n @ rest) = rest"
    using digits_to_string [of _ n] assms by (cases rest; auto simp: takeWhile_append dropWhile_append)+
  then show ?thesis by (simp add: read_number_def skip_space_def read_sign_def is_space_def)
qed

lemma get_u64_printed:
  assumes "n \<le> u64_max"
  shows "get_u64 (open_stream (CHR '' '' # to_string n @ CHR '' '' # s)) = (n, open_stream (CHR '' '' # s))"
  using assms read_number_to_string [of "CHR '' '' # s" n] by (simp add: get_u64_def extract_u64_def open_stream_def)

lemma get_u64_time:
  assumes "- (2 ^ 63) \<le> t" and "t < 2 ^ 63"
  shows "\<exists>v. get_u64 (open_stream (CHR '' '' # to_string_int t @ CHR '' '' # s)) = (v, open_stream (CHR '' '' # s)) \<and> to_i64 v = t"
proof (cases "t < 0")
  case True
  define n where "n = nat (- t)"
  from True assms have n: "0 < n" "n \<le> 2 ^ 63" "t = - int n" by (simp_all add: n_def)
  then have "get_u64 (open_stream (CHR '' '' # to_string_int t @ CHR '' '' # s)) = (u64_sub 0 n, open_stream (CHR '' '' # s))"
    using read_number_negative [of "CHR '' '' # s" n]
    by (simp add: get_u64_def extract_u64_def open_stream_def to_string_int_def u64_max_def)
  moreover have "to_i64 (u64_sub 0 n) = t" using n by (simp add: to_i64_def u64_sub_def)
  ultimately show ?thesis by blast
next
  case False
  then have "nat t \<le> u64_max" "to_i64 (nat t) = t" using assms by (simp_all add: u64_max_def to_i64_def nat_less_iff)
  with get_u64_printed [of "nat t" s] False show ?thesis by (auto simp: to_string_int_def)
qed

lemma get_char_printed: "\<not> is_space c' \<Longrightarrow> get_char c (open_stream (CHR '' '' # c' # s)) = (c', open_stream s)"
  by (simp add: get_char_def open_stream_def skip_space_def)

lemma join_log_Cons: "CHR '' '' # join_log (x # xs) @ CHR '' '' # s =
    CHR '' '' # to_string x @ CHR '' '' # (if xs = [] then s else join_log xs @ CHR '' '' # s)"
  by (cases xs) simp_all

lemma read_log_printed:
  assumes "\<forall>x \<in> set log. x \<le> u64_max" and "log \<noteq> []"
  shows "read_log (length log) (open_stream (CHR '' '' # join_log log @ CHR '' '' # s)) = (log, open_stream (CHR '' '' # s))"
  using assms
proof (induction log)
  case (Cons x xs)
  let ?rest = "if xs = [] then s else join_log xs @ CHR '' '' # s"
  have "\<not> failbit (open_stream (CHR '' '' # join_log (x # xs) @ CHR '' '' # s))" by (simp add: open_stream_def)
  moreover have "get_u64 (open_stream (CHR '' '' # join_log (x # xs) @ CHR '' '' # s)) = (x, open_stream (CHR '' '' # ?rest))"
    unfolding join_log_Cons using Cons.prems by (intro get_u64_printed) simp
  moreover have "read_log (length xs) (open_stream (CHR '' '' # ?rest)) = (xs, open_stream (CHR '' '' # s))"
    using Cons by (cases "xs = []") simp_all
  ultimately show ?case by simp
qed simp

definition printable :: "RequestInfo \<Rightarrow> bool" where
  "printable r \<longleftrightarrow> - (2 ^ 63) \<le> invocation_time r \<and> invocation_time r < 2 ^ 63 \<and>
     - (2 ^ 63) \<le> completion_time r \<and> completion_time r < 2 ^ 63 \<and>
     info_command r \<le> u64_max \<and> (\<forall>x \<in> set (info_result r). x \<le> u64_max) \<and> length (info_result r) \<le> u64_max"

lemma get_bracket_printed: "get_char c (open_stream (ws @ CHR '']'' # s)) = (CHR '']'', open_stream s)" if "\<forall>c \<in> set ws. is_space c"
  using that by (simp add: get_char_def open_stream_def skip_space_def is_space_def)

lemma parse_log_printed:
  assumes "\<forall>x \<in> set log. x \<le> u64_max"
  shows "\<exists>is. read_log (length log) (open_stream (CHR '' '' # join_log log @ CHR '' '' # CHR '']'' # s)) = (log, is) \<and>
    get_char c is = (CHR '']'', open_stream s)"
proof (cases "log = []")
  case True
  then show ?thesis using get_bracket_printed [of "'' '' @ '' ''"] by simp
next
  case False
  then show ?thesis using read_log_printed [OF assms] get_bracket_printed [of "'' ''"] by simp
qed

lemma parse_request_printed:
  assumes "printable r"
  shows "parse_request (open_stream (tl (tl (tl (print_outcome (Ok r)))) @ s)) = (Some r, open_stream (CHR 0x0A # s))"
proof -
  let ?log = "CHR '' '' # join_log (info_result r) @ CHR '' '' # CHR '']'' # CHR 0x0A # s"
  let ?size = "CHR '' '' # to_string (length (info_result r)) @ ?log"
  let ?bracket = "CHR '' '' # CHR ''['' # ?size"
  let ?command = "CHR '' '' # to_string (info_command r) @ ?bracket"
  let ?completion = "CHR '' '' # to_string_int (completion_time r) @ ?command"
  let ?invocation = "CHR '' '' # to_string_int (invocation_time r) @ ?completion"
  obtain i c where i: "get_u64 (open_stream ?invocation) = (i, open_stream ?completion)" "to_i64 i = invocation_time r"
      and c: "get_u64 (open_stream ?completion) = (c, open_stream ?command)" "to_i64 c = completion_time r"
    using get_u64_time assms unfolding printable_def by metis
  have cmd: "get_u64 (open_stream ?command) = (info_command r, open_stream ?bracket)"
    using assms by (intro get_u64_printed) (simp add: printable_def)
  have br: "get_char (CHR 0x00) (open_stream ?bracket) = (CHR ''['', open_stream ?size)"
    by (rule get_char_printed) (simp add: is_space_def)
  have size: "get_u64 (open_stream ?size) = (length (info_result r), open_stream ?log)"
    using assms by (intro get_u64_printed) (simp add: printable_def)
  obtain is' where log: "read_log (length (info_result r)) (open_stream ?log) = (info_result r, is')"
      "get_char (CHR ''['') is' = (CHR '']'', open_stream (CHR 0x0A # s))"
    using parse_log_printed [of "info_result r" "CHR 0x0A # s"] assms unfolding printable_def by blast
  have "tl (tl (tl (print_outcome (Ok r)))) @ s = ?invocation" by (simp add: print_outcome_def)
  then show ?thesis using i c cmd br size log by (simp add: parse_request_def)
qed

lemma ParseHistory_newline: "ParseHistory (open_stream (CHR 0x0A # s)) result = ParseHistory (open_stream s) result"
proof -
  have "get_word (open_stream (CHR 0x0A # s)) = get_word (open_stream s)"
    by (simp add: get_word_def open_stream_def skip_space_def)
  then show ?thesis by (subst (1 2) ParseHistory.simps) (simp add: open_stream_def)
qed

lemma get_word_tag:
  assumes "\<forall>c \<in> set tag. \<not> is_space c" and "tag \<noteq> []"
  shows "get_word (open_stream (tag @ CHR '' '' # s)) = (tag, open_stream (CHR '' '' # s))"
proof -
  from assms have "skip_space (tag @ CHR '' '' # s) = tag @ CHR '' '' # s" by (cases tag) (simp_all add: skip_space_def)
  moreover have "takeWhile (\<lambda>c. \<not> is_space c) (tag @ CHR '' '' # s) = tag" "dropWhile (\<lambda>c. \<not> is_space c) (tag @ CHR '' '' # s) = CHR '' '' # s"
    using assms(1) by (simp_all add: takeWhile_append2 dropWhile_append2)
  ultimately show ?thesis using assms(2) by (simp add: get_word_def open_stream_def)
qed

lemma ParseHistory_request:
  assumes "printable r"
  shows "ParseHistory (open_stream (print_outcome (Ok r) @ s)) result = ParseHistory (open_stream s) (result @ [r])"
proof -
  let ?rest = "tl (tl (tl (print_outcome (Ok r))))"
  have "print_outcome (Ok r) @ s = ''OK:'' @ ?rest @ s" "\<exists>t. ?rest = CHR '' '' # t" by (simp_all add: print_outcome_def)
  then have "get_word (open_stream (print_outcome (Ok r) @ s)) = (''OK:'', open_stream (?rest @ s))"
    using get_word_tag [of "''OK:''"] by (auto simp: is_space_def)
  with parse_request_printed [OF assms, of s] show ?thesis
    by (subst ParseHistory.simps) (simp add: ParseHistory_newline, simp add: open_stream_def)
qed

lemma ParseHistory_error:
  assumes "CHR 0x0A \<notin> set message"
  shows "ParseHistory (open_stream (print_outcome (Err message) @ s)) result = ParseHistory (open_stream s) result"
proof -
  let ?line = "CHR '' '' # message @ CHR 0x0A # s"
  have "get_word (open_stream (print_outcome (Err message) @ s)) = (''ERROR:'', open_stream ?line)"
    using get_word_tag [of "''ERROR:''" "message @ CHR 0x0A # s"] by (simp add: print_outcome_def is_space_def)
  moreover have "\<forall>c \<in> set (CHR '' '' # message). c \<noteq> CHR 0x0A" using assms by auto
  then have "takeWhile (\<lambda>c. c \<noteq> CHR 0x0A) ?line = CHR '' '' # message" "dropWhile (\<lambda>c. c \<noteq> CHR 0x0A) ?line = CHR 0x0A # s"
    by (simp_all add: takeWhile_append2 dropWhile_append2)
  then have "snd (getline (open_stream ?line)) = open_stream s" by (simp add: getline_def open_stream_def)
  ultimately show ?thesis by (subst ParseHistory.simps) (simp, simp add: open_stream_def)
qed

lemma ParseHistory_end: "ParseHistory (open_stream []) result = Some result"
  by (subst ParseHistory.simps, subst ParseHistory.simps) (simp add: open_stream_def get_word_def getline_def skip_space_def)

definition printable_outcome :: "(RequestInfo, string) Result \<Rightarrow> bool" where
  "printable_outcome outcome = (case outcome of Ok r \<Rightarrow> printable r | Err message \<Rightarrow> CHR 0x0A \<notin> set message)"

definition answered :: "(RequestInfo, string) Result list \<Rightarrow> RequestInfo list" where
  "answered outcomes = [r. Ok r \<leftarrow> outcomes]"

lemma ParseHistory_printed:
  assumes "\<forall>outcome \<in> set outcomes. printable_outcome outcome"
  shows "ParseHistory (open_stream (concat (map print_outcome outcomes))) result = Some (result @ answered outcomes)"
  using assms
proof (induction outcomes arbitrary: result)
  case (Cons outcome outcomes)
  then show ?case
    by (cases outcome) (auto simp: printable_outcome_def answered_def ParseHistory_request ParseHistory_error)
qed (simp add: ParseHistory_end answered_def)

text \<open>
  C13. The checker reads back what the client printed: from the lines of a run it recovers exactly the answered requests, in order, with their times, commands and logs;
  the lines of failed requests are skipped.\<close>

theorem ParseHistory_reads_printed:
  assumes "\<forall>outcome \<in> set outcomes. printable_outcome outcome"
  shows "ParseHistory (open_stream (concat (map print_outcome outcomes))) [] = Some (answered outcomes)"
  using ParseHistory_printed [OF assms, of "[]"] by simp

theorem ParseHistory_reads_printed_witness:
  "\<exists>outcomes. answered outcomes = example_history \<and> Err ''timeout'' \<in> set outcomes \<and>
     ParseHistory (open_stream (concat (map print_outcome outcomes))) [] = Some example_history"
proof -
  let ?outcomes = "Err ''timeout'' # map Ok example_history"
  have "answered ?outcomes = example_history" by (simp add: answered_def example_history_def)
  moreover have "\<forall>outcome \<in> set ?outcomes. printable_outcome outcome"
    by (simp add: example_history_def printable_outcome_def printable_def u64_max_def)
  ultimately show ?thesis using ParseHistory_reads_printed [of ?outcomes] by (metis list.set_intros(1))
qed

end
