(* ===== verification/Queue.thy ===== *)
theory Queue
  imports KV Rpc_Errors
begin

text \<open>
  The queue service (\<^verbatim>\<open>src/queue/service.cpp\<close>, \<^verbatim>\<open>queue_service.proto\<close>) over the bytes of its key-value storage.

  Handlers of several requests run concurrently. \<^verbatim>\<open>Append\<close> takes its index from an atomic counter and stores the message afterwards, so it is
  two steps here, \<open>Append_index\<close> and \<open>Append_put\<close>; between them other handlers may run. The other handlers are one step.

  Shown here: the service behaves as a counter and a map from identifiers to messages, for every sequence of steps; an appended message
  can be read until it is trimmed, whatever other requests and restarts follow, because no other append of the service stores under its identifier; and
  after everything was trimmed a restarted service gives out the same identifiers again.
\<close>

section \<open>The service\<close>

record QueueService =
  end_index :: nat
  kv_storage :: storage
  shut_down :: bool

datatype ReadStatus = READ_OK | NO_DATA

record ReadReply =
  reply_data :: string
  reply_status :: ReadStatus

definition on_storage :: "(storage, 'r) exec \<Rightarrow> (QueueService, 'r) exec" where
  "on_storage m q = (case m (kv_storage q) of (r, st) \<Rightarrow> (r, q\<lparr>kv_storage := st\<rparr>))"

definition QueueService_new :: "storage \<Rightarrow> (QueueService, panic) Result" where
  "QueueService_new st =
     (let iterator = SeekToLast (NewIterator st) in
      AndThen (Valid iterator) (\<lambda>valid.
      if \<not> valid then Ok \<lparr>end_index = 0, kv_storage = st, shut_down = False\<rparr>
      else AndThen (KVIterator_GetKey U64Serde iterator) (\<lambda>key.
           Ok \<lparr>end_index = u64_add key 1, kv_storage = st, shut_down = False\<rparr>)))"

definition internal_error :: "DBError \<Rightarrow> RpcError" where
  "internal_error error = mk_RpcError RpcInternal (DBError_Message error)"

definition Append_index :: "(QueueService, nat) exec" where
  "Append_index =
     bind (gets end_index) (\<lambda>index.
     bind (modify (\<lambda>q. q\<lparr>end_index := u64_add index 1\<rparr>)) (\<lambda>_.
     ret index))"

definition Append_put :: "nat \<Rightarrow> string \<Rightarrow> (QueueService, (nat, RpcError) Result) exec" where
  "Append_put index message =
     bind (on_storage (KVStorage_Put U64Serde StringSerde index message)) (\<lambda>result.
     case result of
       Err error \<Rightarrow> ret (Err (internal_error error))
     | Ok _ \<Rightarrow> ret (Ok index))"

definition QueueService_Append :: "string \<Rightarrow> (QueueService, (nat, RpcError) Result) exec" where
  "QueueService_Append message = bind Append_index (\<lambda>index. Append_put index message)"

definition QueueService_Read :: "nat \<Rightarrow> (QueueService, (ReadReply, RpcError) Result) exec" where
  "QueueService_Read i =
     bind (on_storage (KVStorage_Get U64Serde StringSerde i)) (\<lambda>result.
     case result of
       Ok message \<Rightarrow> ret (Ok \<lparr>reply_data = message, reply_status = READ_OK\<rparr>)
     | Err error \<Rightarrow>
         if error_type error = NotFound then ret (Ok \<lparr>reply_data = [], reply_status = NO_DATA\<rparr>)
         else ret (Err (internal_error error)))"

definition QueueService_Trim :: "nat \<Rightarrow> (QueueService, (unit, RpcError) Result) exec" where
  "QueueService_Trim i =
     bind (on_storage (KVStorage_DeleteRange U64Serde 0 i)) (\<lambda>result.
     case result of
       Err error \<Rightarrow> ret (Err (internal_error error))
     | Ok _ \<Rightarrow> ret (Ok ()))"

definition QueueService_ShutDown :: "(QueueService, (unit, RpcError) Result) exec" where
  "QueueService_ShutDown = bind (modify (\<lambda>q. q\<lparr>shut_down := True\<rparr>)) (\<lambda>_. ret (Ok ()))"

text \<open>Whether the wait of the main function is over.\<close>

definition WaitShutDown :: "QueueService \<Rightarrow> bool" where
  "WaitShutDown q = shut_down q"

section \<open>The steps of the handlers\<close>

datatype queue_step = TakeIndex | PutMessage nat string | ReadMessage nat | TrimTo nat | StopService

datatype queue_reply = Index nat | Appended nat | Message string | NoData | Done | Failed RpcError

definition reply_of :: "('r \<Rightarrow> queue_reply) \<Rightarrow> ('r, RpcError) Result \<Rightarrow> queue_reply" where
  "reply_of f r = (case r of Ok x \<Rightarrow> f x | Err e \<Rightarrow> Failed e)"

fun run_step :: "queue_step \<Rightarrow> (QueueService, queue_reply) exec" where
  "run_step TakeIndex = bind Append_index (\<lambda>i. ret (Index i))"
| "run_step (PutMessage i message) = bind (Append_put i message) (\<lambda>r. ret (reply_of Appended r))"
| "run_step (ReadMessage i) =
     bind (QueueService_Read i) (\<lambda>r. ret (reply_of (\<lambda>reply. case reply_status reply of READ_OK \<Rightarrow> Message (reply_data reply) | NO_DATA \<Rightarrow> NoData) r))"
| "run_step (TrimTo i) = bind (QueueService_Trim i) (\<lambda>r. ret (reply_of (\<lambda>_. Done) r))"
| "run_step StopService = bind QueueService_ShutDown (\<lambda>r. ret (reply_of (\<lambda>_. Done) r))"

section \<open>A counter and a map\<close>

record queue_spec =
  counter :: nat
  messages :: "nat \<rightharpoonup> string"

fun spec_step :: "queue_step \<Rightarrow> queue_spec \<Rightarrow> queue_reply \<times> queue_spec" where
  "spec_step TakeIndex a = (Index (counter a), a\<lparr>counter := u64_inc (counter a)\<rparr>)"
| "spec_step (PutMessage i message) a = (Appended i, a\<lparr>messages := (messages a)(i \<mapsto> message)\<rparr>)"
| "spec_step (ReadMessage i) a = ((case messages a i of None \<Rightarrow> NoData | Some message \<Rightarrow> Message message), a)"
| "spec_step (TrimTo i) a = (Done, a\<lparr>messages := messages a |` {i..}\<rparr>)"
| "spec_step StopService a = (Done, a)"

primrec spec_run :: "queue_step list \<Rightarrow> queue_spec \<Rightarrow> queue_reply list \<times> queue_spec" where
  "spec_run [] a = ([], a)"
| "spec_run (op # ops) a =
     (let (r, a) = spec_step op a; (rs, a) = spec_run ops a in (r # rs, a))"

text \<open>Indices are 64 bits wide.\<close>

fun in_range :: "queue_step \<Rightarrow> bool" where
  "in_range (PutMessage i message) \<longleftrightarrow> i \<le> u64_max"
| "in_range (ReadMessage i) \<longleftrightarrow> i \<le> u64_max"
| "in_range (TrimTo i) \<longleftrightarrow> i \<le> u64_max"
| "in_range _ \<longleftrightarrow> True"

definition queue_rel :: "QueueService \<Rightarrow> queue_spec \<Rightarrow> bool" where
  "queue_rel q a \<longleftrightarrow> (\<exists>m. kv_storage q = encode U64Serde StringSerde m \<and> keys_ordered m \<and> queue_codec.valid_store m \<and>
     messages a = (\<lambda>i. om_find (<) i m)) \<and> end_index q = counter a"

lemma on_storage_apply:
  "m (kv_storage q) = (r, st) \<Longrightarrow> on_storage m q = (r, q\<lparr>kv_storage := st\<rparr>)"
  by (simp add: on_storage_def)

lemma queue_relI:
  assumes "keys_ordered m" and "queue_codec.valid_store m" and "messages a = (\<lambda>i. om_find (<) i m)" and "n = counter a"
  shows "queue_rel \<lparr>end_index = n, kv_storage = encode U64Serde StringSerde m, shut_down = b\<rparr> a"
  using assms by (auto simp: queue_rel_def)

lemma queue_relE:
  assumes "queue_rel q a"
  obtains m b where "q = \<lparr>end_index = counter a, kv_storage = encode U64Serde StringSerde m, shut_down = b\<rparr>"
    and "keys_ordered m" and "queue_codec.valid_store m" and "messages a = (\<lambda>i. om_find (<) i m)"
  using assms by (cases q) (auto simp: queue_rel_def)

lemma put_refines:
  assumes "queue_rel q a" and "i \<le> u64_max"
  shows "\<exists>q'. Append_put i message q = (Ok (Ok i), q') \<and> queue_rel q' (a\<lparr>messages := (messages a)(i \<mapsto> message)\<rparr>)"
proof -
  from assms(1) obtain m b where q: "q = \<lparr>end_index = counter a, kv_storage = encode U64Serde StringSerde m, shut_down = b\<rparr>"
    and m: "keys_ordered m" "queue_codec.valid_store m" "messages a = (\<lambda>i. om_find (<) i m)" by (rule queue_relE)
  have "KVStorage_Put U64Serde StringSerde i message (encode U64Serde StringSerde m) =
      (Ok (Ok ()), encode U64Serde StringSerde (om_assign (<) i message m))"
    using queue_codec.Put_simulates [OF m(2) assms(2)] by (simp add: Database_Put_def)
  then show ?thesis
    using m assms(2) queue_codec.valid_assign [OF m(2) assms(2)]
    by (auto simp: Append_put_def q exec_simps on_storage_def om_find_assign intro!: queue_relI keys_ordered_assign)
qed

lemma read_refines:
  assumes "queue_rel q a" and "i \<le> u64_max"
  shows "QueueService_Read i q = (Ok (Ok (case messages a i of None \<Rightarrow> \<lparr>reply_data = [], reply_status = NO_DATA\<rparr>
      | Some message \<Rightarrow> \<lparr>reply_data = message, reply_status = READ_OK\<rparr>)), q)"
proof -
  from assms(1) obtain m b where q: "q = \<lparr>end_index = counter a, kv_storage = encode U64Serde StringSerde m, shut_down = b\<rparr>"
    and m: "keys_ordered m" "queue_codec.valid_store m" "messages a = (\<lambda>i. om_find (<) i m)" by (rule queue_relE)
  have "KVStorage_Get U64Serde StringSerde i (encode U64Serde StringSerde m) = (Ok (kv_Get i m), encode U64Serde StringSerde m)"
    using queue_codec.Get_simulates [OF m(2) assms(2)] .
  then show ?thesis
    by (simp add: QueueService_Read_def q exec_simps on_storage_def m(3) Database_Get_def mk_DBError_def split: option.split)
qed

lemma trim_refines:
  assumes "queue_rel q a" and "i \<le> u64_max"
  shows "\<exists>q'. QueueService_Trim i q = (Ok (Ok ()), q') \<and> queue_rel q' (a\<lparr>messages := messages a |` {i..}\<rparr>)"
proof -
  from assms(1) obtain m b where q: "q = \<lparr>end_index = counter a, kv_storage = encode U64Serde StringSerde m, shut_down = b\<rparr>"
    and m: "keys_ordered m" "queue_codec.valid_store m" "messages a = (\<lambda>i. om_find (<) i m)" by (rule queue_relE)
  have "KVStorage_DeleteRange U64Serde 0 i (encode U64Serde StringSerde m) = (Ok (Ok ()), encode U64Serde StringSerde (om_cut 0 i m))"
    using queue_codec.DeleteRange_simulates [OF m(2) _ assms(2), of 0] by (simp add: Database_DeleteRange_ok)
  then have "QueueService_Trim i q = (Ok (Ok ()), q\<lparr>kv_storage := encode U64Serde StringSerde (om_cut 0 i m)\<rparr>)"
    by (simp add: QueueService_Trim_def q exec_simps on_storage_def)
  moreover have "messages a |` {i..} = (\<lambda>k. om_find (<) k (om_cut 0 i m))"
    by (rule ext) (simp add: om.get_cut [OF m(1)] m(3) restrict_map_def)
  moreover have "queue_codec.valid_store (om_cut 0 i m)"
    using queue_codec.DeleteRange_valid [OF m(2), of 0 i] by (simp add: om_cut_def)
  ultimately show ?thesis using om.invar_cut [OF m(1), of 0 i] by (auto simp: q intro!: queue_relI)
qed

lemma step_refines:
  assumes "queue_rel q a" and "in_range op"
  shows "\<exists>q'. run_step op q = (Ok (fst (spec_step op a)), q') \<and> queue_rel q' (snd (spec_step op a))"
proof (cases op)
  case TakeIndex
  from assms(1) show ?thesis
    by (auto simp: TakeIndex Append_index_def exec_simps u64_inc_def queue_rel_def)
next
  case (PutMessage i message)
  with put_refines [OF assms(1), of i message] assms(2) show ?thesis by (auto simp: exec_simps reply_of_def)
next
  case (ReadMessage i)
  with read_refines [OF assms(1), of i] assms show ?thesis by (auto simp: exec_simps reply_of_def split: option.split)
next
  case (TrimTo i)
  with trim_refines [OF assms(1), of i] assms(2) show ?thesis by (auto simp: exec_simps reply_of_def)
next
  case StopService
  with assms(1) show ?thesis by (auto simp: QueueService_ShutDown_def exec_simps reply_of_def queue_rel_def)
qed

lemma run_refines:
  assumes "queue_rel q a" and "\<forall>op \<in> set ops. in_range op"
  shows "\<exists>q'. map_exec ops run_step q = (Ok (fst (spec_run ops a)), q') \<and> queue_rel q' (snd (spec_run ops a))"
  using assms
proof (induction ops arbitrary: q a)
  case Nil
  then show ?case by (simp add: exec_simps)
next
  case (Cons op ops)
  from step_refines [of q a op] Cons.prems obtain q1 where
    q1: "run_step op q = (Ok (fst (spec_step op a)), q1)" "queue_rel q1 (snd (spec_step op a))" by auto
  from Cons.IH [OF q1(2)] Cons.prems(2) obtain q2 where
    "map_exec ops run_step q1 = (Ok (fst (spec_run ops (snd (spec_step op a)))), q2)" "queue_rel q2 (snd (spec_run ops (snd (spec_step op a))))" by auto
  with q1(1) show ?case by (auto simp: exec_simps split: prod.split)
qed

text \<open>The empty queue.\<close>

definition empty_queue :: queue_spec where
  "empty_queue = \<lparr>counter = 0, messages = Map.empty\<rparr>"

lemma new_refines: "\<exists>q. QueueService_new [] = Ok q \<and> queue_rel q empty_queue"
proof -
  have "QueueService_new [] = Ok \<lparr>end_index = 0, kv_storage = encode U64Serde StringSerde [], shut_down = False\<rparr>"
    by (simp add: QueueService_new_def encode_def)
  moreover have "queue_rel \<lparr>end_index = 0, kv_storage = encode U64Serde StringSerde [], shut_down = False\<rparr> empty_queue"
    by (rule queue_relI) (simp_all add: empty_queue_def)
  ultimately show ?thesis by blast
qed

text \<open>
  C19. The queue service implements a counter and a map from identifiers to messages: on a fresh storage, every sequence of steps of its handlers, however those of several requests are interleaved,
  gives the replies of that specification, over the serialised bytes of the storage, without panic and without error.\<close>

theorem queue_implements_map:
  assumes "QueueService_new [] = Ok q" and "\<forall>op \<in> set ops. in_range op"
  shows "fst (map_exec ops run_step q) = Ok (fst (spec_run ops empty_queue))"
  using new_refines run_refines [OF _ assms(2)] assms(1) by fastforce

definition example_steps :: "queue_step list" where
  "example_steps = [TakeIndex, TakeIndex, PutMessage 1 ''b'', ReadMessage 0, PutMessage 0 ''a'', ReadMessage 0, TrimTo 1, ReadMessage 0, ReadMessage 1]"

theorem queue_implements_map_witness:
  "\<exists>q. QueueService_new [] = Ok q \<and> fst (map_exec example_steps run_step q) =
     Ok [Index 0, Index 1, Appended 1, NoData, Appended 0, Message ''a'', Done, NoData, Message ''b'']"
proof -
  obtain q where q: "QueueService_new [] = Ok q" using new_refines by blast
  have "\<forall>op \<in> set example_steps. in_range op" by (simp add: example_steps_def u64_max_def)
  from queue_implements_map [OF q this] q show ?thesis
    by (simp add: example_steps_def empty_queue_def u64_inc_def u64_add_def u64_max_def restrict_map_def)
qed

section \<open>Runs of the service\<close>

text \<open>
  A run of the service: its state, and the identifiers that requests in progress have taken from the counter and not used yet. An append takes what the counter
  gives and stores under that identifier; a restart ends the requests in progress and reads the counter from the storage. The counter does not wrap around.
\<close>

fun is_append :: "queue_step \<Rightarrow> bool" where
  "is_append TakeIndex = True"
| "is_append (PutMessage i message) = True"
| "is_append _ = False"

inductive service_step :: "queue_step option \<Rightarrow> QueueService \<times> nat list \<Rightarrow> QueueService \<times> nat list \<Rightarrow> bool" where
  take_index: "run_step TakeIndex q = (Ok (Index i), q') \<Longrightarrow> end_index q < u64_max \<Longrightarrow> service_step (Some TakeIndex) (q, taken) (q', i # taken)"
| put: "run_step (PutMessage i message) q = (Ok r, q') \<Longrightarrow> i \<in> set taken \<Longrightarrow> service_step (Some (PutMessage i message)) (q, taken) (q', remove1 i taken)"
| handle: "run_step op q = (Ok r, q') \<Longrightarrow> \<not> is_append op \<Longrightarrow> in_range op \<Longrightarrow> service_step (Some op) (q, taken) (q', taken)"
| restart: "QueueService_new (kv_storage q) = Ok q' \<Longrightarrow> service_step None (q, taken) (q', [])"

inductive service_run :: "queue_step option list \<Rightarrow> QueueService \<times> nat list \<Rightarrow> QueueService \<times> nat list \<Rightarrow> bool" where
  none: "service_run [] s s"
| step: "service_run ops s s' \<Longrightarrow> service_step op s' s'' \<Longrightarrow> service_run (ops @ [op]) s s''"

definition service_inv :: "(nat \<rightharpoonup> string) \<Rightarrow> QueueService \<times> nat list \<Rightarrow> bool" where
  "service_inv msgs = (\<lambda>(q, taken). queue_rel q \<lparr>counter = end_index q, messages = msgs\<rparr> \<and> end_index q \<le> u64_max \<and> distinct taken \<and>
     (\<forall>i \<in> set taken. i < end_index q \<and> msgs i = None) \<and> (\<forall>i \<in> dom msgs. i < end_index q))"

lemma keys_ordered_last: "keys_ordered m \<Longrightarrow> p \<in> set m \<Longrightarrow> fst p \<le> fst (last m)"
  by (induction m) (auto simp: keys_ordered_def less_imp_le)

text \<open>A service that starts on a storage continues after its largest key.\<close>

lemma restart_refines:
  assumes "queue_rel q a" and "\<forall>i \<in> dom (messages a). i < u64_max"
  shows "\<exists>q'. QueueService_new (kv_storage q) = Ok q' \<and> queue_rel q' \<lparr>counter = end_index q', messages = messages a\<rparr> \<and> end_index q' \<le> u64_max \<and>
     (\<forall>i \<in> dom (messages a). i < end_index q') \<and> (\<forall>n. end_index q' = Suc n \<longrightarrow> n \<in> dom (messages a))"
proof -
  from assms(1) obtain m b where q: "q = \<lparr>end_index = counter a, kv_storage = encode U64Serde StringSerde m, shut_down = b\<rparr>"
    and m: "keys_ordered m" "queue_codec.valid_store m" "messages a = (\<lambda>i. om_find (<) i m)" by (rule queue_relE)
  have look: "messages a = map_of m" unfolding m(3) by (rule ext) (rule om_find_map_of [OF m(1)])
  show ?thesis
  proof (cases "m = []")
    case True
    then show ?thesis
      using m by (auto simp: q QueueService_new_def encode_def queue_rel_def intro!: exI [of _ "[] :: (nat, string) omap"])
  next
    case False
    let ?k = "fst (last m)"
    have "?k \<in> dom (messages a)" using False by (simp add: look dom_map_of_conv_image_fst)
    then have k: "?k < u64_max" "?k \<in> dom (messages a)" using assms(2) by auto
    have "encode U64Serde StringSerde m \<noteq> []" using False by (simp add: encode_def)
    then have new: "QueueService_new (kv_storage q) = Ok \<lparr>end_index = Suc ?k, kv_storage = kv_storage q, shut_down = False\<rparr>"
      using queue_codec.iterator_simulates(1) [OF m(2) False] False k(1) by (simp add: QueueService_new_def q u64_add_exact)
    have "i < Suc ?k" if "i \<in> dom (messages a)" for i
    proof -
      from that obtain p where "p \<in> set m" "i = fst p" by (auto simp: look dom_map_of_conv_image_fst)
      with keys_ordered_last [OF m(1)] show ?thesis by (simp add: less_Suc_eq_le)
    qed
    moreover have "queue_rel \<lparr>end_index = Suc ?k, kv_storage = kv_storage q, shut_down = False\<rparr> \<lparr>counter = Suc ?k, messages = messages a\<rparr>"
      unfolding q using m by (auto intro: queue_relI)
    ultimately show ?thesis using new k by simp
  qed
qed

lemma spec_counter: "counter (snd (spec_step op a)) = (if op = TakeIndex then u64_inc (counter a) else counter a)"
  by (cases op) auto

lemma service_step_refines:
  assumes "run_step op q = (Ok r, q')" and "service_inv msgs (q, taken)" and "in_range op"
  shows "r = fst (spec_step op \<lparr>counter = end_index q, messages = msgs\<rparr>) \<and>
    queue_rel q' \<lparr>counter = end_index q', messages = messages (snd (spec_step op \<lparr>counter = end_index q, messages = msgs\<rparr>))\<rparr> \<and>
    end_index q' = (if op = TakeIndex then u64_inc (end_index q) else end_index q)"
proof -
  let ?a = "\<lparr>counter = end_index q, messages = msgs\<rparr>"
  have "queue_rel q ?a" using assms(2) by (simp add: service_inv_def)
  from step_refines [OF this assms(3)] assms(1) have r: "r = fst (spec_step op ?a)" "queue_rel q' (snd (spec_step op ?a))" by auto
  then have "end_index q' = counter (snd (spec_step op ?a))" by (simp add: queue_rel_def)
  with r show ?thesis by (simp add: spec_counter queue_rel_def)
qed

text \<open>The messages after a step: those before it, except for what a trim takes away, and a new one under an identifier that had none.\<close>

lemma service_step_inv:
  assumes "service_step op s s'" and "service_inv msgs s"
  shows "\<exists>msgs'. service_inv msgs' s' \<and> (\<forall>i. i \<in> dom msgs \<longrightarrow> (\<forall>j. op = Some (TrimTo j) \<longrightarrow> j \<le> i) \<longrightarrow> msgs' i = msgs i)"
  using assms
proof (induction rule: service_step.induct)
  case (take_index q i q' taken)
  from service_step_refines [OF take_index(1,3)] take_index(2)
  have q': "i = end_index q" "queue_rel q' \<lparr>counter = end_index q', messages = msgs\<rparr>" "end_index q' = Suc (end_index q)"
    by (auto simp: u64_inc_exact)
  have "end_index q \<notin> set taken" "end_index q \<notin> dom msgs" using take_index(3) by (auto simp: service_inv_def)
  with q' take_index(2,3) have "service_inv msgs (q', i # taken)" by (auto simp: service_inv_def less_Suc_eq domIff)
  then show ?case by blast
next
  case (put i message q r q' taken)
  then have i: "i < end_index q" "msgs i = None" "in_range (PutMessage i message)" by (auto simp: service_inv_def)
  from service_step_refines [OF put(1,3) i(3)]
  have "queue_rel q' \<lparr>counter = end_index q', messages = msgs(i \<mapsto> message)\<rparr>" "end_index q' = end_index q" by auto
  with put(2,3) i have "service_inv (msgs(i \<mapsto> message)) (q', remove1 i taken)" by (auto simp: service_inv_def)
  moreover have "\<forall>j. j \<in> dom msgs \<longrightarrow> (msgs(i \<mapsto> message)) j = msgs j" using i(2) by auto
  ultimately show ?case by blast
next
  case (handle op q r q' taken)
  let ?msgs = "messages (snd (spec_step op \<lparr>counter = end_index q, messages = msgs\<rparr>))"
  have sub: "?msgs i = None \<or> ?msgs i = msgs i" for i using handle(2) by (cases op) (auto simp: restrict_map_def)
  have "msgs i = None" if "i \<in> set taken" for i using that handle(4) by (simp add: service_inv_def)
  then have unused: "?msgs i = None" if "i \<in> set taken" for i using sub [of i] that by simp
  have "op \<noteq> TakeIndex" using handle(2) by auto
  with service_step_refines [OF handle(1,4,3)]
  have "queue_rel q' \<lparr>counter = end_index q', messages = ?msgs\<rparr>" "end_index q' = end_index q" by auto
  moreover have "i < end_index q" if "i \<in> dom ?msgs" for i
  proof -
    from that sub [of i] have "i \<in> dom msgs" by (auto simp: domIff)
    with handle(4) show ?thesis by (simp add: service_inv_def)
  qed
  ultimately have "service_inv ?msgs (q', taken)" using handle(4) unused by (simp add: service_inv_def)
  moreover have "?msgs i = msgs i" if "\<forall>j. Some op = Some (TrimTo j) \<longrightarrow> j \<le> i" for i
    using that handle(2) by (cases op) (auto simp: restrict_map_def)
  ultimately show ?case by blast
next
  case (restart q q' taken)
  then have "queue_rel q \<lparr>counter = end_index q, messages = msgs\<rparr>" "\<forall>i \<in> dom msgs. i < u64_max"
    by (auto simp: service_inv_def dest!: bspec intro: less_le_trans)
  from restart_refines [OF this(1)] this(2) restart(1) have "service_inv msgs (q', [])" by (auto simp: service_inv_def)
  then show ?case by blast
qed

lemma service_run_inv:
  assumes "service_run ops s s'" and "service_inv msgs s"
  shows "\<exists>msgs'. service_inv msgs' s' \<and> (\<forall>i. i \<in> dom msgs \<longrightarrow> (\<forall>j. Some (TrimTo j) \<in> set ops \<longrightarrow> j \<le> i) \<longrightarrow> msgs' i = msgs i)"
  using assms
proof (induction rule: service_run.induct)
  case (step ops s s' op s'')
  then obtain msgs' where msgs': "service_inv msgs' s'"
    "\<forall>i. i \<in> dom msgs \<longrightarrow> (\<forall>j. Some (TrimTo j) \<in> set ops \<longrightarrow> j \<le> i) \<longrightarrow> msgs' i = msgs i" by blast
  from service_step_inv [OF step(2) this(1)] obtain msgs'' where msgs'': "service_inv msgs'' s''"
    "\<forall>i. i \<in> dom msgs' \<longrightarrow> (\<forall>j. op = Some (TrimTo j) \<longrightarrow> j \<le> i) \<longrightarrow> msgs'' i = msgs' i" by blast
  have "msgs'' i = msgs i" if "i \<in> dom msgs" "\<forall>j. Some (TrimTo j) \<in> set (ops @ [op]) \<longrightarrow> j \<le> i" for i
    using msgs'(2) [rule_format, of i] msgs''(2) [rule_format, of i] that by (simp add: domIff)
  with msgs''(1) show ?case by blast
qed blast

lemma fresh_service:
  assumes "QueueService_new [] = Ok q" and "service_run ops (q, []) s"
  shows "\<exists>msgs. service_inv msgs s"
proof -
  have "queue_rel q empty_queue" using new_refines assms(1) by auto
  then have "service_inv Map.empty (q, [])" by (simp add: service_inv_def queue_rel_def empty_queue_def)
  from service_run_inv [OF assms(2) this] show ?thesis by blast
qed

text \<open>
  C20. A message can be read once its append was answered. Take any run of the service from an empty storage, with any interleaving of requests and any restarts, and a request
  that stores its message under the identifier the counter gave it. Whatever appends, reads, trims and restarts follow, a read of the identifier
  returns the message as long as no trim goes past it: no other append is given the same identifier and overwrites the message.\<close>

theorem append_then_read:
  assumes "QueueService_new [] = Ok q0" and "service_run ops (q0, []) (q, taken)" and "i \<in> set taken"
    and "Append_put i message q = (Ok (Ok i), q1)" and "service_run ops' (q1, remove1 i taken) (q2, taken')"
    and "\<And>j. Some (TrimTo j) \<in> set ops' \<Longrightarrow> j \<le> i"
  shows "QueueService_Read i q2 = (Ok (Ok \<lparr>reply_data = message, reply_status = READ_OK\<rparr>), q2)"
proof -
  obtain msgs where inv: "service_inv msgs (q, taken)" using fresh_service [OF assms(1,2)] by blast
  then have i: "i < end_index q" "end_index q \<le> u64_max" "queue_rel q \<lparr>counter = end_index q, messages = msgs\<rparr>" using assms(3) by (auto simp: service_inv_def)
  from put_refines [OF i(3), of i message] i assms(4) have q1: "queue_rel q1 \<lparr>counter = end_index q, messages = msgs(i \<mapsto> message)\<rparr>" by auto
  then have "end_index q1 = end_index q" by (simp add: queue_rel_def)
  with q1 inv assms(3) have "service_inv (msgs(i \<mapsto> message)) (q1, remove1 i taken)" by (auto simp: service_inv_def)
  from service_run_inv [OF assms(5) this] assms(6) obtain msgs' where "service_inv msgs' (q2, taken')" "msgs' i = Some message" by fastforce
  then have "queue_rel q2 \<lparr>counter = end_index q2, messages = msgs'\<rparr>" "msgs' i = Some message" by (simp_all add: service_inv_def)
  from read_refines [OF this(1), of i] this(2) i show ?thesis by simp
qed

text \<open>Two appends at the same time, the later of which stores first, and a restart.\<close>

lemma service_runI: "service_run ops s s' \<Longrightarrow> service_step op s' s'' \<Longrightarrow> ops' = ops @ [op] \<Longrightarrow> service_run ops' s s''"
  by (auto intro: service_run.step)

lemma two_appends:
  "\<exists>q0 q q1 q3. QueueService_new [] = Ok q0 \<and>
     service_run [Some TakeIndex, Some TakeIndex, Some (PutMessage 1 ''b'')] (q0, []) (q, [0]) \<and> end_index q = 2 \<and>
     Append_put 0 ''a'' q = (Ok (Ok 0), q1) \<and> service_run [None, Some TakeIndex] (q1, []) (q3, [2])"
proof -
  obtain q0 where q0: "QueueService_new [] = Ok q0" "queue_rel q0 empty_queue" using new_refines by blast
  from step_refines [OF q0(2), of TakeIndex] obtain qa where
    qa: "run_step TakeIndex q0 = (Ok (Index 0), qa)" "queue_rel qa \<lparr>counter = 1, messages = Map.empty\<rparr>" by (auto simp: empty_queue_def u64_inc_def u64_add_def)
  have two: "u64_inc 1 = 2" by (simp add: u64_inc_def u64_add_def)
  from step_refines [OF qa(2), of TakeIndex] obtain qb where
    qb: "run_step TakeIndex qa = (Ok (Index 1), qb)" "queue_rel qb \<lparr>counter = 2, messages = Map.empty\<rparr>" by (auto simp: two [simplified])
  from step_refines [OF qb(2), of "PutMessage 1 ''b''"] obtain q where
    q: "run_step (PutMessage 1 ''b'') qb = (Ok (Appended 1), q)" "queue_rel q \<lparr>counter = 2, messages = [1 \<mapsto> ''b'']\<rparr>" by (auto simp: u64_max_def)
  from put_refines [OF q(2), of 0 "''a''"] obtain q1 where
    q1: "Append_put 0 ''a'' q = (Ok (Ok 0), q1)" "queue_rel q1 \<lparr>counter = 2, messages = [1 \<mapsto> ''b'', 0 \<mapsto> ''a'']\<rparr>" by auto
  from restart_refines [OF q1(2)] obtain q2 where
    q2: "QueueService_new (kv_storage q1) = Ok q2" "queue_rel q2 \<lparr>counter = end_index q2, messages = [1 \<mapsto> ''b'', 0 \<mapsto> ''a'']\<rparr>"
      "1 < end_index q2" "\<forall>n. end_index q2 = Suc n \<longrightarrow> n \<in> {0, 1}" by (auto simp: u64_max_def)
  then have next_index: "end_index q2 = 2" by (cases "end_index q2") auto
  from step_refines [OF q2(2), of TakeIndex] next_index obtain q3 where q3: "run_step TakeIndex q2 = (Ok (Index 2), q3)" by auto
  have "end_index q0 < u64_max" "end_index qa < u64_max" "end_index q2 < u64_max"
    using q0(2) qa(2) next_index by (simp_all add: queue_rel_def empty_queue_def u64_max_def)
  note steps = service_step.take_index [OF qa(1) this(1)] service_step.take_index [OF qb(1) this(2)] service_step.take_index [OF q3 this(3)]
    service_step.put [OF q(1), of "[1, 0]"] service_step.restart [OF q2(1)]
  have "service_run [Some TakeIndex, Some TakeIndex, Some (PutMessage 1 ''b'')] (q0, []) (q, [0])"
    using service_runI [OF service_runI [OF service_runI [OF service_run.none steps(1)] steps(2)] steps(4)] by simp
  moreover have "service_run [None, Some TakeIndex] (q1, []) (q3, [2])"
    using service_runI [OF service_runI [OF service_run.none steps(5)] steps(3)] by simp
  moreover have "end_index q = 2" using q(2) by (simp add: queue_rel_def)
  ultimately show ?thesis using q0(1) q1(1) by blast
qed

theorem append_then_read_witness:
  "\<exists>q0 q q1 q3. QueueService_new [] = Ok q0 \<and>
     service_run [Some TakeIndex, Some TakeIndex, Some (PutMessage 1 ''b'')] (q0, []) (q, [0]) \<and> Append_put 0 ''a'' q = (Ok (Ok 0), q1) \<and>
     service_run [None, Some TakeIndex] (q1, []) (q3, [2]) \<and>
     QueueService_Read 0 q3 = (Ok (Ok \<lparr>reply_data = ''a'', reply_status = READ_OK\<rparr>), q3)"
proof -
  obtain q0 q q1 q3 where run: "QueueService_new [] = Ok q0"
    "service_run [Some TakeIndex, Some TakeIndex, Some (PutMessage 1 ''b'')] (q0, []) (q, [0])" "Append_put 0 ''a'' q = (Ok (Ok 0), q1)"
    "service_run [None, Some TakeIndex] (q1, []) (q3, [2])" using two_appends by blast
  have "QueueService_Read 0 q3 = (Ok (Ok \<lparr>reply_data = ''a'', reply_status = READ_OK\<rparr>), q3)"
    using append_then_read [OF run(1,2) _ run(3), of "[None, Some TakeIndex]" q3 "[2]"] run(4) by simp
  with run show ?thesis by blast
qed

section \<open>Restarting\<close>

lemma append_refines:
  assumes "queue_rel q \<lparr>counter = k, messages = msgs\<rparr>" and "k < u64_max"
  shows "\<exists>q'. QueueService_Append message q = (Ok (Ok k), q') \<and> queue_rel q' \<lparr>counter = Suc k, messages = msgs(k \<mapsto> message)\<rparr>"
proof -
  have idx: "Append_index q = (Ok k, q\<lparr>end_index := Suc k\<rparr>)"
    using assms by (simp add: Append_index_def exec_simps queue_rel_def u64_add_exact)
  have "queue_rel (q\<lparr>end_index := Suc k\<rparr>) \<lparr>counter = Suc k, messages = msgs\<rparr>" using assms(1) by (auto simp: queue_rel_def)
  from put_refines [OF this, of k message] assms(2) show ?thesis by (auto simp: QueueService_Append_def exec_simps idx)
qed

lemma appends_count:
  assumes "queue_rel q \<lparr>counter = k, messages = msgs\<rparr>" and "k + length ms \<le> u64_max"
  shows "fst (map_exec ms QueueService_Append q) = Ok (map Ok [k..<k + length ms])"
  using assms
proof (induction ms arbitrary: q k msgs)
  case (Cons message ms)
  from append_refines [OF Cons.prems(1), of message] Cons.prems(2) obtain q1 where
    q1: "QueueService_Append message q = (Ok (Ok k), q1)" "queue_rel q1 \<lparr>counter = Suc k, messages = msgs(k \<mapsto> message)\<rparr>" by auto
  from Cons.IH [OF q1(2)] Cons.prems(2) have "fst (map_exec ms QueueService_Append q1) = Ok (map Ok [Suc k..<Suc k + length ms])" by simp
  moreover have "[k..<k + length (message # ms)] = k # [Suc k..<Suc k + length ms]" by (simp add: upt_rec)
  ultimately show ?case using q1(1) by (cases "map_exec ms QueueService_Append q1") (simp add: exec_simps)
qed (simp add: exec_simps)

text \<open>
  C21. Identifiers are given out again after a restart. However many a service has given out, when it is told to trim everything it has, the
  trim succeeds, and the service that starts on the storage finds no key and counts from 0: as many appends as before are answered with the same identifiers
  as before, \<open>0, 1, 2, ...\<close>.\<close>

theorem restart_reuses_identifiers:
  assumes "QueueService_new [] = Ok q0" and "service_run ops (q0, []) (q, taken)" and "length ms \<le> end_index q"
  shows "\<exists>q1 q2. QueueService_Trim (end_index q) q = (Ok (Ok ()), q1) \<and> QueueService_new (kv_storage q1) = Ok q2 \<and> end_index q2 = 0 \<and>
     fst (map_exec ms QueueService_Append q2) = Ok (map Ok [0..<length ms])"
proof -
  obtain msgs where inv: "service_inv msgs (q, taken)" using fresh_service [OF assms(1,2)] by blast
  then have rel: "queue_rel q \<lparr>counter = end_index q, messages = msgs\<rparr>" "end_index q \<le> u64_max" "\<forall>i \<in> dom msgs. i < end_index q" by (auto simp: service_inv_def)
  have "msgs |` {end_index q..} = Map.empty"
  proof
    fix i
    show "(msgs |` {end_index q..}) i = None" using rel(3) by (cases "msgs i") (auto simp: restrict_map_def dest: bspec [of _ _ i])
  qed
  with trim_refines [OF rel(1,2)] obtain q1 where
    q1: "QueueService_Trim (end_index q) q = (Ok (Ok ()), q1)" "queue_rel q1 \<lparr>counter = end_index q, messages = Map.empty\<rparr>" by auto
  from restart_refines [OF q1(2)] obtain q2 where
    q2: "QueueService_new (kv_storage q1) = Ok q2" "queue_rel q2 \<lparr>counter = end_index q2, messages = Map.empty\<rparr>" "\<forall>n. end_index q2 \<noteq> Suc n"
    by auto
  then have zero: "end_index q2 = 0" by (cases "end_index q2") simp_all
  with appends_count [of q2 0 Map.empty ms] q2(2) rel(2) assms(3) q1(1) q2(1) show ?thesis by simp
qed

theorem restart_reuses_identifiers_witness:
  "\<exists>q0 q q1 q2. QueueService_new [] = Ok q0 \<and> service_run [Some TakeIndex, Some TakeIndex, Some (PutMessage 1 ''b'')] (q0, []) (q, [0]) \<and>
     QueueService_Trim (end_index q) q = (Ok (Ok ()), q1) \<and> QueueService_new (kv_storage q1) = Ok q2 \<and>
     fst (map_exec [''c'', ''d''] QueueService_Append q2) = Ok [Ok 0, Ok 1]"
proof -
  obtain q0 q where run: "QueueService_new [] = Ok q0"
    "service_run [Some TakeIndex, Some TakeIndex, Some (PutMessage 1 ''b'')] (q0, []) (q, [0])" "end_index q = 2" using two_appends by blast
  moreover have "[0..<length [''c'', ''d'']] = [0, 1]" by (simp add: upt_rec)
  ultimately show ?thesis using restart_reuses_identifiers [OF run(1,2), of "[''c'', ''d'']"] by fastforce
qed

end
