(* ===== verification/Spec2Isabelle.thy ===== *)
theory Spec2Isabelle
  imports Prelude Results Databases KV Stop_States Stop_Heap Utilities Sync Sim_Servers Raft_Core State_Machine Raft_Replication Raft_Runs Mtf_Hashes
    Exactly_Once Raft_Client History Queue
begin

text \<open>
  A verification development for Metamorphosis: replicated logs over Raft and over a variant of it, a queue, and the runtime they are built on.

  \<^bold>\<open>The program.\<close> The nodes of a cluster run the Raft protocol (\<^verbatim>\<open>src/raft/node/node.cpp\<close>) or its variant Metamorphosis
  (\<^verbatim>\<open>src/metamorphosis/node/node.cpp\<close>), in which some nodes get only the hash of a message. They keep their term, vote and log in
  key-value databases, call one another through remote calls, and run fibers that sleep, wait for events and are cancelled through stop tokens. Clients of Raft
  retry their requests until a leader has executed them (\<^verbatim>\<open>src/raft/client\<close>); a wrapper makes retries harmless for the state machine
  (\<^verbatim>\<open>src/raft/node/state_machine_wrapper.cpp\<close>). A queue on a single node stands beside them (\<^verbatim>\<open>src/queue\<close>). The
  runtime exists twice: in production, and as a simulator that runs a whole cluster in one process on a simulated clock; tests record histories and check
  them for linearizability.

  \<^bold>\<open>How the code is modelled.\<close> Classes are records with their members as fields. A member function is a function on the state that returns a value or a panic,
  the failed \<^verbatim>\<open>VERIFY\<close> or the undefined behaviour of the source. A function that suspends its fiber is split at that point, and the parts are the atomic steps
  that other fibers may come between; a call that waits is a part that is not enabled. Unsigned 64-bit integers are natural numbers with the
  wrap-around written out; signed 64-bit times are integers, and an overflow of theirs is undefined behaviour. Code of libraries (protobuf encodings, MD5, the fiber library, \<^verbatim>\<open>std::sort\<close>, random numbers) is a parameter.

  \<^bold>\<open>Theories.\<close>
  \<^item> Prelude: arithmetic of unsigned 64-bit integers, collections of rules.
  \<^item> Results: \<^verbatim>\<open>src/util/result.h\<close> and \<^verbatim>\<open>condition_check.h\<close>; the state-exception functions that model handlers.
  \<^item> Databases, KV: the simulated database and the typed key-value storage over it
    (\<^verbatim>\<open>src/runtime/simulator/database.cpp\<close>, \<^verbatim>\<open>src/runtime/kv_storage.h\<close>, \<^verbatim>\<open>util/serde\<close>).
  \<^item> Stop_States, Stop_Heap: cancellation (\<^verbatim>\<open>src/runtime/util/cancellation\<close>), as lists and with its pointers.
  \<^item> Text, Utilities: the text functions of the standard library that are used; durations, endpoints, parsing, digests, random values, backoff,
    binary search (\<^verbatim>\<open>src/runtime/util\<close>, \<^verbatim>\<open>src/util\<close>).
  \<^item> Sync: spin lock, events, latches (\<^verbatim>\<open>src/util/spin_lock.h\<close>, \<^verbatim>\<open>src/runtime/util/event\<close>, \<^verbatim>\<open>latch\<close>).
  \<^item> Scheduler, Sim_World, Sim_Time, Sim_Run, Sim_Rpc, Sim_Servers: the simulator (\<^verbatim>\<open>src/runtime/simulator\<close>): fibers, hosts and clock,
    sleeping, runs of the event loop, calls, and servers.
  \<^item> Raft_Core, Raft_Log, State_Machine, Raft_Node, Raft_Replication: the Raft node. Raft_Core holds the elections and accessors, Raft_Log what both kinds of nodes
    share of replication, Raft_Node the handlers and sessions, Raft_Replication what each of them does.
  \<^item> Rpc_Errors, Mtf_Node, Mtf_Replication: the errors of calls and the Metamorphosis node, in the same order.
  \<^item> Election, Log_Protocol: elections and logs as abstract step systems. Cluster, Cluster_Logs, Replica_Cluster: clusters of nodes, as locales over what a
    node promises, each of which implements the abstract systems. Raft_Cluster, Mtf_Cluster: both kinds of nodes meet those promises.
  \<^item> Schedules, Raft_Runs, Mtf_Runs: runs of clusters from their start, and lists of steps that can be evaluated. Mtf_Messages, Mtf_Hashes: what the entries
    of a Metamorphosis cluster say about the messages they stand for.
  \<^item> Exactly_Once, Raft_Client: the state machine wrapper over a whole log, and the client's retry loop (\<^verbatim>\<open>src/raft/client/client.cpp\<close>).
  \<^item> Queue: the queue service over the bytes of its storage (\<^verbatim>\<open>src/queue/service.cpp\<close>).
  \<^item> History: the history checker, the reader of history files and the test state machine (\<^verbatim>\<open>src/raft/test\<close>).

  \<^bold>\<open>What is shown.\<close>
  \<^item> Clusters of any size, with crashes and with requests and answers lost, delayed and repeated: a term has one leader and logs match, for Raft and for
    Metamorphosis, there up to the messages that a node knows by their hash only; the databases of every Raft node stay well formed and its state machine is the result of its committed entries; in Metamorphosis a hash read at one
    node is that of the message read at another.
  \<^item> Two runs that end badly: a committed entry of Raft is lost (Raft_Runs), and a message of Metamorphosis is appended twice (Mtf_Runs).
  \<^item> One node: what each handler of Raft does on every branch, that the committed prefix of a log never changes, which index a leader commits, and that a round with a
    follower makes the logs equal.
  \<^item> Clients: the attempts of a call and their number, that a value comes from a committed answer, that a leader is found; requests are executed once when their
    copies come before the client's next request, and are executed again otherwise.
  \<^item> The queue refines a counter and a map; a message stays readable through concurrent requests and restarts until it is trimmed; identifiers are given out again
    when everything was trimmed before a restart. The history checker decides linearizability when commands are distinct.
  \<^item> The simulator: the clock meets no event of the past, a call runs its handler at most once, shutting down a server and killing a host are final, sleepers are
    woken when they are due, and the fiber of the simulation runs last.
  \<^item> Utilities: the heap of stop states refines lists and frees each state once; locks exclude; printed endpoints and histories are read back; durations wrap.

  \<^bold>\<open>Bounds.\<close> A cluster has fewer than \<open>2\<^sup>6\<^sup>4 - 1\<close> nodes and a log fewer entries; steps that append are enabled only below that bound, which no disk
  reaches. The identifiers of a queue and the guards of a latch stay below \<open>2\<^sup>6\<^sup>4 - 1\<close>, and the sleeps of the simulator end before
  \<open>2\<^sup>6\<^sup>2\<close> microseconds, half of the range of its clock, which is where its search for a time begins. Loops are structural, or have a termination proof; the reader of history files, which may not end on a stream that never ends, is a
  partial function with a theorem that it returns on every finite input. Schedules are finite lists.

  \<^bold>\<open>Not modelled.\<close>
  \<^item> The production runtime: it adapts gRPC, RocksDB and system clocks to fibers, and what it does is the behaviour of those libraries.
  \<^item> The generators of RPC stubs: they print C++ text; the classes their output derives from are modelled.
  \<^item> Main functions, the benchmark, logging and stack traces: input and output only.
  \<^item> The tests themselves.
  \<^item> Condition variables: a waiting call is represented by the condition it waits for; for latches it is shown that every change of the condition is notified.
  \<^item> Of the nodes: log output, and how long a fiber sleeps; a timer may fire at any moment.
\<close>

end
